(* ===== verification/Cboot_Prelude.thy ===== *)
theory Cboot_Prelude
  imports Main "HOL-Library.Word" "HOL-Library.Monad_Syntax"
begin

text \<open>
  Shared vocabulary of the development: the machine integer types of the AArch64 build
  (\<^verbatim>\<open>uint8_t\<close> to \<^verbatim>\<open>uint64_t\<close>, \<^verbatim>\<open>size_t\<close> and \<^verbatim>\<open>off_t\<close> being 64 bits), byte sequences, the
  arithmetic macros of \<^verbatim>\<open>include/lib/tegrabl_utils.h\<close>, little-endian field access for
  structures that are laid over a byte buffer, and the generic lemmas on lists and words
  that the component theories share.

  Conventions used throughout.
  \<^item> \<open>TEGRABL_ASSERT\<close> expands to nothing: no build file of the repository defines
    \<^verbatim>\<open>CONFIG_ENABLE_ASSERTS\<close> (\<^verbatim>\<open>include/lib/tegrabl_debug.h\<close>, lines 143 to 155), so an assertion
    guards nothing and is not a branch of the model.
  \<^item> Logging (\<open>pr_error\<close>, \<open>pr_debug\<close>, ...) has no effect on the state and is left out.
  \<^item> A loop of the source that may run forever has an option type; \<open>None\<close> is "does not return".
\<close>

unbundle bit_operations_syntax

type_synonym u8 = "8 word"
type_synonym u16 = "16 word"
type_synonym u32 = "32 word"
type_synonym u64 = "64 word"
type_synonym bytes = "u8 list"

named_theorems field_simps_c \<open>reading back fields of packed machine words\<close>
named_theorems frame_simps \<open>what an operation leaves unchanged\<close>


section \<open>Arithmetic macros of tegrabl_utils.h\<close>

definition MIN64 :: "u64 \<Rightarrow> u64 \<Rightarrow> u64" where
  "MIN64 x y = (if x < y then x else y)"

definition MAX64 :: "u64 \<Rightarrow> u64 \<Rightarrow> u64" where
  "MAX64 x y = (if x > y then x else y)"

definition DIV_CEIL :: "u64 \<Rightarrow> u64 \<Rightarrow> u64" where
  "DIV_CEIL n d = (n + d - 1) div d"

definition DIV_CEIL_LOG2 :: "u64 \<Rightarrow> nat \<Rightarrow> u64" where
  "DIV_CEIL_LOG2 n logd = drop_bit logd (n + push_bit logd 1 - 1)"

definition DIV_FLOOR_LOG2 :: "u64 \<Rightarrow> nat \<Rightarrow> u64" where
  "DIV_FLOOR_LOG2 n logd = drop_bit logd n"

definition ROUND_UP :: "u64 \<Rightarrow> u64 \<Rightarrow> u64" where
  "ROUND_UP n w = DIV_CEIL n w * w"

definition MOD_POW2 :: "u64 \<Rightarrow> u64 \<Rightarrow> u64" where
  "MOD_POW2 n d = n AND (d - 1)"

definition MOD_LOG2 :: "u64 \<Rightarrow> nat \<Rightarrow> u64" where
  "MOD_LOG2 n logd = n AND (push_bit logd 1 - 1)"

text \<open>The functional meaning of the macros, as natural numbers.\<close>

lemma mask_form: "push_bit n 1 - 1 = (mask n :: 'a::len word)"
  by (simp add: mask_eq_exp_minus_1 push_bit_of_1)

lemma unat_MOD_LOG2: "unat (MOD_LOG2 n k) = unat n mod 2 ^ k"
  unfolding MOD_LOG2_def mask_form take_bit_eq_mask [symmetric] unsigned_take_bit_eq
  by (simp only: take_bit_eq_mod)

lemma unat_DIV_FLOOR_LOG2: "unat (DIV_FLOOR_LOG2 n k) = unat n div 2 ^ k"
  unfolding DIV_FLOOR_LOG2_def unat_drop_bit_eq
  by (simp only: drop_bit_eq_div)

lemma unat_MIN64: "unat (MIN64 x y) = min (unat x) (unat y)"
  by (auto simp: MIN64_def min_def word_less_nat_alt)

lemma unat_MAX64: "unat (MAX64 x y) = max (unat x) (unat y)"
  by (auto simp: MAX64_def max_def word_less_nat_alt)


section \<open>Words\<close>

lemma xor_cancel_right [simp]: "(a :: 'a::len word) XOR c = b XOR c \<longleftrightarrow> a = b"
  by (auto simp: bit_eq_iff bit_simps)

lemma xor_cancel_left [simp]: "(c :: 'a::len word) XOR a = c XOR b \<longleftrightarrow> a = b"
  by (auto simp: bit_eq_iff bit_simps)

lemma ucast_u8_u32_eq [simp]: "(ucast (a :: u8) :: u32) = ucast b \<longleftrightarrow> a = b"
proof
  assume e: "(ucast a :: u32) = ucast b"
  have "bit a n = bit b n" for n
    using arg_cong [OF e, of "\<lambda>w. bit w n"] by (auto simp: bit_simps dest: bit_imp_le_length)
  then show "a = b" by (rule bit_eqI)
qed simp

lemma unat_of_nat64 [simp]: "k < 2 ^ 64 \<Longrightarrow> unat (of_nat k :: u64) = k"
  by (simp add: unsigned_of_nat take_bit_nat_eq_self_iff)

lemma unat_of_nat32 [simp]: "k < 2 ^ 32 \<Longrightarrow> unat (of_nat k :: u32) = k"
  by (simp add: unsigned_of_nat take_bit_nat_eq_self_iff)

lemma unat_lt64: "unat (x :: u64) < 2 ^ 64"
  using unsigned_less [of x, where 'a = nat] by simp

lemma unat_add_of_nat:
  fixes x :: u64
  shows "unat x + k < 2 ^ 64 \<Longrightarrow> unat (x + of_nat k) = unat x + k"
  by (simp add: unat_word_ariths)

lemma unat_sub_flip:
  fixes a b :: u64
  shows "a \<noteq> b \<Longrightarrow> unat (a - b) = 2 ^ 64 - unat (b - a)"
  using unat_lt64 [of a] unat_lt64 [of b]
  by (auto simp: unat_sub_if_size word_size word_unat_eq_iff)

lemma unat_sub_of_nat:
  fixes x :: u64
  assumes "k \<le> unat x"
  shows "unat (x - of_nat k) = unat x - k"
proof -
  have "k < 2 ^ 64" using assms unat_lt64 [of x] by simp
  with assms show ?thesis by (simp add: unat_sub word_le_nat_alt)
qed

lemma unat_sub_of_nat_small:
  fixes x :: u64
  assumes "unat x < k" "k < 2 ^ 64"
  shows "unat (x - of_nat k) = 2 ^ 64 + unat x - k"
proof -
  have "unat (of_nat k :: u64) = k" using assms by (simp add: unsigned_of_nat take_bit_nat_eq_self_iff)
  with assms show ?thesis by (simp add: unat_sub_if_size word_size)
qed

lemma unat_and_7: "unat (x AND 7 :: u64) = unat x mod 8"
proof -
  have "(7 :: u64) = mask 3" by (simp add: mask_eq_exp_minus_1)
  then show ?thesis by (simp only: take_bit_eq_mask [symmetric] unsigned_take_bit_eq) (simp add: take_bit_eq_mod)
qed

lemma unat_div_8: "unat (x div 8 :: u64) = unat x div 8"
  by (simp add: unat_div_distrib)

lemma unat_div_8_mult: "unat (x div 8 * 8 :: u64) = unat x div 8 * 8"
  using unat_lt64 [of x] by (simp add: unat_word_ariths unat_div_8)

lemma of_nat_div_8_mult: "of_nat (unat x div 8 * 8) = (x div 8 * 8 :: u64)"
  using arg_cong [OF unat_div_8_mult [of x], of "of_nat :: nat \<Rightarrow> u64"]
  by (simp only: of_nat_unat ucast_id)

lemma unat_ucast_u32: "unat x < 2 ^ 32 \<Longrightarrow> unat (ucast (x :: u64) :: u32) = unat x"
  by (simp add: unsigned_ucast_eq take_bit_nat_eq_self_iff)

lemma ucast_ucast_u32: "unat x < 2 ^ 32 \<Longrightarrow> ucast (ucast (x :: u64) :: u32) = x"
  by (simp add: word_unat_eq_iff unsigned_ucast_eq unsigned_take_bit_eq take_bit_nat_eq_self_iff)

lemma FF_mask: "(0xFF :: 'a::len word) = mask 8"
  by (simp add: mask_eq_exp_minus_1)


section \<open>Searching\<close>

lemma find_map_Suc: "find P [0..<Suc n] = (if P 0 then Some 0 else map_option Suc (find (P \<circ> Suc) [0..<n]))"
proof -
  have "[0..<Suc n] = 0 # map Suc [0..<n]" by (simp add: upt_conv_Cons map_Suc_upt del: upt_Suc)
  moreover have "find P (map f xs) = map_option f (find (P \<circ> f) xs)" for f :: "nat \<Rightarrow> nat" and xs
    by (induction xs) auto
  ultimately show ?thesis by simp
qed


section \<open>Little-endian encoding\<close>

fun le_word :: "bytes \<Rightarrow> 'a::len word" where
  "le_word [] = 0"
| "le_word (b # bs) = ucast b OR push_bit 8 (le_word bs)"

fun le_bytes :: "nat \<Rightarrow> 'a::len word \<Rightarrow> bytes" where
  "le_bytes 0 w = []"
| "le_bytes (Suc n) w = ucast w # le_bytes n (drop_bit 8 w)"

lemma length_le_bytes [simp]: "length (le_bytes n w) = n"
  by (induction n arbitrary: w) simp_all

lemma le_word_le_bytes_take: "le_word (le_bytes n w) = take_bit (8 * n) w"
proof (induction n arbitrary: w)
  case (Suc n)
  show ?case
    by (rule bit_eqI) (auto simp: Suc bit_simps dest: bit_imp_le_length)
qed simp

lemma le_word_le_bytes [simp]:
  "LENGTH('a) \<le> 8 * n \<Longrightarrow> le_word (le_bytes n w) = (w :: 'a::len word)"
  by (simp add: le_word_le_bytes_take take_bit_word_eq_self)

lemma nth_le_bytes: "i < n \<Longrightarrow> le_bytes n w ! i = ucast (drop_bit (8 * i) w)"
  by (induction n arbitrary: i w) (simp_all add: nth_Cons add.commute split: nat.split)

lemma bit_le_word:
  "bit (le_word bs :: 'a::len word) k \<longleftrightarrow>
     k < LENGTH('a) \<and> k div 8 < length bs \<and> bit (bs ! (k div 8)) (k mod 8)"
proof (induction bs arbitrary: k)
  case (Cons b bs)
  show ?case
  proof (cases "k < 8")
    case True
    then show ?thesis by (auto simp: bit_simps)
  next
    case False
    then obtain j where j: "k = j + 8" by (metis le_Suc_ex not_less add.commute)
    then have "k div 8 = Suc (j div 8)" "k mod 8 = j mod 8" by simp_all
    with j show ?thesis by (auto simp: Cons bit_simps dest: bit_imp_le_length)
  qed
qed simp

lemma le_bytes_le_word:
  "8 * length bs \<le> LENGTH('a) \<Longrightarrow> le_bytes (length bs) (le_word bs :: 'a::len word) = bs"
proof (rule nth_equalityI; simp)
  fix i assume i: "8 * length bs \<le> LENGTH('a)" "i < length bs"
  show "le_bytes (length bs) (le_word bs :: 'a word) ! i = bs ! i"
  proof (rule bit_eqI)
    fix n assume "possible_bit TYPE(u8) n"
    then have "n < 8" by simp
    then show "bit (le_bytes (length bs) (le_word bs :: 'a word) ! i) n = bit (bs ! i) n"
      using i by (auto simp: nth_le_bytes bit_le_word bit_simps)
  qed
qed

lemma le_word_append:
  "le_word (xs @ ys) = (le_word xs OR push_bit (8 * length xs) (le_word ys) :: 'a::len word)"
  by (induction xs) (simp_all add: push_bit_or or.assoc push_bit_push_bit)

end
