(* ===== verification/Cboot_Error.thy ===== *)
theory Cboot_Error
  imports Cboot_Prelude
begin

text \<open>
  The packed 32-bit error codes of \<^verbatim>\<open>include/tegrabl_error.h\<close>: constructor, field setters and
  field getters, over the bit-field macros of \<^verbatim>\<open>include/lib/tegrabl_utils.h\<close>. The macros compute in
  64 bits (their constants are \<^verbatim>\<open>unsigned long\<close>) and the assignment back to the 32-bit variable
  truncates; the model keeps both steps. Every component returns values of \<open>tegrabl_error_t\<close>.
\<close>

type_synonym tegrabl_error_t = u32
type_synonym tegrabl_err_module_t = u32
type_synonym tegrabl_err_reason_t = u32

definition BITFIELD_ONES :: "nat \<Rightarrow> u64" where
  "BITFIELD_ONES width = push_bit width 1 - 1"

definition BITFIELD_MASK :: "nat \<Rightarrow> nat \<Rightarrow> u64" where
  "BITFIELD_MASK width shift = push_bit shift (BITFIELD_ONES width)"

definition BITFIELD_SET :: "u32 \<Rightarrow> u32 \<Rightarrow> nat \<Rightarrow> nat \<Rightarrow> u32" where
  "BITFIELD_SET var val width shift =
     (let v1 = (ucast ((ucast var :: u64) AND NOT (BITFIELD_MASK width shift)) :: u32)
      in ucast ((ucast v1 :: u64) OR push_bit shift ((ucast val :: u64) AND BITFIELD_ONES width)))"

abbreviation (input) TEGRABL_NO_ERROR :: tegrabl_error_t where "TEGRABL_NO_ERROR \<equiv> 0"
abbreviation (input) ERR_NOT_SUPPORTED :: u32 where "ERR_NOT_SUPPORTED \<equiv> 0x01"
abbreviation (input) ERR_INVALID :: u32 where "ERR_INVALID \<equiv> 0x02"
abbreviation (input) ERR_NO_MEMORY :: u32 where "ERR_NO_MEMORY \<equiv> 0x03"
abbreviation (input) ERR_OVERFLOW :: u32 where "ERR_OVERFLOW \<equiv> 0x04"
abbreviation (input) ERR_UNDERFLOW :: u32 where "ERR_UNDERFLOW \<equiv> 0x05"
abbreviation (input) ERR_TOO_SMALL :: u32 where "ERR_TOO_SMALL \<equiv> 0x08"
abbreviation (input) ERR_NOT_FOUND :: u32 where "ERR_NOT_FOUND \<equiv> 0x0d"
abbreviation (input) ERR_VERIFY_FAILED :: u32 where "ERR_VERIFY_FAILED \<equiv> 0x18"
abbreviation (input) ERR_NOT_INITIALIZED :: u32 where "ERR_NOT_INITIALIZED \<equiv> 0x20"
abbreviation (input) ERR_ALREADY_EXISTS :: u32 where "ERR_ALREADY_EXISTS \<equiv> 0x21"
abbreviation (input) ERR_BAD_PARAMETER :: u32 where "ERR_BAD_PARAMETER \<equiv> 0x2a"

abbreviation (input) MOD_PARTITION_MANAGER :: u32 where "MOD_PARTITION_MANAGER \<equiv> 0xd"
abbreviation (input) MOD_BLOCK_DEV :: u32 where "MOD_BLOCK_DEV \<equiv> 0xe"
abbreviation (input) MOD_SATA :: u32 where "MOD_SATA \<equiv> 0x10"
abbreviation (input) MOD_HEAP :: u32 where "MOD_HEAP \<equiv> 0x1a"
abbreviation (input) MOD_GPT :: u32 where "MOD_GPT \<equiv> 0x1c"
abbreviation (input) MOD_AB_BOOTCTRL :: u32 where "MOD_AB_BOOTCTRL \<equiv> 0x54"

definition TEGRABL_ERROR_REASON :: "tegrabl_error_t \<Rightarrow> u64" where
  "TEGRABL_ERROR_REASON error = ucast error AND BITFIELD_ONES 8"

definition TEGRABL_ERROR_AUX_INFO :: "tegrabl_error_t \<Rightarrow> u64" where
  "TEGRABL_ERROR_AUX_INFO error = ucast (drop_bit 8 error) AND BITFIELD_ONES 8"

definition TEGRABL_ERROR_MODULE :: "tegrabl_error_t \<Rightarrow> u64" where
  "TEGRABL_ERROR_MODULE error = ucast (drop_bit 16 error) AND BITFIELD_ONES 8"

definition TEGRABL_ERROR_HIGHEST_MODULE :: "tegrabl_error_t \<Rightarrow> u64" where
  "TEGRABL_ERROR_HIGHEST_MODULE error = ucast (drop_bit 24 error) AND BITFIELD_ONES 8"

definition tegrabl_error_value :: "tegrabl_err_module_t \<Rightarrow> u8 \<Rightarrow> tegrabl_err_reason_t \<Rightarrow> tegrabl_error_t" where
  "tegrabl_error_value module aux_info reason =
     (let e1 = BITFIELD_SET TEGRABL_NO_ERROR module 8 24;
          e2 = BITFIELD_SET e1 module 8 16;
          e3 = BITFIELD_SET e2 (ucast aux_info) 8 8
      in BITFIELD_SET e3 reason 8 0)"

definition tegrabl_err_set_highest_module :: "tegrabl_error_t \<Rightarrow> tegrabl_err_module_t \<Rightarrow> tegrabl_error_t" where
  "tegrabl_err_set_highest_module error module = BITFIELD_SET error module 8 24"

definition tegrabl_err_set_lowest_module :: "tegrabl_error_t \<Rightarrow> tegrabl_err_module_t \<Rightarrow> tegrabl_error_t" where
  "tegrabl_err_set_lowest_module error module = BITFIELD_SET error module 8 16"

definition tegrabl_err_set_aux_info :: "tegrabl_error_t \<Rightarrow> u8 \<Rightarrow> tegrabl_error_t" where
  "tegrabl_err_set_aux_info error aux_info = BITFIELD_SET error (ucast aux_info) 8 8"

text \<open>The macro \<^verbatim>\<open>TEGRABL_ERROR\<close> of each module, and the error check used on every return path.\<close>

abbreviation is_ok :: "tegrabl_error_t \<Rightarrow> bool" where
  "is_ok e \<equiv> e = TEGRABL_NO_ERROR"


section \<open>Bit-field laws\<close>

lemma BITFIELD_ONES_mask: "BITFIELD_ONES w = mask w"
  by (simp only: BITFIELD_ONES_def mask_form)

lemma bit_BITFIELD_SET [bit_simps]:
  "bit (BITFIELD_SET v x w s) n \<longleftrightarrow>
     n < 32 \<and> (if s \<le> n \<and> n < s + w then bit x (n - s) else bit v n)"
  by (auto simp: BITFIELD_SET_def BITFIELD_MASK_def BITFIELD_ONES_mask Let_def bit_simps
      dest: bit_imp_le_length)

lemma and_ones_8:
  fixes x :: u32
  shows "(ucast x :: u64) AND BITFIELD_ONES 8 = ucast (ucast x :: u8)"
  by (rule bit_eqI) (auto simp: BITFIELD_ONES_mask bit_simps dest: bit_imp_le_length)

lemma reason_of_value [field_simps_c]:
  "TEGRABL_ERROR_REASON (tegrabl_error_value m a r) = ucast (ucast r :: u8)"
  unfolding TEGRABL_ERROR_REASON_def and_ones_8 tegrabl_error_value_def Let_def
  by (rule bit_eqI) (auto simp: bit_simps)

lemma aux_of_value [field_simps_c]:
  "TEGRABL_ERROR_AUX_INFO (tegrabl_error_value m a r) = ucast a"
  unfolding TEGRABL_ERROR_AUX_INFO_def and_ones_8 tegrabl_error_value_def Let_def
  by (rule bit_eqI) (auto simp: bit_simps dest: bit_imp_le_length)

lemma module_of_value [field_simps_c]:
  "TEGRABL_ERROR_MODULE (tegrabl_error_value m a r) = ucast (ucast m :: u8)"
  unfolding TEGRABL_ERROR_MODULE_def and_ones_8 tegrabl_error_value_def Let_def
  by (rule bit_eqI) (auto simp: bit_simps)

lemma highest_of_value [field_simps_c]:
  "TEGRABL_ERROR_HIGHEST_MODULE (tegrabl_error_value m a r) = ucast (ucast m :: u8)"
  unfolding TEGRABL_ERROR_HIGHEST_MODULE_def and_ones_8 tegrabl_error_value_def Let_def
  by (rule bit_eqI) (auto simp: bit_simps)

lemma set_highest_reason [field_simps_c]:
  "TEGRABL_ERROR_REASON (tegrabl_err_set_highest_module e m) = TEGRABL_ERROR_REASON e"
  unfolding TEGRABL_ERROR_REASON_def and_ones_8 tegrabl_err_set_highest_module_def
  by (rule bit_eqI) (auto simp: bit_simps)

lemma set_highest_aux [field_simps_c]:
  "TEGRABL_ERROR_AUX_INFO (tegrabl_err_set_highest_module e m) = TEGRABL_ERROR_AUX_INFO e"
  unfolding TEGRABL_ERROR_AUX_INFO_def and_ones_8 tegrabl_err_set_highest_module_def
  by (rule bit_eqI) (auto simp: bit_simps)

lemma set_highest_module [field_simps_c]:
  "TEGRABL_ERROR_MODULE (tegrabl_err_set_highest_module e m) = TEGRABL_ERROR_MODULE e"
  unfolding TEGRABL_ERROR_MODULE_def and_ones_8 tegrabl_err_set_highest_module_def
  by (rule bit_eqI) (auto simp: bit_simps)

lemma set_highest_highest [field_simps_c]:
  "TEGRABL_ERROR_HIGHEST_MODULE (tegrabl_err_set_highest_module e m) = ucast (ucast m :: u8)"
  unfolding TEGRABL_ERROR_HIGHEST_MODULE_def and_ones_8 tegrabl_err_set_highest_module_def
  by (rule bit_eqI) (auto simp: bit_simps)

text \<open>An error stays an error: neither constructor nor relabelling can produce \<^verbatim>\<open>TEGRABL_NO_ERROR\<close>.\<close>

lemma reason_zero [simp]: "TEGRABL_ERROR_REASON 0 = 0"
  by (simp add: TEGRABL_ERROR_REASON_def)

lemma error_value_not_ok:
  "(ucast r :: u8) \<noteq> 0 \<Longrightarrow> tegrabl_error_value m a r \<noteq> TEGRABL_NO_ERROR"
proof
  assume r: "(ucast r :: u8) \<noteq> 0" and e: "tegrabl_error_value m a r = 0"
  have "(ucast (ucast r :: u8) :: u64) = 0"
    using reason_of_value [of m a r] by (simp add: e)
  moreover have "bit (ucast (ucast r :: u8) :: u64) n = bit (ucast r :: u8) n" for n
    by (auto simp: bit_simps dest: bit_imp_le_length)
  ultimately have "(ucast r :: u8) = 0"
    by (intro bit_eqI) simp
  with r show False by simp
qed

lemma error_value_neq0 [simp]:
  "tegrabl_error_value m a ERR_NOT_SUPPORTED \<noteq> 0" "tegrabl_error_value m a ERR_INVALID \<noteq> 0"
  "tegrabl_error_value m a ERR_NO_MEMORY \<noteq> 0" "tegrabl_error_value m a ERR_OVERFLOW \<noteq> 0"
  "tegrabl_error_value m a ERR_UNDERFLOW \<noteq> 0" "tegrabl_error_value m a ERR_TOO_SMALL \<noteq> 0"
  "tegrabl_error_value m a ERR_NOT_FOUND \<noteq> 0" "tegrabl_error_value m a ERR_VERIFY_FAILED \<noteq> 0"
  "tegrabl_error_value m a ERR_NOT_INITIALIZED \<noteq> 0" "tegrabl_error_value m a ERR_ALREADY_EXISTS \<noteq> 0"
  "tegrabl_error_value m a ERR_BAD_PARAMETER \<noteq> 0"
  by (rule error_value_not_ok, simp)+

lemma set_highest_not_ok:
  "TEGRABL_ERROR_REASON e \<noteq> 0 \<Longrightarrow> tegrabl_err_set_highest_module e m \<noteq> TEGRABL_NO_ERROR"
  by (metis reason_zero set_highest_reason)

end
