(* ===== verification/Cboot_Utils.thy ===== *)
theory Cboot_Utils
  imports Cboot_Error
begin

text \<open>
  The checksum and conversion routines of \<^verbatim>\<open>common/lib/utils/tegrabl_utils.c\<close>: the table-driven
  CRC-32 with its 256-entry table, the additive checksum, the bitwise CRC-8, the decimal rendering
  of a byte's bits, the string-to-number parser and the byte swaps. A buffer with its size is the
  list of its bytes; a C string is the list of its characters before the terminating NUL, so that
  reading at the end of the list reads \<^verbatim>\<open>'\0'\<close>.
\<close>

section \<open>CRC-32\<close>

definition tegrabl_crc32_tab :: "u32 list" where
  "tegrabl_crc32_tab = [
    0x00000000, 0x77073096, 0xee0e612c, 0x990951ba, 0x076dc419, 0x706af48f,
    0xe963a535, 0x9e6495a3, 0x0edb8832, 0x79dcb8a4, 0xe0d5e91e, 0x97d2d988,
    0x09b64c2b, 0x7eb17cbd, 0xe7b82d07, 0x90bf1d91, 0x1db71064, 0x6ab020f2,
    0xf3b97148, 0x84be41de, 0x1adad47d, 0x6ddde4eb, 0xf4d4b551, 0x83d385c7,
    0x136c9856, 0x646ba8c0, 0xfd62f97a, 0x8a65c9ec, 0x14015c4f, 0x63066cd9,
    0xfa0f3d63, 0x8d080df5, 0x3b6e20c8, 0x4c69105e, 0xd56041e4, 0xa2677172,
    0x3c03e4d1, 0x4b04d447, 0xd20d85fd, 0xa50ab56b, 0x35b5a8fa, 0x42b2986c,
    0xdbbbc9d6, 0xacbcf940, 0x32d86ce3, 0x45df5c75, 0xdcd60dcf, 0xabd13d59,
    0x26d930ac, 0x51de003a, 0xc8d75180, 0xbfd06116, 0x21b4f4b5, 0x56b3c423,
    0xcfba9599, 0xb8bda50f, 0x2802b89e, 0x5f058808, 0xc60cd9b2, 0xb10be924,
    0x2f6f7c87, 0x58684c11, 0xc1611dab, 0xb6662d3d, 0x76dc4190, 0x01db7106,
    0x98d220bc, 0xefd5102a, 0x71b18589, 0x06b6b51f, 0x9fbfe4a5, 0xe8b8d433,
    0x7807c9a2, 0x0f00f934, 0x9609a88e, 0xe10e9818, 0x7f6a0dbb, 0x086d3d2d,
    0x91646c97, 0xe6635c01, 0x6b6b51f4, 0x1c6c6162, 0x856530d8, 0xf262004e,
    0x6c0695ed, 0x1b01a57b, 0x8208f4c1, 0xf50fc457, 0x65b0d9c6, 0x12b7e950,
    0x8bbeb8ea, 0xfcb9887c, 0x62dd1ddf, 0x15da2d49, 0x8cd37cf3, 0xfbd44c65,
    0x4db26158, 0x3ab551ce, 0xa3bc0074, 0xd4bb30e2, 0x4adfa541, 0x3dd895d7,
    0xa4d1c46d, 0xd3d6f4fb, 0x4369e96a, 0x346ed9fc, 0xad678846, 0xda60b8d0,
    0x44042d73, 0x33031de5, 0xaa0a4c5f, 0xdd0d7cc9, 0x5005713c, 0x270241aa,
    0xbe0b1010, 0xc90c2086, 0x5768b525, 0x206f85b3, 0xb966d409, 0xce61e49f,
    0x5edef90e, 0x29d9c998, 0xb0d09822, 0xc7d7a8b4, 0x59b33d17, 0x2eb40d81,
    0xb7bd5c3b, 0xc0ba6cad, 0xedb88320, 0x9abfb3b6, 0x03b6e20c, 0x74b1d29a,
    0xead54739, 0x9dd277af, 0x04db2615, 0x73dc1683, 0xe3630b12, 0x94643b84,
    0x0d6d6a3e, 0x7a6a5aa8, 0xe40ecf0b, 0x9309ff9d, 0x0a00ae27, 0x7d079eb1,
    0xf00f9344, 0x8708a3d2, 0x1e01f268, 0x6906c2fe, 0xf762575d, 0x806567cb,
    0x196c3671, 0x6e6b06e7, 0xfed41b76, 0x89d32be0, 0x10da7a5a, 0x67dd4acc,
    0xf9b9df6f, 0x8ebeeff9, 0x17b7be43, 0x60b08ed5, 0xd6d6a3e8, 0xa1d1937e,
    0x38d8c2c4, 0x4fdff252, 0xd1bb67f1, 0xa6bc5767, 0x3fb506dd, 0x48b2364b,
    0xd80d2bda, 0xaf0a1b4c, 0x36034af6, 0x41047a60, 0xdf60efc3, 0xa867df55,
    0x316e8eef, 0x4669be79, 0xcb61b38c, 0xbc66831a, 0x256fd2a0, 0x5268e236,
    0xcc0c7795, 0xbb0b4703, 0x220216b9, 0x5505262f, 0xc5ba3bbe, 0xb2bd0b28,
    0x2bb45a92, 0x5cb36a04, 0xc2d7ffa7, 0xb5d0cf31, 0x2cd99e8b, 0x5bdeae1d,
    0x9b64c2b0, 0xec63f226, 0x756aa39c, 0x026d930a, 0x9c0906a9, 0xeb0e363f,
    0x72076785, 0x05005713, 0x95bf4a82, 0xe2b87a14, 0x7bb12bae, 0x0cb61b38,
    0x92d28e9b, 0xe5d5be0d, 0x7cdcefb7, 0x0bdbdf21, 0x86d3d2d4, 0xf1d4e242,
    0x68ddb3f8, 0x1fda836e, 0x81be16cd, 0xf6b9265b, 0x6fb077e1, 0x18b74777,
    0x88085ae6, 0xff0f6a70, 0x66063bca, 0x11010b5c, 0x8f659eff, 0xf862ae69,
    0x616bffd3, 0x166ccf45, 0xa00ae278, 0xd70dd2ee, 0x4e048354, 0x3903b3c2,
    0xa7672661, 0xd06016f7, 0x4969474d, 0x3e6e77db, 0xaed16a4a, 0xd9d65adc,
    0x40df0b66, 0x37d83bf0, 0xa9bcae53, 0xdebb9ec5, 0x47b2cf7f, 0x30b5ffe9,
    0xbdbdf21c, 0xcabac28a, 0x53b39330, 0x24b4a3a6, 0xbad03605, 0xcdd70693,
    0x54de5729, 0x23d967bf, 0xb3667a2e, 0xc4614ab8, 0x5d681b02, 0x2a6f2b94,
    0xb40bbe37, 0xc30c8ea1, 0x5a05df1b, 0x2d02ef8d]"

text \<open>The \<open>while\<close> loop of \<^verbatim>\<open>tegrabl_utils_crc32\<close>, one byte per iteration.\<close>

fun crc32_loop :: "u32 \<Rightarrow> bytes \<Rightarrow> u32" where
  "crc32_loop final_crc [] = final_crc"
| "crc32_loop final_crc (b # bs) =
     crc32_loop (tegrabl_crc32_tab ! unat ((final_crc XOR ucast b) AND 0xFF) XOR drop_bit 8 final_crc) bs"

definition tegrabl_utils_crc32 :: "u32 \<Rightarrow> bytes \<Rightarrow> u32" where
  "tegrabl_utils_crc32 v buffer = crc32_loop (v XOR NOT 0) buffer XOR NOT 0"


text \<open>
  The reference: reflected polynomial division by \<^verbatim>\<open>0xEDB88320\<close>, one bit at a time, eight bits per
  byte.
\<close>

definition crc32_bit :: "u32 \<Rightarrow> u32" where
  "crc32_bit c = (if bit c 0 then drop_bit 1 c XOR 0xEDB88320 else drop_bit 1 c)"

definition crc32_byte :: "u32 \<Rightarrow> u32" where
  "crc32_byte c = (crc32_bit ^^ 8) c"

definition crc32_reference :: "u32 \<Rightarrow> bytes \<Rightarrow> u32" where
  "crc32_reference v buffer = foldl (\<lambda>c b. crc32_byte (c XOR ucast b)) (NOT v) buffer XOR NOT 0"

lemma crc32_bit_xor: "crc32_bit (x XOR y) = crc32_bit x XOR crc32_bit y"
  by (rule bit_eqI) (auto simp: crc32_bit_def bit_simps)

lemma crc32_bits_xor: "(crc32_bit ^^ n) (x XOR y) = (crc32_bit ^^ n) x XOR (crc32_bit ^^ n) y"
  by (induction n arbitrary: x y) (simp_all add: crc32_bit_xor funpow_swap1)

lemma crc32_byte_xor: "crc32_byte (x XOR y) = crc32_byte x XOR crc32_byte y"
  by (simp only: crc32_byte_def crc32_bits_xor)

lemma crc32_bit_push: "crc32_bit (push_bit (Suc n) y) = take_bit 31 (push_bit n y)"
  by (rule bit_eqI) (auto simp: crc32_bit_def bit_simps simp del: push_bit_Suc)

lemma crc32_bits_push: "n + k \<le> 32 \<Longrightarrow> (crc32_bit ^^ n) (push_bit n (take_bit k y)) = take_bit k y"
proof (induction n)
  case (Suc n)
  have "crc32_bit (push_bit (Suc n) (take_bit k y)) = push_bit n (take_bit k y)"
    unfolding crc32_bit_push using Suc.prems by (intro bit_eqI) (auto simp: bit_simps)
  then show ?case
    using Suc by (simp add: funpow_swap1 del: push_bit_Suc)
qed simp

lemma crc32_byte_split: "crc32_byte x = crc32_byte (take_bit 8 x) XOR drop_bit 8 x"
proof -
  have x: "x = take_bit 8 x XOR push_bit 8 (take_bit 24 (drop_bit 8 x))"
    by (rule bit_eqI) (auto simp: bit_simps)
  have "take_bit 24 (drop_bit 8 x) = drop_bit 8 x"
    by (rule bit_eqI) (auto simp: bit_simps dest: bit_imp_le_length)
  then have "crc32_byte (push_bit 8 (take_bit 24 (drop_bit 8 x))) = drop_bit 8 x"
    using crc32_bits_push [of 8 24 "drop_bit 8 x"] by (simp add: crc32_byte_def)
  then show ?thesis
    by (subst x) (simp only: crc32_byte_xor)
qed

text \<open>
  The table is linear: entry \<open>2 ^ k + i\<close> is entry \<open>2 ^ k\<close> xor entry \<open>i\<close>, so that the 256 entries are
  checked against eight generators.
\<close>

definition xor_span :: "u32 list \<Rightarrow> u32 list" where
  "xor_span gens = foldl (\<lambda>l g. l @ map (\<lambda>x. g XOR x) l) [0] gens"

lemma of_nat_split_pow2:
  assumes "i < 2 ^ k"
  shows "(of_nat (2 ^ k + i) :: u32) = 2 ^ k XOR of_nat i"
proof -
  have b: "j < k" if "bit i j" for j
    using assms that by (metis bit_take_bit_iff take_bit_nat_eq_self)
  have "2 ^ k + i = 2 ^ k OR i"
    by (rule disjunctive_add) (auto simp: bit_simps dest: b)
  also have "\<dots> = 2 ^ k XOR i"
    by (rule bit_eqI) (auto simp: bit_simps dest: b)
  finally have "(of_nat (2 ^ k + i) :: u32) = of_nat (2 ^ k XOR i)" by (rule arg_cong)
  also have "\<dots> = of_nat (2 ^ k) XOR of_nat i"
    by (rule of_nat_xor_eq)
  finally show ?thesis by simp
qed

lemma xor_span_linear:
  "xor_span (map (\<lambda>k. crc32_byte (2 ^ k)) [0..<n]) = map (\<lambda>i. crc32_byte (of_nat i)) [0..<2 ^ n]"
proof (induction n)
  case 0
  have "crc32_byte 0 = crc32_byte 0 XOR crc32_byte 0"
    using crc32_byte_xor [of 0 0] by simp
  then show ?case by (simp add: xor_span_def)
next
  case (Suc n)
  have shift: "map (\<lambda>i. crc32_byte (of_nat i)) [2 ^ n..<2 ^ n + 2 ^ n] =
        map (\<lambda>i. crc32_byte (2 ^ n) XOR crc32_byte (of_nat i)) [0..<2 ^ n]"
    by (rule nth_equalityI) (auto simp: of_nat_split_pow2 crc32_byte_xor simp del: of_nat_add)
  have "[0..<2 ^ n + 2 ^ n] = [0..<2 ^ n] @ [2 ^ n..<2 ^ n + (2::nat) ^ n]"
    by (rule upt_add_eq_append) simp
  with Suc shift show ?case
    by (simp add: xor_span_def mult_2 comp_def)
qed

lemma crc32_generators:
  "map (\<lambda>k. crc32_byte (2 ^ k)) [0..<8] =
     [0x77073096, 0xee0e612c, 0x076dc419, 0x0edb8832, 0x1db71064, 0x3b6e20c8, 0x76dc4190, 0xedb88320]"
proof -
  have eight: "crc32_byte c =
      crc32_bit (crc32_bit (crc32_bit (crc32_bit (crc32_bit (crc32_bit (crc32_bit (crc32_bit c)))))))" for c
    by (simp add: crc32_byte_def numeral_eq_Suc)
  have "[0..<8] = [0, 1, 2, 3, 4, 5, 6, 7::nat]" by (simp add: upt_rec)
  then show ?thesis
    by (simp add: eight crc32_bit_def)
qed

lemma crc32_tab_span: "tegrabl_crc32_tab = xor_span (map (\<lambda>k. crc32_byte (2 ^ k)) [0..<8])"
  unfolding crc32_generators xor_span_def tegrabl_crc32_tab_def by simp

lemma crc32_tab_nth: "i < 256 \<Longrightarrow> tegrabl_crc32_tab ! i = crc32_byte (of_nat i)"
  unfolding crc32_tab_span xor_span_linear by simp

lemma crc32_loop_step:
  "tegrabl_crc32_tab ! unat ((c XOR ucast b) AND 0xFF) XOR drop_bit 8 c = crc32_byte (c XOR ucast (b :: u8))"
proof -
  let ?x = "c XOR ucast b"
  have m: "?x AND 0xFF = take_bit 8 ?x"
    by (simp add: take_bit_eq_mask mask_numeral)
  have "unat (take_bit 8 ?x) < 256"
    using take_bit_nat_less_exp [of 8 "unat ?x"] by (simp only: unsigned_take_bit_eq) simp
  then have "tegrabl_crc32_tab ! unat (take_bit 8 ?x) = crc32_byte (take_bit 8 ?x)"
    by (simp add: crc32_tab_nth)
  moreover have "drop_bit 8 ?x = drop_bit 8 c"
    by (rule bit_eqI) (auto simp: bit_simps dest: bit_imp_le_length)
  ultimately show ?thesis
    unfolding m by (simp add: crc32_byte_split [of ?x])
qed

lemma crc32_loop_foldl: "crc32_loop c bs = foldl (\<lambda>c b. crc32_byte (c XOR ucast b)) c bs"
  by (induction c bs rule: crc32_loop.induct) (simp_all only: crc32_loop.simps foldl.simps crc32_loop_step)

lemma crc32_loop_append: "crc32_loop c (xs @ ys) = crc32_loop (crc32_loop c xs) ys"
  by (simp add: crc32_loop_foldl)

text \<open>One bit of division is injective: the bit that is divided out reappears as the top bit.\<close>

lemma inj_crc32_bit: "inj crc32_bit"
proof (rule injI)
  fix x y assume e: "crc32_bit x = crc32_bit y"
  have top: "bit (crc32_bit z) 31 = bit z 0" for z
    by (auto simp: crc32_bit_def bit_simps dest: bit_imp_le_length)
  have b0: "bit x 0 = bit y 0" using e top by metis
  with e have d: "drop_bit 1 x = drop_bit 1 y"
    by (auto simp: crc32_bit_def split: if_splits)
  show "x = y"
  proof (rule bit_eqI)
    fix n show "bit x n = bit y n"
    proof (cases n)
      case 0 with b0 show ?thesis by simp
    next
      case (Suc m)
      then show ?thesis using arg_cong [OF d, of "\<lambda>w. bit w m"] by (simp add: bit_drop_bit_eq)
    qed
  qed
qed

lemma inj_crc32_byte: "inj crc32_byte"
proof -
  have "inj (crc32_bit ^^ n)" for n
  proof (induction n)
    case (Suc n)
    from inj_compose [OF inj_crc32_bit Suc] show ?case by (simp add: comp_def)
  qed simp
  then show ?thesis by (simp add: crc32_byte_def [abs_def])
qed

lemma crc32_byte_eq_iff: "crc32_byte x = crc32_byte y \<longleftrightarrow> x = y"
  using inj_crc32_byte by (auto dest: injD)

lemma crc32_loop_inj: "crc32_loop c xs = crc32_loop d xs \<longleftrightarrow> c = d"
  by (induction xs arbitrary: c d)
    (simp, simp only: crc32_loop.simps crc32_loop_step crc32_byte_eq_iff xor_cancel_right)

lemma crc32_loop_byte_inj: "crc32_loop c (b # xs) = crc32_loop c (b' # xs) \<longleftrightarrow> b = b'"
  by (simp only: crc32_loop.simps crc32_loop_step crc32_loop_inj crc32_byte_eq_iff xor_cancel_left
      ucast_u8_u32_eq)

text \<open>
  (C16) The table-driven CRC of \<^verbatim>\<open>tegrabl_utils_crc32\<close> equals bit-by-bit division by the reflected
  IEEE polynomial for every start value and every buffer; in particular the 256 constants of the
  table are right.
\<close>
theorem crc32_equals_reference: "tegrabl_utils_crc32 v buffer = crc32_reference v buffer"
  by (simp add: tegrabl_utils_crc32_def crc32_reference_def crc32_loop_foldl)

text \<open>
  The CRC can be computed in pieces: feeding the result for a first piece back as the start value
  of the next gives the CRC of the whole, which is what a reader that works in chunks relies on.
\<close>
theorem crc32_incremental:
  "tegrabl_utils_crc32 (tegrabl_utils_crc32 v xs) ys = tegrabl_utils_crc32 v (xs @ ys)"
  by (simp add: tegrabl_utils_crc32_def crc32_loop_append bit.xor_compl_right)

lemma crc32_one_byte:
  "tegrabl_utils_crc32 v (xs @ b # ys) = tegrabl_utils_crc32 v (xs @ b' # ys) \<longleftrightarrow> b = b'"
  by (simp only: tegrabl_utils_crc32_def crc32_loop_append crc32_loop_byte_inj xor_cancel_right)

lemma list_update_split: "i < length xs \<Longrightarrow> xs[i := b] = take i xs @ b # drop (Suc i) xs"
  by (simp add: upd_conv_take_nth_drop)

text \<open>
  (C27) Every corruption of one byte of a buffer, at any position and to any other value, changes its
  CRC-32: the checks that compare a stored with a computed CRC detect it.
\<close>
theorem crc32_detects_byte_corruption:
  assumes "i < length buffer" and "b \<noteq> buffer ! i"
  shows "tegrabl_utils_crc32 v (buffer[i := b]) \<noteq> tegrabl_utils_crc32 v buffer"
proof -
  have "tegrabl_utils_crc32 v buffer =
      tegrabl_utils_crc32 v (take i buffer @ buffer ! i # drop (Suc i) buffer)"
    using assms(1) by (intro arg_cong [where f = "tegrabl_utils_crc32 v"] id_take_nth_drop)
  then show ?thesis
    using assms(2) by (simp only: list_update_split [OF assms(1)] crc32_one_byte) simp
qed

theorem crc32_detects_byte_corruption_witness:
  "tegrabl_utils_crc32 0 ([1, 2, 3][1 := 7]) \<noteq> tegrabl_utils_crc32 0 [1, 2, 3]"
  by (rule crc32_detects_byte_corruption) simp_all


section \<open>Checksum, CRC-8 and the binary rendering of a byte\<close>

fun tegrabl_utils_checksum :: "bytes \<Rightarrow> u32" where
  "tegrabl_utils_checksum buffer = foldl (\<lambda>checksum b. checksum + ucast b) 0 buffer"

text \<open>The inner \<open>for\<close> loop of \<^verbatim>\<open>tegrabl_utils_crc8\<close>: \<open>i\<close> counts the iterations that are left.\<close>

fun crc8_bits :: "nat \<Rightarrow> u8 \<Rightarrow> u8 \<Rightarrow> u8" where
  "crc8_bits 0 t crc8 = crc8"
| "crc8_bits (Suc i) t crc8 =
     (let is_odd = ((t XOR crc8) AND 1 = 1);
          crc8' = drop_bit 1 crc8;
          t' = drop_bit 1 t
      in crc8_bits i t' (if is_odd then crc8' XOR 0x8c else crc8'))"

fun crc8_loop :: "u8 \<Rightarrow> bytes \<Rightarrow> u8" where
  "crc8_loop crc8 [] = crc8"
| "crc8_loop crc8 (b # bs) = crc8_loop (crc8_bits 8 b crc8) bs"

definition tegrabl_utils_crc8 :: "bytes \<Rightarrow> u8" where
  "tegrabl_utils_crc8 buffer = crc8_loop 0 buffer"

fun convert_to_binary_loop :: "nat \<Rightarrow> u8 \<Rightarrow> u32 \<Rightarrow> u32" where
  "convert_to_binary_loop 0 byte_value byte_num = byte_num"
| "convert_to_binary_loop (Suc i) byte_value byte_num =
     (let bit_value = byte_value AND push_bit i 1;
          bit_value' = drop_bit i bit_value
      in convert_to_binary_loop i byte_value (byte_num * 10 + ucast bit_value'))"

definition tegrabl_utils_convert_to_binary :: "u8 \<Rightarrow> u32" where
  "tegrabl_utils_convert_to_binary byte_value = convert_to_binary_loop 8 byte_value 0"

lemma crc8_loop_append: "crc8_loop c (xs @ ys) = crc8_loop (crc8_loop c xs) ys"
  by (induction c xs rule: crc8_loop.induct) simp_all

lemma crc8_bits_self: "crc8_bits n c c = drop_bit n c"
  by (induction n arbitrary: c) (simp_all add: Let_def)

text \<open>
  A buffer followed by its own CRC-8 has CRC-8 zero, the residue property that record readers use.
\<close>
theorem crc8_residue: "tegrabl_utils_crc8 (xs @ [tegrabl_utils_crc8 xs]) = 0"
proof -
  have "crc8_bits 8 c c = 0" for c
    unfolding crc8_bits_self by (rule bit_eqI) (auto simp: bit_simps dest: bit_imp_le_length)
  then show ?thesis
    by (simp add: tegrabl_utils_crc8_def crc8_loop_append)
qed

lemma checksum_foldl_add:
  "foldl (\<lambda>checksum b. checksum + ucast (b :: u8)) (c :: u32) xs = c + of_nat (sum_list (map unat xs))"
proof (induction xs arbitrary: c)
  case (Cons b xs)
  have "(ucast b :: u32) = of_nat (unat b)"
    by (simp only: of_nat_unat)
  with Cons show ?case by (simp add: add.assoc)
qed simp

end
