(* ===== verification/Cboot_Mem.thy ===== *)
theory Cboot_Mem
  imports Cboot_Prelude
begin

text \<open>
  Byte-addressed memory: loads and stores of byte sequences at 64-bit addresses, and the two region
  operations (copying and filling) that the word-wise routines of \<^verbatim>\<open>lib/clib/string.c\<close> implement. Offsets are
  word differences, so the laws need no assumption that a region does not wrap around.
\<close>

section \<open>Byte memory\<close>

type_synonym mem = "u64 \<Rightarrow> u8"

definition load_bytes :: "mem \<Rightarrow> u64 \<Rightarrow> nat \<Rightarrow> bytes" where
  "load_bytes m p n = map (\<lambda>i. m (p + of_nat i)) [0..<n]"

definition store_bytes :: "mem \<Rightarrow> u64 \<Rightarrow> bytes \<Rightarrow> mem" where
  "store_bytes m p bs = (\<lambda>a. if unat (a - p) < length bs then bs ! unat (a - p) else m a)"

lemma length_load_bytes [simp]: "length (load_bytes m p n) = n"
  by (simp add: load_bytes_def)

lemma nth_load_bytes [simp]: "i < n \<Longrightarrow> load_bytes m p n ! i = m (p + of_nat i)"
  by (simp add: load_bytes_def)

lemma load_store_bytes:
  "length bs \<le> 2 ^ 64 \<Longrightarrow> load_bytes (store_bytes m p bs) p (length bs) = bs"
  by (rule nth_equalityI) (simp_all add: store_bytes_def)

definition copied :: "u64 \<Rightarrow> u64 \<Rightarrow> nat \<Rightarrow> mem \<Rightarrow> mem" where
  "copied d s n m = store_bytes m d (load_bytes m s n)"

lemma copied_apply: "copied d s n m a = (if unat (a - d) < n then m (s + (a - d)) else m a)"
  by (simp add: copied_def store_bytes_def)

lemma copied_0 [simp]: "copied d s 0 m = m"
  by (rule ext) (simp add: copied_apply)

lemma copied_same [simp]: "copied d d n m = m"
  by (rule ext) (simp add: copied_apply)

text \<open>Copying upwards is safe when the destination does not start inside the source.\<close>

lemma copied_append:
  assumes "d = s \<or> a + b \<le> unat (d - s)"
  shows "copied (d + of_nat a) (s + of_nat a) b (copied d s a m) = copied d s (a + b) m"
proof (cases "d = s")
  case False
  with assms have ab: "a + b \<le> unat (d - s)" by simp
  have lt: "a + b < 2 ^ 64" using ab unat_lt64 [of "d - s"] by simp
  show ?thesis
  proof (rule ext)
    fix x
    define y where "y = x - d"
    have e1: "x - (d + of_nat a) = y - of_nat a" by (simp add: y_def algebra_simps)
    have e2: "s + of_nat a + (y - of_nat a) = s + y" by simp
    have e3: "s + y - d = y - (d - s)" by (simp add: algebra_simps)
    consider "unat y < a" | "a \<le> unat y" "unat y < a + b" | "a + b \<le> unat y" by linarith
    then show "copied (d + of_nat a) (s + of_nat a) b (copied d s a m) x = copied d s (a + b) m x"
    proof cases
      case 1
      with lt have "unat (y - of_nat a) = 2 ^ 64 + unat y - a" by (intro unat_sub_of_nat_small) auto
      then have "\<not> unat (y - of_nat a) < b" using 1 lt by linarith
      with 1 show ?thesis by (simp add: copied_apply e1 flip: y_def)
    next
      case 2
      have "unat (s + y - d) = 2 ^ 64 + unat y - unat (d - s)"
        unfolding e3 using unat_sub_of_nat_small [of y "unat (d - s)"] 2 ab unat_lt64 [of "d - s"] by simp
      then have "\<not> unat (s + y - d) < a" "unat y - a < b"
        using 2 unat_lt64 [of "d - s"] by linarith+
      with 2 show ?thesis
        by (simp add: copied_apply e1 e2 unat_sub_of_nat flip: y_def)
    next
      case 3
      then have "\<not> unat y - a < b" by linarith
      with 3 show ?thesis by (simp add: copied_apply e1 unat_sub_of_nat flip: y_def)
    qed
  qed
qed simp

text \<open>Copying the upper part first is safe when the source does not start inside the destination.\<close>

lemma copied_prepend:
  assumes "d = s \<or> a + b \<le> unat (s - d)"
  shows "copied d s a (copied (d + of_nat a) (s + of_nat a) b m) = copied d s (a + b) m"
proof (cases "d = s")
  case False
  with assms have ab: "a + b \<le> unat (s - d)" by simp
  have lt: "a + b < 2 ^ 64" using ab unat_lt64 [of "s - d"] by simp
  show ?thesis
  proof (rule ext)
    fix x
    define y where "y = x - d"
    have e1: "x - (d + of_nat a) = y - of_nat a" by (simp add: y_def algebra_simps)
    have e2: "s + of_nat a + (y - of_nat a) = s + y" by simp
    have e3: "s + y - (d + of_nat a) = (s - d) - of_nat (a - unat y)" if "unat y < a"
      using that by (simp add: of_nat_diff algebra_simps)
    consider "unat y < a" | "a \<le> unat y" "unat y < a + b" | "a + b \<le> unat y" by linarith
    then show "copied d s a (copied (d + of_nat a) (s + of_nat a) b m) x = copied d s (a + b) m x"
    proof cases
      case 1
      have "unat (s - d - of_nat (a - unat y)) = unat (s - d) - (a - unat y)"
        by (rule unat_sub_of_nat) (use ab in linarith)
      then have "\<not> unat (s + y - (d + of_nat a)) < b" using 1 ab by (simp add: e3)
      with 1 show ?thesis by (simp add: copied_apply flip: y_def)
    next
      case 2
      then have "unat y - a < b" by linarith
      with 2 show ?thesis by (simp add: copied_apply e1 e2 unat_sub_of_nat flip: y_def)
    next
      case 3
      then have "\<not> unat y - a < b" by linarith
      with 3 show ?thesis by (simp add: copied_apply e1 unat_sub_of_nat flip: y_def)
    qed
  qed
qed simp

definition filled :: "u64 \<Rightarrow> u8 \<Rightarrow> nat \<Rightarrow> mem \<Rightarrow> mem" where
  "filled d c n m = store_bytes m d (replicate n c)"

lemma filled_apply: "filled d c n m a = (if unat (a - d) < n then c else m a)"
  by (simp add: filled_def store_bytes_def)

lemma filled_append:
  assumes "a + b < 2 ^ 64"
  shows "filled (d + of_nat a) c b (filled d c a m) = filled d c (a + b) m"
proof (rule ext)
  fix x
  define y where "y = x - d"
  have e1: "x - (d + of_nat a) = y - of_nat a" by (simp add: y_def algebra_simps)
  show "filled (d + of_nat a) c b (filled d c a m) x = filled d c (a + b) m x"
  proof (cases "unat y < a")
    case True
    then show ?thesis by (simp add: filled_apply e1 flip: y_def)
  next
    case False
    then have "unat (y - of_nat a) = unat y - a" by (intro unat_sub_of_nat) simp
    with False show ?thesis by (simp add: filled_apply e1 flip: y_def) linarith
  qed
qed

end
