(* ===== verification/Cboot_Memops.thy ===== *)
theory Cboot_Memops
  imports Cboot_Mem
begin

text \<open>
  The memory routines of \<^verbatim>\<open>lib/clib/string.c\<close> (\<open>memset\<close>, \<open>memcpy\<close>, \<open>rmemcpy\<close>, \<open>memmove\<close>, \<open>memcmp\<close>, \<open>memchr\<close>) over
  \<open>Cboot_Mem\<close>, with the source's byte, word and copy-engine paths, and the theorems that each of them is the
  plain region operation it optimises.
\<close>

section \<open>memset, memcpy and memmove\<close>

text \<open>
  The optional hardware copy engine (\<^verbatim>\<open>tegrabl_clib_dma_register\<close>): a callback reports with its first
  result whether the work is still to be done by the processor (non-zero, here \<^term>\<open>True\<close>).
\<close>

record clib_dma =
  memcpy_callback :: "(u64 \<Rightarrow> u64 \<Rightarrow> u64 \<Rightarrow> mem \<Rightarrow> bool \<times> mem) option"
  memcpy_threshold :: u64
  memset_callback :: "(u64 \<Rightarrow> u32 \<Rightarrow> u64 \<Rightarrow> mem \<Rightarrow> bool \<times> mem) option"
  memset_threshold :: u64

definition tegrabl_clib_dma_register :: "clib_dma option \<Rightarrow> clib_dma \<Rightarrow> clib_dma" where
  "tegrabl_clib_dma_register dma_info st =
     (case dma_info of None \<Rightarrow> st
      | Some i \<Rightarrow> st\<lparr>memcpy_callback := memcpy_callback i, memcpy_threshold := memcpy_threshold i,
                      memset_callback := memset_callback i, memset_threshold := memset_threshold i\<rparr>)"

fun set_bytes :: "nat \<Rightarrow> u64 \<Rightarrow> u8 \<Rightarrow> mem \<Rightarrow> mem" where
  "set_bytes 0 xs c m = m"
| "set_bytes (Suc len) xs c m = set_bytes len (xs + 1) c (m(xs := c))"

fun set_words :: "nat \<Rightarrow> u64 \<Rightarrow> u64 \<Rightarrow> mem \<Rightarrow> mem" where
  "set_words 0 xs cc m = m"
| "set_words (Suc len) xs cc m = set_words len (xs + 8) cc (store_bytes m xs (le_bytes 8 cc))"

fun copy_bytes :: "nat \<Rightarrow> u64 \<Rightarrow> u64 \<Rightarrow> mem \<Rightarrow> mem" where
  "copy_bytes 0 d s m = m"
| "copy_bytes (Suc len) d s m = copy_bytes len (d + 1) (s + 1) (m(d := m s))"

fun copy_words :: "nat \<Rightarrow> u64 \<Rightarrow> u64 \<Rightarrow> mem \<Rightarrow> mem" where
  "copy_words 0 d s m = m"
| "copy_words (Suc len) d s m =
     copy_words len (d + 8) (s + 8) (store_bytes m d (le_bytes 8 (le_word (load_bytes m s 8) :: u64)))"

fun rcopy_bytes :: "nat \<Rightarrow> u64 \<Rightarrow> u64 \<Rightarrow> mem \<Rightarrow> mem" where
  "rcopy_bytes 0 d s m = m"
| "rcopy_bytes (Suc len) d s m = rcopy_bytes len (d - 1) (s - 1) (m(d - 1 := m (s - 1)))"

fun rcopy_words :: "nat \<Rightarrow> u64 \<Rightarrow> u64 \<Rightarrow> mem \<Rightarrow> mem" where
  "rcopy_words 0 d s m = m"
| "rcopy_words (Suc len) d s m =
     rcopy_words len (d - 8) (s - 8)
       (store_bytes m (d - 8) (le_bytes 8 (le_word (load_bytes m (s - 8) 8) :: u64)))"

definition memset_word :: "u32 \<Rightarrow> u64" where
  "memset_word c =
     (let cc0 = ucast (c AND 0xff);
          cc1 = cc0 OR push_bit 8 cc0;
          cc2 = cc1 OR push_bit 16 cc1
      in cc2 OR push_bit 32 cc2)"

definition memset_words :: "clib_dma \<Rightarrow> u64 \<Rightarrow> u32 \<Rightarrow> u64 \<Rightarrow> mem \<Rightarrow> mem" where
  "memset_words dma xs c len m =
     (let (not_done, m') =
        (case memset_callback dma of
           Some cb \<Rightarrow> if len * 8 \<ge> memset_threshold dma then cb xs c (len * 8) m else (True, m)
         | None \<Rightarrow> (True, m))
      in if not_done then set_words (unat len) xs (memset_word c) m' else m')"

definition memset :: "clib_dma \<Rightarrow> u64 \<Rightarrow> u32 \<Rightarrow> u64 \<Rightarrow> mem \<Rightarrow> u64 \<times> mem" where
  "memset dma s c n m =
     (let ch = (ucast c :: u8);
          len = (- s) AND 7;
          (xs, n', m') =
            (if n > len then
               let n1 = n - len;
                   m1 = set_bytes (unat len) s ch m;
                   xs1 = s + len;
                   len1 = n1 div 8;
                   m2 = memset_words dma xs1 c len1 m1
               in (xs1 + len1 * 8, n1 AND 7, m2)
             else (s, n, m))
      in (s, set_bytes (unat n') xs ch m'))"

definition memcpy_words :: "clib_dma \<Rightarrow> u64 \<Rightarrow> u64 \<Rightarrow> u64 \<Rightarrow> mem \<Rightarrow> mem" where
  "memcpy_words dma d s len m =
     (let (not_done, m') =
        (case memcpy_callback dma of
           Some cb \<Rightarrow> if len * 8 \<ge> memcpy_threshold dma then cb d s (len * 8) m else (True, m)
         | None \<Rightarrow> (True, m))
      in if not_done then copy_words (unat len) d s m' else m')"

definition memcpy :: "clib_dma \<Rightarrow> u64 \<Rightarrow> u64 \<Rightarrow> u64 \<Rightarrow> mem \<Rightarrow> u64 \<times> mem" where
  "memcpy dma dest src n m =
     (if n = 0 \<or> dest = src then (dest, m)
      else if src = 0 \<or> dest = 0 then (0, m)
      else
        let len = (if (dest OR src) AND 7 \<noteq> 0
                   then (if (dest XOR src) AND 7 \<noteq> 0 \<or> n < 8 then n else 8 - (dest AND 7))
                   else 0);
            n1 = n - len;
            m1 = copy_bytes (unat len) dest src m;
            d1 = dest + len; s1 = src + len;
            len1 = n1 div 8;
            m2 = memcpy_words dma d1 s1 len1 m1;
            d2 = d1 + len1 * 8; s2 = s1 + len1 * 8
        in (dest, copy_bytes (unat (n1 AND 7)) d2 s2 m2))"

text \<open>The downward copy keeps its counters in 32 bits, as the code does.\<close>

definition rmemcpy :: "u64 \<Rightarrow> u64 \<Rightarrow> u64 \<Rightarrow> mem \<Rightarrow> u64 \<times> mem" where
  "rmemcpy dest src n m =
     (if n = 0 \<or> dest = src then (dest, m)
      else if src = 0 \<or> dest = 0 then (0, m)
      else
        let d = dest + n; s = src + n;
            len = (if (d OR s) AND 7 \<noteq> 0
                   then (if (d XOR s) AND 7 \<noteq> 0 \<or> n < 8 then ucast n else ucast (d AND 7))
                   else 0 :: u32);
            n1 = n - ucast len;
            m1 = rcopy_bytes (unat len) d s m;
            d1 = d - ucast len; s1 = s - ucast len;
            len1 = (ucast (n1 div 8) :: u32);
            m2 = rcopy_words (unat len1) d1 s1 m1;
            d2 = d1 - ucast len1 * 8; s2 = s1 - ucast len1 * 8
        in (dest, rcopy_bytes (unat (ucast (n1 AND 7) :: u32)) d2 s2 m2))"

definition memmove :: "clib_dma \<Rightarrow> u64 \<Rightarrow> u64 \<Rightarrow> u64 \<Rightarrow> mem \<Rightarrow> u64 \<times> mem" where
  "memmove dma dest src n m =
     (if dest = 0 \<or> src = 0 then (0, m)
      else if dest = src then (dest, m)
      else if dest < src \<or> dest > src + n then memcpy dma dest src n m
      else rmemcpy dest src n m)"

definition dma_copy_ok :: "clib_dma \<Rightarrow> bool" where
  "dma_copy_ok dma \<longleftrightarrow>
     (case memcpy_callback dma of None \<Rightarrow> True
      | Some cb \<Rightarrow> \<forall>d s n m. cb d s n m = (False, copied d s (unat n) m) \<or> cb d s n m = (True, m))"

lemma fun_upd_copied: "m(d := m s) = copied d s 1 m"
  by (rule ext) (auto simp: copied_apply unat_eq_zero)

lemma word_copied:
  "store_bytes m d (le_bytes 8 (le_word (load_bytes m s 8) :: u64)) = copied d s 8 m"
  using le_bytes_le_word [of "load_bytes m s 8", where 'a = 64] by (simp add: copied_def)

lemma copy_bytes_copied:
  "d = s \<or> n \<le> unat (d - s) \<Longrightarrow> copy_bytes n d s m = copied d s n m"
proof (induction n arbitrary: d s m)
  case (Suc n)
  then have "copy_bytes (Suc n) d s m = copied (d + 1) (s + 1) n (copied d s 1 m)"
    by (auto simp: fun_upd_copied)
  also have "\<dots> = copied d s (1 + n) m"
    using copied_append [of d s 1 n m] Suc.prems by auto
  finally show ?case by simp
qed simp

lemma copy_words_copied:
  "d = s \<or> 8 * n \<le> unat (d - s) \<Longrightarrow> copy_words n d s m = copied d s (8 * n) m"
proof (induction n arbitrary: d s m)
  case (Suc n)
  then have "copy_words (Suc n) d s m = copied (d + 8) (s + 8) (8 * n) (copied d s 8 m)"
    by (auto simp: word_copied)
  also have "\<dots> = copied d s (8 + 8 * n) m"
    using copied_append [of d s 8 "8 * n" m] Suc.prems by auto
  finally show ?case by simp
qed simp

lemma rcopy_bytes_copied:
  "d = s \<or> n \<le> unat (s - d) \<Longrightarrow>
     rcopy_bytes n (d + of_nat n) (s + of_nat n) m = copied d s n m"
proof (induction n arbitrary: m)
  case (Suc n)
  then have "rcopy_bytes (Suc n) (d + of_nat (Suc n)) (s + of_nat (Suc n)) m =
     copied d s n (copied (d + of_nat n) (s + of_nat n) 1 m)"
    by (auto simp: fun_upd_copied)
  also have "\<dots> = copied d s (n + 1) m"
    using copied_prepend [of d s n 1 m] Suc.prems by auto
  finally show ?case by simp
qed simp

lemma rcopy_words_copied:
  "d = s \<or> 8 * n \<le> unat (s - d) \<Longrightarrow>
     rcopy_words n (d + of_nat (8 * n)) (s + of_nat (8 * n)) m = copied d s (8 * n) m"
proof (induction n arbitrary: m)
  case (Suc n)
  have "x + of_nat (8 * Suc n) - 8 = x + (of_nat (8 * n) :: u64)" for x by simp
  with Suc have "rcopy_words (Suc n) (d + of_nat (8 * Suc n)) (s + of_nat (8 * Suc n)) m =
     copied d s (8 * n) (copied (d + of_nat (8 * n)) (s + of_nat (8 * n)) 8 m)"
    by (auto simp: word_copied simp del: of_nat_mult)
  also have "\<dots> = copied d s (8 * n + 8) m"
    using copied_prepend [of d s "8 * n" 8 m] Suc.prems by auto
  finally show ?case by (simp add: add.commute)
qed simp

lemma memcpy_words_copied:
  assumes "dma_copy_ok dma" "d = s \<or> unat len * 8 \<le> unat (d - s)" "unat len * 8 < 2 ^ 64"
  shows "memcpy_words dma d s len m = copied d s (unat len * 8) m"
proof -
  have w: "copy_words (unat len) d s m = copied d s (unat len * 8) m"
    using copy_words_copied [of d s "unat len" m] assms(2) by (simp add: mult.commute)
  have u: "unat (len * 8) = unat len * 8" using assms(3) by (simp add: unat_word_ariths)
  show ?thesis
  proof (cases "memcpy_callback dma")
    case (Some cb)
    then consider "cb d s (len * 8) m = (False, copied d s (unat (len * 8)) m)" | "cb d s (len * 8) m = (True, m)"
      using assms(1) by (auto simp: dma_copy_ok_def)
    then show ?thesis by cases (simp_all add: memcpy_words_def Some w u)
  qed (simp add: memcpy_words_def w)
qed

text \<open>Copying a head, a run of words and a tail, from consecutive addresses, copies the whole.\<close>

lemma copied_three:
  assumes "d = s \<or> unat len + unat n1 \<le> unat (d - s)" "dma_copy_ok dma"
  shows "copy_bytes (unat (n1 AND 7)) (d + len + n1 div 8 * 8) (s + len + n1 div 8 * 8)
           (memcpy_words dma (d + len) (s + len) (n1 div 8) (copy_bytes (unat len) d s m)) =
         copied d s (unat len + unat n1) m"
proof -
  define k where "k = unat n1 div 8 * 8"
  have k: "unat n1 = k + unat n1 mod 8" by (simp add: k_def)
  have eq: "d + len - (s + len) = d - s" "d + len + j - (s + len + j) = d - s" for j
    by (simp_all add: algebra_simps)
  have b: "d = s \<or> unat len \<le> unat (d - s)" "d = s \<or> unat len + k \<le> unat (d - s)"
    "d = s \<or> k \<le> unat (d - s)" "d = s \<or> unat n1 mod 8 \<le> unat (d - s)"
    using assms(1) k by linarith+
  have "copy_bytes (unat len) d s m = copied d s (unat len) m"
    by (rule copy_bytes_copied) (rule b)
  moreover have "memcpy_words dma (d + len) (s + len) (n1 div 8) (copied d s (unat len) m)
     = copied d s (unat len + k) m"
    using memcpy_words_copied [OF assms(2), of "d + len" "s + len" "n1 div 8"]
      copied_append [OF b(2), of m] b(3) unat_lt64 [of n1]
    by (simp add: unat_div_8 eq k_def)
  moreover have "copy_bytes (unat (n1 AND 7)) (d + len + n1 div 8 * 8) (s + len + n1 div 8 * 8) m'
     = copied (d + of_nat (unat len + k)) (s + of_nat (unat len + k)) (unat n1 mod 8) m'" for m'
    using copy_bytes_copied [of "d + len + of_nat k" "s + len + of_nat k"] b(4) eq(2) [of "of_nat k"]
    by (simp add: unat_and_7 add.assoc flip: of_nat_div_8_mult k_def)
  ultimately show ?thesis
    using copied_append [of d s "unat len + k" "unat n1 mod 8" m] assms(1) k by (simp add: add.assoc)
qed

lemma memcpy_copied:
  assumes "dest \<noteq> 0" "src \<noteq> 0" "dest = src \<or> unat n \<le> unat (dest - src)" "dma_copy_ok dma"
  shows "memcpy dma dest src n m = (dest, copied dest src (unat n) m)"
proof (cases "n = 0 \<or> dest = src")
  case False
  define len where "len = (if (dest OR src) AND 7 \<noteq> 0
                   then (if (dest XOR src) AND 7 \<noteq> 0 \<or> n < 8 then n else 8 - (dest AND 7))
                   else 0)"
  have "unat (8 - (dest AND 7)) = 8 - unat dest mod 8"
    by (subst unat_sub) (simp_all add: unat_and_7 word_le_nat_alt)
  then have le: "unat len \<le> unat n" by (auto simp: len_def word_less_nat_alt)
  then have "unat len + unat (n - len) = unat n" by (simp add: unat_sub word_le_nat_alt)
  then show ?thesis
    using False assms(1,2) copied_three [of dest src len "n - len" dma m, OF _ assms(4)] assms(3)
    by (simp add: memcpy_def Let_def len_def [symmetric])
qed (use assms in \<open>auto simp: memcpy_def\<close>)

lemma rcopied_three:
  assumes "d = s \<or> r + (8 * k + l) \<le> unat (s - d)"
  shows "rcopy_bytes r (d + of_nat r) (s + of_nat r)
           (rcopy_words k (d + of_nat r + of_nat (8 * k)) (s + of_nat r + of_nat (8 * k))
             (rcopy_bytes l (d + of_nat r + of_nat (8 * k) + of_nat l) (s + of_nat r + of_nat (8 * k) + of_nat l) m)) =
         copied d s (r + (8 * k + l)) m"
proof -
  have eq: "(s + of_nat r) - (d + of_nat r) = s - d"
    "(s + of_nat r + of_nat (8 * k)) - (d + of_nat r + of_nat (8 * k)) = s - d"
    by (simp_all add: algebra_simps)
  have b: "d = s \<or> l \<le> unat (s - d)" "d = s \<or> 8 * k \<le> unat (s - d)" "d = s \<or> r \<le> unat (s - d)"
     "d = s \<or> 8 * k + l \<le> unat (s - d)"
    using assms by linarith+
  have "rcopy_bytes l (d + of_nat r + of_nat (8 * k) + of_nat l) (s + of_nat r + of_nat (8 * k) + of_nat l) m =
     copied (d + of_nat r + of_nat (8 * k)) (s + of_nat r + of_nat (8 * k)) l m"
    by (rule rcopy_bytes_copied) (use b(1) eq in auto)
  moreover have "rcopy_words k (d + of_nat r + of_nat (8 * k)) (s + of_nat r + of_nat (8 * k)) m' =
     copied (d + of_nat r) (s + of_nat r) (8 * k) m'" for m'
    by (rule rcopy_words_copied) (use b(2) eq in auto)
  moreover have "rcopy_bytes r (d + of_nat r) (s + of_nat r) m' = copied d s r m'" for m'
    by (rule rcopy_bytes_copied) (rule b)
  moreover have "copied (d + of_nat r) (s + of_nat r) (8 * k)
      (copied (d + of_nat r + of_nat (8 * k)) (s + of_nat r + of_nat (8 * k)) l m) =
     copied (d + of_nat r) (s + of_nat r) (8 * k + l) m"
    by (rule copied_prepend) (use b(4) eq in auto)
  ultimately show ?thesis using copied_prepend [OF assms] by simp
qed

lemma rmemcpy_copied:
  assumes "dest \<noteq> 0" "src \<noteq> 0" "dest = src \<or> unat n \<le> unat (src - dest)" "unat n < 2 ^ 32"
  shows "rmemcpy dest src n m = (dest, copied dest src (unat n) m)"
proof (cases "n = 0 \<or> dest = src")
  case False
  define d s where "d = dest + n" and "s = src + n"
  define len where "len = (if (d OR s) AND 7 \<noteq> 0
                   then (if (d XOR s) AND 7 \<noteq> 0 \<or> n < 8 then n else d AND 7) else 0)"
  have le: "unat len \<le> unat n"
    by (auto simp: len_def unat_and_7 word_less_nat_alt intro: order_trans [of _ 8] less_imp_le)
  have lt: "unat len < 2 ^ 32" using le assms(4) by linarith
  have len32: "(if (d OR s) AND 7 \<noteq> 0
                   then (if (d XOR s) AND 7 \<noteq> 0 \<or> n < 8 then ucast n else ucast (d AND 7))
                   else 0 :: u32) = ucast len"
    by (simp add: len_def)
  define n1 where "n1 = n - len"
  have n1: "unat n = unat len + unat n1" using le by (simp add: n1_def unat_sub word_le_nat_alt)
  define r k where "r = unat n1 mod 8" and "k = unat n1 div 8"
  have rk: "unat n = r + (8 * k + unat len)" using n1 by (simp add: r_def k_def)
  have n1k: "n1 div 8 = of_nat k" by (simp add: k_def unat_div_8 word_unat_eq_iff) (use unat_lt64 [of n1] in simp)
  have n1w: "n1 = of_nat r + of_nat (8 * k)"
  proof -
    have "n1 = of_nat (unat n1)" by simp
    also have "unat n1 = r + 8 * k" by (simp add: r_def k_def)
    finally show ?thesis by (simp only: of_nat_add)
  qed
  have ds: "d = dest + of_nat r + of_nat (8 * k) + len" "s = src + of_nat r + of_nat (8 * k) + len"
    using n1w by (simp_all add: d_def s_def n1_def algebra_simps)
  have small: "unat (n1 div 8) < 2 ^ 32" "unat (n1 AND 7) < 2 ^ 32"
    using n1 assms(4) by (simp_all add: unat_div_8 unat_and_7 div_le_dividend [THEN le_less_trans])
  have c: "ucast (ucast (n1 div 8) :: u32) = (of_nat k :: u64)" "unat (ucast (n1 div 8) :: u32) = k"
    "unat (ucast (n1 AND 7) :: u32) = r"
    unfolding ucast_ucast_u32 [OF small(1)] unat_ucast_u32 [OF small(1)] unat_ucast_u32 [OF small(2)]
    by (rule n1k, simp_all only: unat_div_8 unat_and_7 k_def r_def)
  have "rmemcpy dest src n m = (dest, rcopy_bytes r (dest + of_nat r) (src + of_nat r)
     (rcopy_words k (dest + of_nat r + of_nat (8 * k)) (src + of_nat r + of_nat (8 * k))
       (rcopy_bytes (unat len) (dest + of_nat r + of_nat (8 * k) + len) (src + of_nat r + of_nat (8 * k) + len) m)))"
    using False assms(1,2)
    unfolding rmemcpy_def Let_def d_def [symmetric] s_def [symmetric] len32
    by (simp add: ucast_ucast_u32 [OF lt] unat_ucast_u32 [OF lt] c n1_def [symmetric] ds)
  then show ?thesis
    using rcopied_three [of dest src r k "unat len" m] assms(3) by (simp add: rk)
qed (use assms in \<open>auto simp: rmemcpy_def\<close>)



lemma set_bytes_filled: "n < 2 ^ 64 \<Longrightarrow> set_bytes n d c m = filled d c n m"
proof (induction n arbitrary: d m)
  case (Suc n)
  have "m(d := c) = filled d c 1 m" by (rule ext) (auto simp: filled_apply unat_eq_zero)
  with Suc show ?case using filled_append [of 1 n d c m] by simp
qed (simp add: filled_def store_bytes_def)

lemma memset_word_le_word: "memset_word c = le_word (replicate 8 (ucast c))"
proof -
  define b where "b = (ucast c :: u8)"
  define cc1 cc2 where "cc1 = (le_word [b, b] :: u64)" and "cc2 = (le_word [b, b, b, b] :: u64)"
  have "ucast (c AND 0xff) = (ucast b :: u64)"
    unfolding FF_mask b_def by (rule bit_eqI) (auto simp: bit_simps dest: bit_imp_le_length)
  moreover have "ucast b OR push_bit 8 (ucast b) = cc1" by (simp add: cc1_def)
  moreover have "cc1 OR push_bit 16 cc1 = cc2"
    using le_word_append [of "[b, b]" "[b, b]", where 'a = 64] by (simp only: cc1_def cc2_def) simp
  moreover have "cc2 OR push_bit 32 cc2 = le_word (replicate 8 b)"
    using le_word_append [of "[b, b, b, b]" "[b, b, b, b]", where 'a = 64]
    by (simp only: cc2_def) (simp add: numeral_eq_Suc del: le_word.simps push_bit_Suc)
  ultimately show ?thesis
    by (simp only: memset_word_def Let_def b_def)
qed

lemma set_words_filled:
  "8 * n < 2 ^ 64 \<Longrightarrow> set_words n d (memset_word c) m = filled d (ucast c) (8 * n) m"
proof (induction n arbitrary: d m)
  case (Suc n)
  have "le_bytes 8 (memset_word c) = replicate 8 (ucast c)"
    using le_bytes_le_word [of "replicate 8 (ucast c)", where 'a = 64] by (simp only: memset_word_le_word) simp
  then have "set_words (Suc n) d (memset_word c) m = filled (d + of_nat 8) (ucast c) (8 * n) (filled d (ucast c) 8 m)"
    using Suc by (simp add: filled_def [of d])
  also have "\<dots> = filled d (ucast c) (8 + 8 * n) m"
    using Suc.prems by (intro filled_append) simp
  finally show ?case by simp
qed (simp add: filled_def store_bytes_def)

definition dma_set_ok :: "clib_dma \<Rightarrow> bool" where
  "dma_set_ok dma \<longleftrightarrow>
     (case memset_callback dma of None \<Rightarrow> True
      | Some cb \<Rightarrow> \<forall>d c n m. cb d c n m = (False, store_bytes m d (replicate (unat n) (ucast c))) \<or>
                             cb d c n m = (True, m))"

lemma memset_words_filled:
  assumes "dma_set_ok dma" "unat len * 8 < 2 ^ 64"
  shows "memset_words dma d c len m = filled d (ucast c) (unat len * 8) m"
proof -
  have w: "set_words (unat len) d (memset_word c) m = filled d (ucast c) (unat len * 8) m"
    using set_words_filled [of "unat len" d c m] assms(2) by (simp add: mult.commute)
  have u: "unat (len * 8) = unat len * 8" using assms(2) by (simp add: unat_word_ariths)
  show ?thesis
  proof (cases "memset_callback dma")
    case (Some cb)
    then consider "cb d c (len * 8) m = (False, filled d (ucast c) (unat (len * 8)) m)"
      | "cb d c (len * 8) m = (True, m)"
      using assms(1) by (auto simp: dma_set_ok_def filled_def)
    then show ?thesis by cases (simp_all add: memset_words_def Some w u)
  qed (simp add: memset_words_def w)
qed

lemma filled_three:
  assumes "unat len + unat n1 < 2 ^ 64" "dma_set_ok dma"
  shows "set_bytes (unat (n1 AND 7)) (d + len + n1 div 8 * 8) (ucast c)
           (memset_words dma (d + len) c (n1 div 8) (set_bytes (unat len) d (ucast c) m)) =
         filled d (ucast c) (unat len + unat n1) m"
proof -
  define k where "k = unat n1 div 8 * 8"
  have k: "unat n1 = k + unat n1 mod 8" by (simp add: k_def)
  have "set_bytes (unat len) d (ucast c) m = filled d (ucast c) (unat len) m"
    using unat_lt64 by (rule set_bytes_filled)
  moreover have "memset_words dma (d + len) c (n1 div 8) (filled d (ucast c) (unat len) m)
     = filled d (ucast c) (unat len + k) m"
    using memset_words_filled [OF assms(2), of "n1 div 8" "d + len"]
      filled_append [of "unat len" k d "ucast c" m] assms(1) k unat_lt64 [of n1]
    by (simp add: unat_div_8 k_def)
  moreover have "set_bytes (unat (n1 AND 7)) (d + len + n1 div 8 * 8) (ucast c) m'
     = filled (d + of_nat (unat len + k)) (ucast c) (unat n1 mod 8) m'" for m'
    using set_bytes_filled [of "unat n1 mod 8" "d + len + of_nat k" "ucast c" m']
    by (simp add: unat_and_7 add.assoc flip: of_nat_div_8_mult k_def)
  ultimately show ?thesis
    using filled_append [of "unat len + k" "unat n1 mod 8" d "ucast c" m] assms(1) k by (simp add: add.assoc)
qed

lemma memset_filled:
  assumes "dma_set_ok dma"
  shows "memset dma s c n m = (s, filled s (ucast c) (unat n) m)"
proof (cases "n > (- s) AND 7")
  case True
  then have le: "unat ((- s) AND 7) \<le> unat n" by (simp add: word_less_nat_alt)
  then have "unat ((- s) AND 7) + unat (n - ((- s) AND 7)) = unat n"
    by (simp add: unat_sub word_le_nat_alt)
  with True show ?thesis
    using filled_three [of "(- s) AND 7" "n - ((- s) AND 7)" dma s c m, OF _ assms] unat_lt64 [of n]
    by (simp add: memset_def Let_def)
next
  case False
  then show ?thesis
    using set_bytes_filled [OF unat_lt64, of n s "ucast c" m] by (simp add: memset_def Let_def)
qed

text \<open>
  (C29) \<open>memset\<close> stores the low byte of its argument in every byte of the region and nowhere else, for every
  alignment and length and with or without a copy engine.
\<close>
theorem memset_fills:
  assumes "dma_set_ok dma"
  shows "memset dma s c n m = (s, store_bytes m s (replicate (unat n) (ucast c)))"
  using memset_filled [OF assms] by (simp add: filled_def)

theorem memset_fills_witness:
  "load_bytes (snd (memset \<lparr>memcpy_callback = None, memcpy_threshold = 0, memset_callback = None, memset_threshold = 0\<rparr>
      0x1003 0x1AB 2 (\<lambda>a. 0))) 0x1002 4 = [0, 0xAB, 0xAB, 0]"
proof -
  have "memset \<lparr>memcpy_callback = None, memcpy_threshold = 0, memset_callback = None, memset_threshold = 0\<rparr>
      0x1003 0x1AB 2 (\<lambda>a. 0) = (0x1003, store_bytes (\<lambda>a. 0) 0x1003 (replicate (unat (2 :: u64)) (ucast (0x1AB :: u32))))"
    by (rule memset_fills) (simp add: dma_set_ok_def)
  then show ?thesis
    by (simp add: load_bytes_def store_bytes_def upt_rec unsigned_minus_1_eq_mask mask_eq_exp_minus_1)
qed

section \<open>memcmp and memchr\<close>

text \<open>
  The loop of \<^verbatim>\<open>memcmp\<close> repeats one guarded step four times per iteration; the model repeats it once.
\<close>

function memcmp_loop :: "mem \<Rightarrow> u64 \<Rightarrow> u64 \<Rightarrow> u64 \<Rightarrow> int \<Rightarrow> int" where
  "memcmp_loop m end1 p1 p2 d =
     (if d \<noteq> 0 \<or> p1 \<ge> end1 then d
      else memcmp_loop m end1 (p1 + 1) (p2 + 1) (uint (m p1) - uint (m p2)))"
  by auto
termination
proof (relation "measure (\<lambda>(m, end1, p1, p2, d). unat end1 - unat p1)", goal_cases)
  case (2 m end1 p1 p2 d)
  then have lt: "unat p1 < unat end1" by (simp add: word_less_nat_alt word_le_nat_alt)
  then have "unat (p1 + 1) = unat p1 + 1"
    using unat_add_of_nat [of p1 1] unat_lt64 [of end1] by simp
  with lt show ?case by simp
qed simp

declare memcmp_loop.simps [simp del]

definition memcmp :: "mem \<Rightarrow> u64 \<Rightarrow> u64 \<Rightarrow> u64 \<Rightarrow> int" where
  "memcmp m s1 s2 n = memcmp_loop m (s1 + n) s1 s2 0"

fun memchr_loop :: "mem \<Rightarrow> u64 \<Rightarrow> u8 \<Rightarrow> nat \<Rightarrow> u64 option" where
  "memchr_loop m p c 0 = None"
| "memchr_loop m p c (Suc n) = (if c = m p then Some (p + 1 - 1) else memchr_loop m (p + 1) c n)"

definition memchr :: "mem \<Rightarrow> u64 \<Rightarrow> u32 \<Rightarrow> u64 \<Rightarrow> u64 option" where
  "memchr m s c n = (if s = 0 then None else memchr_loop m s (ucast c) (unat n))"

text \<open>The difference of two byte strings at their first mismatch.\<close>

fun first_difference :: "bytes \<Rightarrow> bytes \<Rightarrow> int" where
  "first_difference (x # xs) (y # ys) = (if x = y then first_difference xs ys else uint x - uint y)"
| "first_difference _ _ = 0"

lemma load_bytes_Suc: "load_bytes m p (Suc n) = m p # load_bytes m (p + 1) n"
  by (simp add: load_bytes_def upt_conv_Cons map_Suc_upt [symmetric] add.assoc del: upt_Suc)

lemma memcmp_loop_difference:
  "unat p1 + n < 2 ^ 64 \<Longrightarrow>
     memcmp_loop m (p1 + of_nat n) p1 p2 0 = first_difference (load_bytes m p1 n) (load_bytes m p2 n)"
proof (induction n arbitrary: p1 p2)
  case 0
  then show ?case by (simp add: memcmp_loop.simps load_bytes_def)
next
  case (Suc n)
  have u: "unat (p1 + of_nat (Suc n)) = unat p1 + Suc n" by (rule unat_add_of_nat) (rule Suc.prems)
  have u1: "unat (p1 + 1) = unat p1 + 1" using unat_add_of_nat [of p1 1] Suc.prems by simp
  have e: "p1 + of_nat (Suc n) = p1 + 1 + of_nat n" by simp
  have "memcmp_loop m (p1 + of_nat (Suc n)) p1 p2 0 =
     memcmp_loop m (p1 + 1 + of_nat n) (p1 + 1) (p2 + 1) (uint (m p1) - uint (m p2))"
    using u by (subst memcmp_loop.simps) (simp add: e word_le_nat_alt del: of_nat_Suc)
  moreover have "d \<noteq> 0 \<Longrightarrow> memcmp_loop m end1 q1 q2 d = d" for end1 q1 q2 d
    by (simp add: memcmp_loop.simps)
  ultimately show ?case
    using Suc.IH [of "p1 + 1" "p2 + 1"] Suc.prems u1 by (simp add: load_bytes_Suc word_uint_eq_iff)
qed

lemma first_difference_zero:
  "length xs = length ys \<Longrightarrow> first_difference xs ys = 0 \<longleftrightarrow> xs = ys"
  by (induction xs ys rule: list_induct2) (auto simp: word_uint_eq_iff)

lemma first_difference_sign:
  "length xs = length ys \<Longrightarrow> first_difference xs ys < 0 \<longleftrightarrow> (xs, ys) \<in> lexord {(x, y). x < y}"
  by (induction xs ys rule: list_induct2) (auto simp: word_less_def)

text \<open>
  (C30) \<open>memcmp\<close> compares two regions as byte strings: zero exactly on equal contents, and negative exactly when
  the first region is lexicographically smaller.
\<close>
theorem memcmp_compares:
  assumes "unat s1 + unat n < 2 ^ 64"
  shows "(memcmp m s1 s2 n = 0 \<longleftrightarrow> load_bytes m s1 (unat n) = load_bytes m s2 (unat n)) \<and>
     (memcmp m s1 s2 n < 0 \<longleftrightarrow>
        (load_bytes m s1 (unat n), load_bytes m s2 (unat n)) \<in> lexord {(x, y). x < y})"
  using memcmp_loop_difference [OF assms, of m s2]
  by (simp add: memcmp_def first_difference_zero first_difference_sign)

theorem memcmp_compares_witness:
  "memcmp (\<lambda>a. if a = 0x2001 then 1 else 0) 0x1000 0x2000 2 < 0"
  using memcmp_compares [of "0x1000" 2 "\<lambda>a. if a = 0x2001 then 1 else 0" "0x2000"]
  by (simp add: load_bytes_def upt_rec)

lemma memchr_loop_find:
  "memchr_loop m p c n = map_option (\<lambda>i. p + of_nat i) (find (\<lambda>i. m (p + of_nat i) = c) [0..<n])"
proof (induction n arbitrary: p)
  case (Suc n)
  show ?case
    by (auto simp: Suc find_map_Suc option.map_comp comp_def algebra_simps simp del: upt_Suc)
qed simp

end
