(* ===== verification/Cboot_String.thy ===== *)
theory Cboot_String
  imports Cboot_Prelude
begin

text \<open>
  The character classification of \<^verbatim>\<open>t18x/cboot/lib/libc/ctype.c\<close> and the string routines of
  \<^verbatim>\<open>lib/clib/string.c\<close>, on character lists.
\<close>

section \<open>ctype\<close>

text \<open>The classification functions take and return \<^verbatim>\<open>int\<close>; their results are used as truth values.\<close>

definition isblank :: "int \<Rightarrow> bool" where "isblank c \<longleftrightarrow> c = 32 \<or> c = 9"
definition isspace :: "int \<Rightarrow> bool" where
  "isspace c \<longleftrightarrow> c = 32 \<or> c = 12 \<or> c = 10 \<or> c = 13 \<or> c = 9 \<or> c = 11"
definition islower :: "int \<Rightarrow> bool" where "islower c \<longleftrightarrow> c \<ge> 97 \<and> c \<le> 122"
definition isupper :: "int \<Rightarrow> bool" where "isupper c \<longleftrightarrow> c \<ge> 65 \<and> c \<le> 90"
definition isdigit :: "int \<Rightarrow> bool" where "isdigit c \<longleftrightarrow> c \<ge> 48 \<and> c \<le> 57"
definition isalpha :: "int \<Rightarrow> bool" where "isalpha c \<longleftrightarrow> isupper c \<or> islower c"
definition isalnum :: "int \<Rightarrow> bool" where "isalnum c \<longleftrightarrow> isalpha c \<or> isdigit c"
definition isxdigit :: "int \<Rightarrow> bool" where
  "isxdigit c \<longleftrightarrow> isdigit c \<or> c \<ge> 97 \<and> c \<le> 102 \<or> c \<ge> 65 \<and> c \<le> 70"
definition isgraph :: "int \<Rightarrow> bool" where "isgraph c \<longleftrightarrow> c > 32 \<and> c < 0x7f"
definition iscntrl :: "int \<Rightarrow> bool" where "iscntrl c \<longleftrightarrow> c < 32 \<or> c = 0x7f"
definition isprint :: "int \<Rightarrow> bool" where "isprint c \<longleftrightarrow> c \<ge> 0x20 \<and> c < 0x7f"
definition ispunct :: "int \<Rightarrow> bool" where "ispunct c \<longleftrightarrow> isgraph c \<and> \<not> isalnum c"
definition tolower :: "int \<Rightarrow> int" where
  "tolower c = (if c \<ge> 65 \<and> c \<le> 90 then c + (97 - 65) else c)"
definition toupper :: "int \<Rightarrow> int" where
  "toupper c = (if c \<ge> 97 \<and> c \<le> 122 then c + (65 - 97) else c)"

lemmas ctype_defs = isblank_def isspace_def islower_def isupper_def isdigit_def isalpha_def isalnum_def
  isxdigit_def isgraph_def iscntrl_def isprint_def ispunct_def tolower_def toupper_def

text \<open>
  Every ASCII code belongs to exactly one of the classes control, space, digit, lower-case letter,
  upper-case letter and punctuation, and the case mappings are inverse on letters.
\<close>
theorem ctype_partition:
  assumes "0 \<le> c" "c < 128"
  shows "length (filter (\<lambda>p. p c) [iscntrl, \<lambda>c. c = 32, isdigit, islower, isupper, ispunct]) = 1 \<and>
     (isupper c \<longrightarrow> islower (tolower c) \<and> toupper (tolower c) = c) \<and>
     (islower c \<longrightarrow> isupper (toupper c) \<and> tolower (toupper c) = c)"
  using assms by (auto simp: ctype_defs)

theorem ctype_partition_witness: "isupper 65 \<and> toupper (tolower 65) = 65"
  using ctype_partition [of 65] by (simp add: ctype_defs)

section \<open>String functions\<close>

text \<open>
  A \<^verbatim>\<open>char *\<close> argument is the list of characters from the pointer on; a read past the end of the list gives
  NUL. \<open>cstr\<close> is the C string it denotes, the characters before the first NUL.
\<close>

abbreviation NUL :: char where "NUL \<equiv> CHR 0x00"
abbreviation code :: "char \<Rightarrow> int" where "code c \<equiv> of_char c"

fun char_at :: "string \<Rightarrow> char" where
  "char_at [] = NUL"
| "char_at (c # s) = c"

definition cstr :: "string \<Rightarrow> string" where
  "cstr s = takeWhile (\<lambda>c. c \<noteq> NUL) s"

lemma tl_lt: "char_at s \<noteq> NUL \<Longrightarrow> length (tl s) < length s"
  by (cases s) auto

function strlen_loop :: "string \<Rightarrow> nat \<Rightarrow> nat" where
  "strlen_loop s n = (if char_at s \<noteq> NUL then strlen_loop (tl s) (n + 1) else n)"
  by auto
termination by (relation "measure (\<lambda>(s, n). length s)") (use tl_lt in auto)

text \<open>The pointer difference passes through an \<^verbatim>\<open>int32_t\<close>.\<close>

definition strlen :: "string \<Rightarrow> u64" where
  "strlen str = scast (of_nat (strlen_loop str 0) :: u32)"

text \<open>The difference of the first mismatch is stored in a \<^verbatim>\<open>uint8_t\<close> and then widened.\<close>

definition char_diff :: "char \<Rightarrow> char \<Rightarrow> int" where
  "char_diff a b = uint (word_of_int (code a - code b) :: u8)"

function strcmp :: "string \<Rightarrow> string \<Rightarrow> int" where
  "strcmp s1 s2 =
     (if char_at s1 = char_at s2
      then (if char_at s1 = NUL then 0 else strcmp (tl s1) (tl s2))
      else char_diff (char_at s1) (char_at s2))"
  by auto
termination by (relation "measure (\<lambda>(s1, s2). length s1)") (use tl_lt in auto)

fun strncmp :: "string \<Rightarrow> string \<Rightarrow> nat \<Rightarrow> int" where
  "strncmp s1 s2 0 = 0"
| "strncmp s1 s2 (Suc n) =
     (if char_at s1 \<noteq> char_at s2 then char_diff (char_at s1) (char_at s2)
      else if char_at s1 = NUL then 0
      else strncmp (tl s1) (tl s2) n)"

text \<open>The pointer comparison \<open>p1 == p2\<close> of \<^verbatim>\<open>strncasecmp\<close> is the argument \<open>same\<close>.\<close>

fun strncasecmp_loop :: "string \<Rightarrow> string \<Rightarrow> nat \<Rightarrow> int" where
  "strncasecmp_loop p1 p2 0 = 0"
| "strncasecmp_loop p1 p2 (Suc n) =
     (let result = tolower (code (char_at p1)) - tolower (code (char_at p2))
      in if result \<noteq> 0 then result
         else if char_at p1 = NUL \<or> n = 0 then result
         else strncasecmp_loop (tl p1) (tl p2) n)"

definition strncasecmp :: "bool \<Rightarrow> string \<Rightarrow> string \<Rightarrow> nat \<Rightarrow> int" where
  "strncasecmp same s1 s2 n = (if same \<or> n = 0 then 0 else strncasecmp_loop s1 s2 n)"

text \<open>The copying functions return what they store at the destination.\<close>

function strcpy :: "string \<Rightarrow> string" where
  "strcpy src = (if char_at src \<noteq> NUL then char_at src # strcpy (tl src) else [NUL])"
  by auto
termination by (relation "measure length") (use tl_lt in auto)

fun strncpy_loop :: "string \<Rightarrow> nat \<Rightarrow> string" where
  "strncpy_loop src 0 = []"
| "strncpy_loop src (Suc n) =
     (let ch = char_at src in ch # (if ch = NUL then replicate n NUL else strncpy_loop (tl src) n))"

definition strncpy :: "string \<Rightarrow> nat \<Rightarrow> string" where
  "strncpy src n = (if n \<noteq> 0 then strncpy_loop src n else [])"

text \<open>\<open>strcat\<close> appends after the terminator position of the destination string.\<close>

function strcat :: "string \<Rightarrow> string \<Rightarrow> string" where
  "strcat dest src = (if char_at dest \<noteq> NUL then char_at dest # strcat (tl dest) src else strcpy src)"
  by auto
termination by (relation "measure (\<lambda>(d, s). length d)") (use tl_lt in auto)

fun strlcpy_loop :: "string \<Rightarrow> nat \<Rightarrow> string" where
  "strlcpy_loop src 0 = []"
| "strlcpy_loop src (Suc k) = (if char_at src \<noteq> NUL then char_at src # strlcpy_loop (tl src) k else [])"

definition strlcpy :: "string \<Rightarrow> nat \<Rightarrow> string \<times> u64" where
  "strlcpy src n =
     (if n = 0 then ([], strlen src)
      else let copied = strlcpy_loop src (n - 1); i = length copied
           in (copied @ [NUL], of_nat i + strlen (drop i src)))"

text \<open>Searches return the string from the position found on.\<close>

function strchr :: "string \<Rightarrow> char \<Rightarrow> string option" where
  "strchr s c =
     (if char_at s = c then Some s else if char_at s = NUL then None else strchr (tl s) c)"
  by auto
termination by (relation "measure (\<lambda>(s, c). length s)") (use tl_lt in auto)

text \<open>
  The inner \<open>while\<close> loop of \<^verbatim>\<open>strstr\<close>: \<open>*a++ == *b++\<close> is tested before \<open>*b\<close> is.
\<close>

fun strstr_match :: "string \<Rightarrow> string \<Rightarrow> bool" where
  "strstr_match a [] = False"
| "strstr_match a (b # bs) =
     (char_at a = b \<and> (char_at bs = NUL \<or> strstr_match (tl a) bs))"

function strstr_loop :: "string \<Rightarrow> string \<Rightarrow> string option" where
  "strstr_loop str sub =
     (if char_at str = NUL then None
      else if char_at str = char_at sub \<and> strstr_match str sub then Some str
      else strstr_loop (tl str) sub)"
  by auto
termination by (relation "measure (\<lambda>(s, c). length s)") (use tl_lt in auto)

definition strstr :: "string \<Rightarrow> string \<Rightarrow> string option" where
  "strstr str sub = (if char_at sub = NUL then Some str else strstr_loop str sub)"

text \<open>\<open>strrchr\<close> walks down from the terminator: \<open>lst\<close> is the offset from \<open>s\<close>.\<close>

fun strrchr_loop :: "string \<Rightarrow> char \<Rightarrow> nat \<Rightarrow> string option" where
  "strrchr_loop s c lst =
     (if char_at (drop lst s) = c then Some (drop lst s)
      else case lst of 0 \<Rightarrow> None | Suc l \<Rightarrow> strrchr_loop s c l)"

definition strrchr :: "string \<Rightarrow> char \<Rightarrow> string option" where
  "strrchr s c = strrchr_loop s c (unat (strlen s))"

function in_cstr :: "char \<Rightarrow> string \<Rightarrow> bool" where
  "in_cstr c a = (if char_at a = NUL then False else if c = char_at a then True else in_cstr c (tl a))"
  by auto
termination by (relation "measure (\<lambda>(c, s). length s)") (use tl_lt in auto)

function strspn :: "string \<Rightarrow> string \<Rightarrow> nat" where
  "strspn s1 s2 =
     (if char_at s1 = NUL then 0 else if \<not> in_cstr (char_at s1) s2 then 0 else strspn (tl s1) s2 + 1)"
  by auto
termination by (relation "measure (\<lambda>(s, c). length s)") (use tl_lt in auto)

function strpbrk :: "string \<Rightarrow> string \<Rightarrow> string option" where
  "strpbrk cs ct =
     (if char_at cs = NUL then None else if in_cstr (char_at cs) ct then Some cs else strpbrk (tl cs) ct)"
  by auto
termination by (relation "measure (\<lambda>(s, c). length s)") (use tl_lt in auto)

text \<open>
  \<open>strtok\<close> keeps its position in the static \<^verbatim>\<open>___strtok\<close> (\<open>None\<close> for the null pointer). The token is the string
  at \<open>sbegin\<close> after the terminator has been stored over the delimiter.
\<close>

definition strtok :: "string option \<Rightarrow> string \<Rightarrow> string option \<Rightarrow> string option \<times> string option" where
  "strtok str delim saved =
     (case (if str \<noteq> None then str else saved) of
        None \<Rightarrow> (None, saved)
      | Some s \<Rightarrow>
          let sbegin = drop (strspn s delim) s
          in if char_at sbegin = NUL then (None, None)
             else case strpbrk sbegin delim of
                    None \<Rightarrow> (Some sbegin, None)
                  | Some send \<Rightarrow>
                      if char_at send \<noteq> NUL
                      then (Some (take (length sbegin - length send) sbegin @ [NUL] @ tl send), Some (tl send))
                      else (Some sbegin, Some send))"

declare strlen_loop.simps [simp del] strcmp.simps [simp del] strcpy.simps [simp del] strcat.simps [simp del]
  strchr.simps [simp del] strstr_loop.simps [simp del] strrchr_loop.simps [simp del]
  in_cstr.simps [simp del] strspn.simps [simp del] strpbrk.simps [simp del]

lemma cstr_simps [simp]:
  "cstr [] = []" "cstr (c # s) = (if c = NUL then [] else c # cstr s)"
  by (simp_all add: cstr_def)

lemma cstr_no_NUL: "NUL \<notin> set (cstr s)"
  by (auto simp: cstr_def dest: set_takeWhileD)

lemma char_at_cstr: "cstr s = (if char_at s = NUL then [] else char_at s # cstr (tl s))"
  by (cases s) auto

lemma strlen_loop_cstr: "strlen_loop s n = n + length (cstr s)"
  by (induction s n rule: strlen_loop.induct) (subst strlen_loop.simps, subst char_at_cstr, simp)

lemma strlen_cstr: "length (cstr s) < 2 ^ 31 \<Longrightarrow> strlen s = of_nat (length (cstr s))"
  by (simp add: strlen_def strlen_loop_cstr signed_of_nat signed_take_bit_int_eq_self)

lemma code_range: "0 \<le> code c" "code c < 256"
  using pos_mod_sign [of 256 "code c"] pos_mod_bound [of 256 "code c"] by simp_all

lemma char_diff_zero [simp]: "char_diff a b = 0 \<longleftrightarrow> a = b"
proof -
  have "char_diff a b = 0 \<longleftrightarrow> (word_of_int (code a - code b) :: u8) = 0"
    by (simp only: char_diff_def unsigned_eq_0_iff)
  then show ?thesis by (simp add: word_of_int_eq_iff take_bit_eq_mod)
qed

lemma char_diff_nonneg [simp]: "0 \<le> char_diff a b"
  by (simp add: char_diff_def)

lemma strcmp_zero: "strcmp s1 s2 = 0 \<longleftrightarrow> cstr s1 = cstr s2"
proof (induction s1 s2 rule: strcmp.induct)
  case (1 s1 s2)
  then show ?case
    by (subst strcmp.simps, subst (1 2) char_at_cstr) auto
qed

lemma strncmp_zero: "strncmp s1 s2 n = 0 \<longleftrightarrow> take n (cstr s1) = take n (cstr s2)"
proof (induction s1 s2 n rule: strncmp.induct)
  case (2 s1 s2 n)
  then show ?case
    by (subst (1 2) char_at_cstr) auto
qed simp


text \<open>
  \<open>strcmp\<close> and \<open>strncmp\<close> return zero exactly on equal strings, up to \<open>n\<close> characters; their difference goes
  through a \<^verbatim>\<open>uint8_t\<close>, so the result is never negative and carries no order.
\<close>
theorem strcmp_decides_equality:
  "(strcmp s1 s2 = 0 \<longleftrightarrow> cstr s1 = cstr s2) \<and> 0 \<le> strcmp s1 s2 \<and>
   (strncmp s1 s2 n = 0 \<longleftrightarrow> take n (cstr s1) = take n (cstr s2)) \<and> 0 \<le> strncmp s1 s2 n"
proof -
  have "0 \<le> strcmp s1 s2"
    by (induction s1 s2 rule: strcmp.induct) (subst strcmp.simps, simp)
  moreover have "0 \<le> strncmp s1 s2 n"
    by (induction s1 s2 n rule: strncmp.induct) simp_all
  ultimately show ?thesis by (simp add: strcmp_zero strncmp_zero)
qed

lemma strlcpy_loop_take: "strlcpy_loop src k = take k (cstr src)"
proof (induction src k rule: strlcpy_loop.induct)
  case (2 src k)
  then show ?case by (subst char_at_cstr) simp
qed simp

lemma cstr_drop: "i \<le> length (cstr s) \<Longrightarrow> cstr (drop i s) = drop i (cstr s)"
proof (induction i arbitrary: s)
  case (Suc i)
  then show ?case by (cases s) (auto split: if_splits)
qed simp

text \<open>
  (C31) \<open>strlcpy\<close> stores at most \<open>n\<close> bytes, always terminates the destination, keeps the longest prefix that
  fits, and returns the length of the source, so truncation can be detected.
\<close>
theorem strlcpy_truncates:
  assumes "0 < n" "length (cstr src) < 2 ^ 31"
  shows "strlcpy src n = (take (n - 1) (cstr src) @ [NUL], of_nat (length (cstr src)))"
proof -
  let ?i = "min (length (cstr src)) (n - 1)"
  have "cstr (drop ?i src) = drop ?i (cstr src)" by (intro cstr_drop) simp
  then have "strlen (drop ?i src) = of_nat (length (cstr src) - ?i)"
    using assms(2) by (subst strlen_cstr) simp_all
  moreover have "of_nat ?i + of_nat (length (cstr src) - ?i) = (of_nat (length (cstr src)) :: u64)"
    by (simp flip: of_nat_add)
  ultimately show ?thesis
    using assms(1) by (simp add: strlcpy_def strlcpy_loop_take Let_def min.commute)
qed

theorem strlcpy_truncates_witness: "strlcpy ''kernel'' 4 = (''ker'' @ [NUL], 6)"
  using strlcpy_truncates [of 4 "''kernel''"] by simp

lemma strncpy_loop_pad: "strncpy_loop src n = take n (cstr src) @ replicate (n - length (cstr src)) NUL"
proof (induction src n rule: strncpy_loop.induct)
  case (2 src n)
  then show ?case by (subst (1 2) char_at_cstr) (simp add: Let_def)
qed simp

lemma strcpy_cstr: "strcpy s = cstr s @ [NUL]"
  by (induction s rule: strcpy.induct) (subst strcpy.simps, subst char_at_cstr, simp)

lemma strcat_cstr: "strcat d s = cstr d @ cstr s @ [NUL]"
  by (induction d s rule: strcat.induct) (subst strcat.simps, subst char_at_cstr, simp add: strcpy_cstr)


lemma strstr_match_prefix:
  "char_at b \<noteq> NUL \<Longrightarrow> strstr_match a b \<longleftrightarrow> take (length (cstr b)) (cstr a) = cstr b"
proof (induction a b rule: strstr_match.induct)
  case (2 a b bs)
  then show ?case
    by (cases a; cases bs; auto)
qed simp

lemma strstr_loop_find:
  assumes "char_at sub \<noteq> NUL"
  shows "strstr_loop str sub =
     map_option (\<lambda>i. drop i str)
       (find (\<lambda>i. take (length (cstr sub)) (cstr (drop i str)) = cstr sub) [0..<Suc (length (cstr str))])"
  using assms
proof (induction str sub rule: strstr_loop.induct)
  case (1 str sub)
  have ne: "cstr sub \<noteq> []" using 1 by (subst char_at_cstr) simp
  show ?case
  proof (cases "char_at str = NUL")
    case True
    then have "cstr str = []" by (subst char_at_cstr) simp
    with True ne show ?thesis by (subst strstr_loop.simps) simp
  next
    case False
    then obtain c s where str: "str = c # s" "c \<noteq> NUL" by (cases str) auto
    have m: "c = char_at sub \<and> strstr_match str sub \<longleftrightarrow> take (length (cstr sub)) (cstr str) = cstr sub"
      using "1.prems" str by (subst strstr_match_prefix) (cases sub; auto)+
    show ?thesis
      using 1 str m
      by (subst strstr_loop.simps)
        (auto simp: find_map_Suc [of _ "Suc _"] comp_def option.map_comp simp del: upt_Suc)
  qed
qed

text \<open>
  (C32) \<open>strstr\<close> finds the first position at which the substring occurs, and reports none exactly when there is
  none.
\<close>
theorem strstr_first_occurrence:
  "strstr str sub =
     map_option (\<lambda>i. drop i str)
       (find (\<lambda>i. take (length (cstr sub)) (cstr (drop i str)) = cstr sub) [0..<Suc (length (cstr str))])"
proof (cases "char_at sub = NUL")
  case True
  then have "cstr sub = []" by (subst char_at_cstr) simp
  with True show ?thesis by (simp add: strstr_def find_map_Suc del: upt_Suc)
qed (simp add: strstr_def strstr_loop_find)

lemma in_cstr_set: "in_cstr c s \<longleftrightarrow> c \<in> set (cstr s)"
  by (induction c s rule: in_cstr.induct) (subst in_cstr.simps, subst char_at_cstr, auto)

lemma strspn_takeWhile: "strspn s d = length (takeWhile (\<lambda>c. c \<in> set (cstr d)) (cstr s))"
  by (induction s d rule: strspn.induct) (subst strspn.simps, subst char_at_cstr, auto simp: in_cstr_set)

lemma strpbrk_dropWhile:
  "NUL \<notin> set s \<Longrightarrow> strpbrk s d =
     (case dropWhile (\<lambda>c. c \<notin> set (cstr d)) s of [] \<Rightarrow> None | c # t \<Rightarrow> Some (c # t))"
proof (induction s)
  case (Cons c s)
  then show ?case by (subst strpbrk.simps) (auto simp: in_cstr_set)
qed (subst strpbrk.simps, simp)

lemma cstr_id [simp]: "NUL \<notin> set s \<Longrightarrow> cstr s = s"
  by (auto simp: cstr_def takeWhile_eq_all_conv)

text \<open>
  \<open>strtok\<close> skips leading delimiters, returns the maximal run of other characters as the token, and
  remembers the position behind the delimiter that ended it.
\<close>
theorem strtok_token:
  assumes "NUL \<notin> set s" "dropWhile (\<lambda>c. c \<in> set (cstr delim)) s = r" "r \<noteq> []"
  shows "\<exists>tok. strtok (Some s) delim saved =
       (Some tok, case dropWhile (\<lambda>c. c \<notin> set (cstr delim)) r of [] \<Rightarrow> None | _ # t \<Rightarrow> Some t) \<and>
     cstr tok = takeWhile (\<lambda>c. c \<notin> set (cstr delim)) r"
proof -
  let ?D = "set (cstr delim)"
  have r: "drop (strspn s delim) s = r"
    using assms(1,2) by (simp add: strspn_takeWhile dropWhile_eq_drop)
  have n: "NUL \<notin> set r" using assms(1,2) by (metis set_dropWhileD)
  have c: "char_at r \<noteq> NUL" using n assms(3) by (cases r) auto
  define p q where "p = takeWhile (\<lambda>c. c \<notin> ?D) r" and "q = dropWhile (\<lambda>c. c \<notin> ?D) r"
  have split: "r = p @ q" by (simp add: p_def q_def)
  have st: "strpbrk r delim = (case q of [] \<Rightarrow> None | c # t \<Rightarrow> Some (c # t))"
    using strpbrk_dropWhile [OF n] by (simp add: q_def)
  show ?thesis
    unfolding p_def [symmetric] q_def [symmetric]
  proof (cases q)
    case Nil
    with c n split st show "\<exists>tok. strtok (Some s) delim saved =
       (Some tok, case q of [] \<Rightarrow> None | _ # t \<Rightarrow> Some t) \<and> cstr tok = p"
      by (simp add: strtok_def r Let_def)
  next
    case (Cons e t)
    then have "e \<noteq> NUL" using n split by auto
    moreover have "cstr (p @ NUL # t) = p" using n split by (auto simp: cstr_def takeWhile_append)
    ultimately show "\<exists>tok. strtok (Some s) delim saved =
       (Some tok, case q of [] \<Rightarrow> None | _ # t \<Rightarrow> Some t) \<and> cstr tok = p"
      using Cons c split st by (simp add: strtok_def r Let_def)
  qed
qed

theorem strtok_token_witness:
  "\<exists>tok. strtok (Some '', root=x'') '', '' None = (Some tok, None) \<and> cstr tok = ''root=x''"
  using strtok_token [of "'', root=x''" "'', ''" "''root=x''" None] by simp

end
