(* ===== verification/Cboot_Strtoul.thy ===== *)
theory Cboot_Strtoul
  imports Cboot_String
begin

text \<open>
  String to number conversion (\<^verbatim>\<open>tegrabl_utils_strtoul\<close> and its helpers, \<^verbatim>\<open>lib/utils/tegrabl_utils.c\<close>) and the
  byte swap routines of the same file. Strings are those of \<open>Cboot_String\<close>.
\<close>

definition check_overflow :: "u64 \<Rightarrow> u32 \<Rightarrow> int \<Rightarrow> bool" where
  "check_overflow acc val base =
     (let cutoff = (- 1 :: u64) div word_of_int base;
          cutlim = (- 1 :: u64) mod word_of_int base
      in acc > cutoff \<or> acc = cutoff \<and> ucast val > cutlim)"

definition strtoul_digit :: "char \<Rightarrow> int \<Rightarrow> int" where
  "strtoul_digit c base =
     (if code c \<ge> 48 \<and> code c \<le> 57 then code c - 48
      else if code c \<ge> 65 \<and> code c \<le> 90 then code c - 65 + 10
      else if code c \<ge> 97 \<and> code c \<le> 122 then code c - 97 + 10
      else base)"

text \<open>
  The \<open>for\<close> loop of \<^verbatim>\<open>tegrabl_utils_strtoul_parse\<close>. The results are \<open>acc\<close>, \<open>any\<close> and the string from the
  character that stopped the loop on (\<open>s - 1\<close> of the code).
\<close>

fun strtoul_loop :: "string \<Rightarrow> int \<Rightarrow> u64 \<Rightarrow> int \<Rightarrow> u64 \<times> int \<times> string" where
  "strtoul_loop s base acc any =
     (let temp1 = strtoul_digit (char_at s) base
      in if temp1 \<ge> base then (acc, any, s)
         else case s of
           [] \<Rightarrow> (acc, any, s)
         | _ # s' \<Rightarrow>
             if any < 0 then strtoul_loop s' base acc any
             else if check_overflow acc (word_of_int temp1) base then strtoul_loop s' base (- 1) (- 1)
             else strtoul_loop s' base (acc * word_of_int base + word_of_int temp1) 1)"

declare strtoul_loop.simps [simp del]

text \<open>The pointer \<open>*endptr\<close> is the offset from \<open>nptr\<close>.\<close>

definition tegrabl_utils_strtoul_parse :: "string \<Rightarrow> string \<Rightarrow> int \<Rightarrow> bool \<Rightarrow> u64 \<times> nat" where
  "tegrabl_utils_strtoul_parse s nptr base neg =
     (case strtoul_loop s base 0 0 of (acc, any, rest) \<Rightarrow>
        (if neg \<and> any > 0 then - acc else acc,
         if any \<noteq> 0 then length nptr - length rest else 0))"

fun remove_spaces :: "string \<Rightarrow> string" where
  "remove_spaces [] = []"
| "remove_spaces (c # s) = (if isspace (code c) then remove_spaces s else c # s)"

definition is_valid_base :: "int \<Rightarrow> bool" where
  "is_valid_base base \<longleftrightarrow> \<not> (base < 0 \<or> base = 1 \<or> base > 36)"

definition has_hex_base_chars :: "string \<Rightarrow> bool" where
  "has_hex_base_chars s \<longleftrightarrow>
     char_at s = CHR ''0'' \<and> (char_at (tl s) = CHR ''x'' \<or> char_at (tl s) = CHR ''X'')"

definition tegrabl_utils_strtoul :: "string \<Rightarrow> int \<Rightarrow> u64 \<times> nat" where
  "tegrabl_utils_strtoul nptr base =
     (if \<not> is_valid_base base then (0, 0)
      else
        let s = remove_spaces nptr;
            neg = (char_at s = CHR ''-'');
            s1 = (if char_at s = CHR ''-'' \<or> char_at s = CHR ''+'' then tl s else s);
            hex = ((base = 0 \<or> base = 16) \<and> has_hex_base_chars s1);
            base1 = (if hex then 16 else base);
            s2 = (if hex then tl (tl s1) else s1);
            base2 = (if base1 = 0 then (if char_at s2 = CHR ''0'' then 8 else 10) else base1)
        in tegrabl_utils_strtoul_parse s2 nptr base2 neg)"

definition be32tole32 :: "u32 \<Rightarrow> u32" where
  "be32tole32 data =
     (let b0 = (ucast data :: u8); b1 = (ucast (drop_bit 8 data) :: u8);
          b2 = (ucast (drop_bit 16 data) :: u8); b3 = (ucast (drop_bit 24 data) :: u8);
          r0 = push_bit 24 (ucast b0 :: u32);
          r1 = r0 OR push_bit 16 (ucast b1);
          r2 = r1 OR push_bit 8 (ucast b2)
      in r2 OR ucast b3)"

definition le32tobe32 :: "u32 \<Rightarrow> u32" where
  "le32tobe32 data =
     (let b0 = (ucast (drop_bit 24 data AND 0xFF) :: u8); b1 = (ucast (drop_bit 16 data AND 0xFF) :: u8);
          b2 = (ucast (drop_bit 8 data AND 0xFF) :: u8); b3 = (ucast (data AND 0xFF) :: u8)
      in ucast b0 OR push_bit 8 (ucast b1) OR push_bit 16 (ucast b2) OR push_bit 24 (ucast b3))"

text \<open>The value of a digit string, without a bound.\<close>

definition is_digit_in :: "int \<Rightarrow> char \<Rightarrow> bool" where
  "is_digit_in base c \<longleftrightarrow> strtoul_digit c base < base"

definition digits_value :: "int \<Rightarrow> string \<Rightarrow> nat \<Rightarrow> nat" where
  "digits_value base ds a = foldl (\<lambda>v c. v * nat base + nat (strtoul_digit c base)) a ds"

lemma strtoul_digit_nonneg: "0 \<le> base \<Longrightarrow> 0 \<le> strtoul_digit c base"
  by (auto simp: strtoul_digit_def)

lemma digit_NUL: "\<not> is_digit_in base (CHR 0x00)"
  by (simp add: is_digit_in_def strtoul_digit_def)

lemma strtoul_loop_Nil [simp]: "strtoul_loop [] base acc any = (acc, any, [])"
  by (simp add: strtoul_loop.simps Let_def)

lemma strtoul_loop_Cons:
  "strtoul_loop (c # s) base acc any =
     (if \<not> is_digit_in base c then (acc, any, c # s)
      else if any < 0 then strtoul_loop s base acc any
      else if check_overflow acc (word_of_int (strtoul_digit c base)) base then strtoul_loop s base (- 1) (- 1)
      else strtoul_loop s base (acc * word_of_int base + word_of_int (strtoul_digit c base)) 1)"
  by (subst strtoul_loop.simps) (simp add: Let_def is_digit_in_def)

lemma check_overflow_iff:
  assumes "2 \<le> base" "base \<le> 36" "0 \<le> d" "d < base"
  shows "check_overflow acc (word_of_int d) base \<longleftrightarrow> unat acc * nat base + nat d \<ge> 2 ^ 64"
proof -
  obtain b where b: "base = int b" "2 \<le> b" "b \<le> 36" using assms
    by (intro that [of "nat base"]) auto
  obtain e where e: "d = int e" "e < b" using assms b by (intro that [of "nat d"]) auto
  have ub: "unat (of_nat b :: u64) = b" using b by (simp add: unsigned_of_nat take_bit_nat_eq_self_iff)
  have ue: "unat (ucast (of_nat e :: u32) :: u64) = e"
    using b e by (simp add: unsigned_ucast_eq unsigned_of_nat take_bit_nat_eq_self_iff)
  define M where "M = (2 ^ 64 - 1 :: nat)"
  have um: "unat (- 1 :: u64) = M" by (simp add: M_def unsigned_minus_1_eq_mask mask_eq_exp_minus_1)
  have M: "M = b * (M div b) + M mod b" "M mod b < b" using b by auto
  have "check_overflow acc (word_of_int d) base \<longleftrightarrow>
     unat acc > M div b \<or> unat acc = M div b \<and> e > M mod b"
    by (simp add: check_overflow_def Let_def b e word_less_nat_alt unat_div_distrib unat_mod_distrib ub ue um
        word_unat_eq_iff)
  also have "\<dots> \<longleftrightarrow> unat acc * b + e > M"
  proof -
    define q r where "q = M div b" and "r = M mod b"
    have M': "M = b * q + r" "r < b" using M by (simp_all add: q_def r_def)
    consider "q + 1 \<le> unat acc" | "unat acc = q" | "unat acc + 1 \<le> q" by linarith
    then have "unat acc > q \<or> unat acc = q \<and> e > r \<longleftrightarrow> unat acc * b + e > b * q + r"
    proof cases
      case 1
      then have "b * (q + 1) \<le> b * unat acc" by (rule mult_le_mono2)
      with 1 M'(2) show ?thesis by (auto simp: algebra_simps)
    next
      case 3
      then have "b * (unat acc + 1) \<le> b * q" by (rule mult_le_mono2)
      with 3 e show ?thesis by (auto simp: algebra_simps)
    qed (auto simp: algebra_simps)
    with M' show ?thesis by (simp add: q_def r_def)
  qed
  finally show ?thesis by (simp add: b e M_def) linarith
qed

lemma strtoul_loop_overflowed:
  "any < 0 \<Longrightarrow> strtoul_loop s base acc any = (acc, any, dropWhile (is_digit_in base) s)"
  by (induction s) (simp_all add: strtoul_loop_Cons)

lemma digits_value_simps [simp]:
  "digits_value base [] a = a"
  "digits_value base (c # ds) a = digits_value base ds (a * nat base + nat (strtoul_digit c base))"
  by (simp_all add: digits_value_def)

lemma digits_value_ge: "2 \<le> base \<Longrightarrow> a \<le> digits_value base ds a"
proof (induction ds arbitrary: a)
  case (Cons c ds)
  have "a * 1 \<le> a * nat base" using Cons.prems by (intro mult_le_mono2) simp
  also have "\<dots> \<le> a * nat base + nat (strtoul_digit c base)" by simp
  finally show ?case using Cons.IH [OF Cons.prems] by (fastforce intro: order_trans)
qed simp

lemma strtoul_loop_value:
  assumes "2 \<le> base" "base \<le> 36" "0 \<le> any"
  defines "ds s \<equiv> takeWhile (is_digit_in base) s"
  shows "strtoul_loop s base acc any =
     (let v = digits_value base (ds s) (unat acc) in
      (if v < 2 ^ 64 then of_nat v else - 1,
       if v < 2 ^ 64 then (if ds s = [] then any else 1) else - 1,
       dropWhile (is_digit_in base) s))"
  using \<open>0 \<le> any\<close>
proof (induction s arbitrary: acc any)
  case Nil
  have "unat acc < 2 ^ 64" using unsigned_less [of acc] by simp
  then show ?case by (simp add: ds_def Let_def)
next
  case (Cons c s)
  show ?case
  proof (cases "is_digit_in base c")
    case False
    have "unat acc < 2 ^ 64" using unsigned_less [of acc] by simp
    with False show ?thesis by (simp add: ds_def strtoul_loop_Cons Let_def)
  next
    case True
    define d where "d = strtoul_digit c base"
    have d: "0 \<le> d" "d < base"
      using True assms(1) strtoul_digit_nonneg [of base c] by (simp_all add: d_def is_digit_in_def)
    define a where "a = unat acc * nat base + nat d"
    have ov: "check_overflow acc (word_of_int d) base \<longleftrightarrow> 2 ^ 64 \<le> a"
      unfolding a_def by (rule check_overflow_iff) (use assms d in auto)
    show ?thesis
    proof (cases "2 ^ 64 \<le> a")
      case True
      have "2 ^ 64 \<le> digits_value base (ds s) a"
        using digits_value_ge [OF assms(1), of a "ds s"] True by simp
      with True \<open>is_digit_in base c\<close> Cons.prems show ?thesis
        by (simp add: strtoul_loop_Cons ov ds_def Let_def strtoul_loop_overflowed flip: d_def a_def)
    next
      case False
      have "acc * word_of_int base + word_of_int d = (of_nat a :: u64)"
        using d assms(1) by (simp add: a_def)
      moreover have "unat (of_nat a :: u64) = a"
        using False by (simp add: unsigned_of_nat take_bit_nat_eq_self_iff)
      ultimately show ?thesis
        using False \<open>is_digit_in base c\<close> Cons.prems Cons.IH [of 1 "of_nat a"]
        by (simp add: strtoul_loop_Cons ov ds_def Let_def flip: d_def a_def)
    qed
  qed
qed

lemma digit_code:
  "is_digit_in base c \<Longrightarrow>
     code c \<in> {48..57} \<or> code c \<in> {65..90} \<or> code c \<in> {97..122}"
  by (auto simp: is_digit_in_def strtoul_digit_def split: if_splits)

lemma digit_plain:
  assumes "is_digit_in base c"
  shows "\<not> isspace (code c)" "c \<noteq> CHR ''-''" "c \<noteq> CHR ''+''"
  using digit_code [OF assms] by (auto simp: isspace_def)

lemma remove_spaces_append:
  "list_all (\<lambda>c. isspace (code c)) sp \<Longrightarrow> remove_spaces (sp @ s) = remove_spaces s"
  by (induction sp) simp_all

lemma strtoul_parse_digits:
  assumes "2 \<le> base" "base \<le> 36" "ds \<noteq> []" "list_all (is_digit_in base) ds"
    and "\<not> is_digit_in base (char_at rest)"
  defines "v \<equiv> digits_value base ds 0"
  shows "tegrabl_utils_strtoul_parse (ds @ rest) (pre @ ds @ rest) base neg =
     (if v < 2 ^ 64 then (if neg then - of_nat v else of_nat v) else - 1, length pre + length ds)"
proof -
  have "takeWhile (is_digit_in base) (ds @ rest) = ds" "dropWhile (is_digit_in base) (ds @ rest) = rest"
    using assms(4,5) by (cases rest; auto simp: list_all_iff takeWhile_append dropWhile_append)+
  with assms(1-3) show ?thesis
    by (simp add: tegrabl_utils_strtoul_parse_def strtoul_loop_value Let_def v_def)
qed



lemma bit_be32tole32:
  "bit (be32tole32 x) n \<longleftrightarrow>
     (if n < 8 then bit x (n + 24) else if n < 16 then bit x (n + 8)
      else if n < 24 then bit x (n - 8) else n < 32 \<and> bit x (n - 24))"
  unfolding be32tole32_def Let_def
  by (auto simp: bit_simps add.commute dest: bit_imp_le_length)

lemma bit_le32tobe32:
  "bit (le32tobe32 x) n \<longleftrightarrow>
     (if n < 8 then bit x (n + 24) else if n < 16 then bit x (n + 8)
      else if n < 24 then bit x (n - 8) else n < 32 \<and> bit x (n - 24))"
  unfolding le32tobe32_def Let_def FF_mask
  by (auto simp: bit_simps add.commute dest: bit_imp_le_length)

text \<open>
  Both byte swap routines reverse the four bytes of a word: they are the same function, and applying
  it twice gives the word back.
\<close>
theorem byte_swap_involution:
  "be32tole32 x = le32tobe32 x \<and> be32tole32 (le32tobe32 x) = x"
proof
  show "be32tole32 x = le32tobe32 x"
    by (rule bit_eqI) (simp add: bit_be32tole32 bit_le32tobe32)
  show "be32tole32 (le32tobe32 x) = x"
  proof (rule bit_eqI)
    fix n assume "possible_bit TYPE(u32) n"
    then consider "n < 8" | "8 \<le> n" "n < 16" | "16 \<le> n" "n < 24" | "24 \<le> n" "n < 32"
      by fastforce
    then show "bit (be32tole32 (le32tobe32 x)) n = bit x n"
      by cases (auto dest!: le_Suc_ex simp: bit_be32tole32 bit_le32tobe32 add.commute)
  qed
qed
end
