(* ===== verification/Cboot_Blockdev.thy ===== *)
theory Cboot_Blockdev
  imports Cboot_Error Cboot_Utils
begin

text \<open>
  The block device layer, \<^verbatim>\<open>common/lib/blockdev/tegrabl_blockdev.c\<close>. A device is the record
  \<open>tegrabl_bdev\<close>; the state of the medium behind it is the type parameter \<open>'m\<close>, threaded through the hooks of
  the driver. A byte transfer over blocks is split into the phases of \<^verbatim>\<open>tegrabl_blockdev_default_read\<close> and
  \<^verbatim>\<open>tegrabl_blockdev_default_write\<close>; their correctness is the subject of \<open>Cboot_Blockio\<close>. The second half models
  the list of registered devices and their reference counts, and proves that the counts are exact.
\<close>


type_synonym bnum_t = u32
type_synonym off_t = u64
type_synonym 'a result = "tegrabl_error_t + 'a"

text \<open>A step that may fail and that threads the medium; a \<open>goto fail\<close> is a \<open>Inl\<close>.\<close>

fun bindE :: "'a result \<times> 'm \<Rightarrow> ('a \<Rightarrow> 'm \<Rightarrow> 'b result \<times> 'm) \<Rightarrow> 'b result \<times> 'm" where
  "bindE (Inl e, m) f = (Inl e, m)"
| "bindE (Inr a, m) f = f a m"

record xfer_info =
  xfer_dev :: u64
  xfer_type :: u8
  xfer_buf :: u64
  start_block :: bnum_t
  xfer_count :: bnum_t
  is_non_blocking :: bool
  is_secure_erase :: bool
  xid :: u32
  xfer_status :: u8

text \<open>
  The hooks are those of the driver. \<open>None\<close> for a block hook is the default set by
  \<^verbatim>\<open>tegrabl_blockdev_initialize_bdev\<close>, for the other hooks a null pointer; no driver of the repository replaces \<^verbatim>\<open>dev->read\<close> and \<^verbatim>\<open>dev->write\<close>. A hook
  that fills a buffer returns the bytes it stored there.
\<close>

record 'm tegrabl_bdev =
  ref :: u32
  device_id :: u32
  dev_size :: u64
  block_size_log2 :: nat
  block_count :: bnum_t
  published :: bool
  buf_align_size :: u32
  read_block :: "(u64 \<Rightarrow> bnum_t \<Rightarrow> bnum_t \<Rightarrow> 'm \<Rightarrow> bytes result \<times> 'm) option"
  write_block :: "(u64 \<Rightarrow> bytes \<Rightarrow> bnum_t \<Rightarrow> bnum_t \<Rightarrow> 'm \<Rightarrow> unit result \<times> 'm) option"
  erase_blocks :: "(bnum_t \<Rightarrow> bnum_t \<Rightarrow> bool \<Rightarrow> 'm \<Rightarrow> unit result \<times> 'm) option"
  xfer_hook :: "(xfer_info \<Rightarrow> 'm \<Rightarrow> unit result \<times> xfer_info \<times> 'm) option"
  xfer_wait_hook :: "(xfer_info \<Rightarrow> u64 \<Rightarrow> 'm \<Rightarrow> u8 result \<times> xfer_info \<times> 'm) option"
  ioctl_hook :: "(u32 \<Rightarrow> bytes \<Rightarrow> 'm \<Rightarrow> bytes result \<times> 'm) option"
  close_hook :: "('m \<Rightarrow> 'm) option"

definition bdev_error :: "u8 \<Rightarrow> u32 \<Rightarrow> tegrabl_error_t" where
  "bdev_error aux reason = tegrabl_error_value MOD_BLOCK_DEV aux reason"

text \<open>\<^verbatim>\<open>TEGRABL_SET_HIGHEST_MODULE\<close> on the error of a call.\<close>

fun highest :: "tegrabl_err_module_t \<Rightarrow> 'a result \<times> 'm \<Rightarrow> 'a result \<times> 'm" where
  "highest module (Inl e, m) = (Inl (tegrabl_err_set_highest_module e module), m)"
| "highest module (Inr a, m) = (Inr a, m)"

definition TEGRABL_BLOCKDEV_BLOCK_SIZE :: "'m tegrabl_bdev \<Rightarrow> u64" where
  "TEGRABL_BLOCKDEV_BLOCK_SIZE dev = push_bit (block_size_log2 dev) 1"

definition tegrabl_blockdev_get_storage_type :: "'m tegrabl_bdev option \<Rightarrow> u16" where
  "tegrabl_blockdev_get_storage_type bdev =
     (case bdev of Some d \<Rightarrow> ucast (MIN64 (ucast (drop_bit 16 (device_id d) AND 0xFF)) 10) | None \<Rightarrow> 10)"

definition tegrabl_blockdev_get_instance :: "'m tegrabl_bdev option \<Rightarrow> u16" where
  "tegrabl_blockdev_get_instance bdev =
     (case bdev of Some d \<Rightarrow> ucast (device_id d AND 0xFF) | None \<Rightarrow> 0xFF)"

definition TEGRABL_BLOCK_DEVICE_ID :: "u32 \<Rightarrow> u32 \<Rightarrow> u32" where
  "TEGRABL_BLOCK_DEVICE_ID storage_type instance_no = push_bit 16 storage_type OR instance_no"

definition tegrabl_blockdev_buffer_aligned :: "'m tegrabl_bdev \<Rightarrow> u64 \<Rightarrow> bool" where
  "tegrabl_blockdev_buffer_aligned dev buf \<longleftrightarrow> buf AND ucast (buf_align_size dev - 1) = 0"


section \<open>Block transfers\<close>

definition tegrabl_blockdev_default_read_block :: "u64 \<Rightarrow> bnum_t \<Rightarrow> bnum_t \<Rightarrow> 'm \<Rightarrow> bytes result \<times> 'm" where
  "tegrabl_blockdev_default_read_block buf block count m = (Inl (bdev_error 1 ERR_NOT_SUPPORTED), m)"

definition tegrabl_blockdev_default_write_block :: "u64 \<Rightarrow> bytes \<Rightarrow> bnum_t \<Rightarrow> bnum_t \<Rightarrow> 'm \<Rightarrow> unit result \<times> 'm" where
  "tegrabl_blockdev_default_write_block buf data block count m = (Inl (bdev_error 2 ERR_NOT_SUPPORTED), m)"

definition tegrabl_blockdev_default_erase :: "bnum_t \<Rightarrow> bnum_t \<Rightarrow> bool \<Rightarrow> 'm \<Rightarrow> unit result \<times> 'm" where
  "tegrabl_blockdev_default_erase block count is_secure m = (Inl (bdev_error 0 ERR_NOT_SUPPORTED), m)"

definition block_in_range :: "'m tegrabl_bdev \<Rightarrow> bnum_t \<Rightarrow> bnum_t \<Rightarrow> bool" where
  "block_in_range dev block count \<longleftrightarrow> \<not> (block > block_count dev \<or> block + count > block_count dev)"

definition tegrabl_blockdev_read_block ::
  "'m tegrabl_bdev option \<Rightarrow> u64 \<Rightarrow> bnum_t \<Rightarrow> bnum_t \<Rightarrow> 'm \<Rightarrow> bytes result \<times> 'm" where
  "tegrabl_blockdev_read_block dev buf block count m =
     (case dev of None \<Rightarrow> (Inl (bdev_error 8 ERR_INVALID), m)
      | Some d \<Rightarrow>
          if count = 0 then (Inl (bdev_error 8 ERR_INVALID), m)
          else if \<not> tegrabl_blockdev_buffer_aligned d buf then (Inl (bdev_error 25 ERR_INVALID), m)
          else if ref d \<le> 0 then (Inl (bdev_error 9 ERR_INVALID), m)
          else if \<not> block_in_range d block count then (Inl (bdev_error 1 ERR_OVERFLOW), m)
          else highest MOD_BLOCK_DEV
            ((case read_block d of Some f \<Rightarrow> f | None \<Rightarrow> tegrabl_blockdev_default_read_block) buf block count m))"

definition tegrabl_blockdev_write_block ::
  "'m tegrabl_bdev option \<Rightarrow> u64 \<Rightarrow> bytes \<Rightarrow> bnum_t \<Rightarrow> bnum_t \<Rightarrow> 'm \<Rightarrow> unit result \<times> 'm" where
  "tegrabl_blockdev_write_block dev buf data block count m =
     (case dev of None \<Rightarrow> (Inl (bdev_error 12 ERR_INVALID), m)
      | Some d \<Rightarrow>
          if count = 0 \<or> buf = 0 then (Inl (bdev_error 12 ERR_INVALID), m)
          else if \<not> tegrabl_blockdev_buffer_aligned d buf then (Inl (bdev_error 26 ERR_INVALID), m)
          else if \<not> block_in_range d block count then (Inl (bdev_error 3 ERR_OVERFLOW), m)
          else if ref d \<le> 0 then (Inl (bdev_error 13 ERR_INVALID), m)
          else highest MOD_BLOCK_DEV
            ((case write_block d of Some f \<Rightarrow> f | None \<Rightarrow> tegrabl_blockdev_default_write_block) buf data block count m))"

definition tegrabl_blockdev_erase ::
  "'m tegrabl_bdev option \<Rightarrow> bnum_t \<Rightarrow> bnum_t \<Rightarrow> bool \<Rightarrow> 'm \<Rightarrow> unit result \<times> 'm" where
  "tegrabl_blockdev_erase dev block count is_secure m =
     (case dev of None \<Rightarrow> (Inl (bdev_error 14 ERR_INVALID), m)
      | Some d \<Rightarrow>
          if count = 0 then (Inl (bdev_error 14 ERR_INVALID), m)
          else if \<not> block_in_range d block count then (Inl (bdev_error 4 ERR_OVERFLOW), m)
          else if ref d \<le> 0 then (Inl (bdev_error 15 ERR_INVALID), m)
          else highest MOD_BLOCK_DEV
            ((case erase_blocks d of Some f \<Rightarrow> f | None \<Rightarrow> tegrabl_blockdev_default_erase) block count is_secure m))"

definition tegrabl_blockdev_erase_all :: "'m tegrabl_bdev option \<Rightarrow> bool \<Rightarrow> 'm \<Rightarrow> unit result \<times> 'm" where
  "tegrabl_blockdev_erase_all dev is_secure m =
     (case dev of None \<Rightarrow> (Inl (bdev_error 16 ERR_INVALID), m)
      | Some d \<Rightarrow> tegrabl_blockdev_erase (Some d) 0 (block_count d) is_secure m)"


section \<open>Byte transfers over blocks\<close>

text \<open>
  The three phases of \<^verbatim>\<open>tegrabl_blockdev_default_read\<close>. \<open>alloc n\<close> is the address the DMA heap returns for a
  request of \<open>n\<close> bytes, 0 when it has none. A phase returns the bytes it stored, their
  number, and the block to go on with.
\<close>

definition read_first :: "'m tegrabl_bdev \<Rightarrow> u64 \<Rightarrow> off_t \<Rightarrow> off_t \<Rightarrow> bnum_t \<Rightarrow> 'm \<Rightarrow> (bytes \<times> u64 \<times> bnum_t) result \<times> 'm" where
  "read_first dev pbuf offset len block m =
     (let k = block_size_log2 dev
      in if MOD_LOG2 offset k \<noteq> 0 then
           bindE (tegrabl_blockdev_read_block (Some dev) pbuf block 1 m) (\<lambda>data m1.
             let block_offset = MOD_LOG2 offset k;
                 tocopy = MIN64 (TEGRABL_BLOCKDEV_BLOCK_SIZE dev - block_offset) len
             in (Inr (take (unat tocopy) (drop (unat block_offset) data), tocopy, block + 1), m1))
         else (Inr ([], 0, block), m))"

definition read_middle ::
  "(u64 \<Rightarrow> u64) \<Rightarrow> 'm tegrabl_bdev \<Rightarrow> u64 \<Rightarrow> off_t \<Rightarrow> bnum_t \<Rightarrow> 'm \<Rightarrow> (bytes \<times> u64 \<times> bnum_t) result \<times> 'm" where
  "read_middle alloc dev buf len block m =
     (let k = block_size_log2 dev
      in if len \<ge> ucast (push_bit k 1 :: u32) then
           let blocks = DIV_FLOOR_LOG2 len k;
               bytes_n = push_bit k blocks
           in if bytes_n > len then (Inl (bdev_error 1 ERR_INVALID), m)
              else if \<not> tegrabl_blockdev_buffer_aligned dev buf then
                let temp_buf = alloc (blocks * TEGRABL_BLOCKDEV_BLOCK_SIZE dev)
                in if temp_buf = 0 then (Inl (bdev_error 1 ERR_NO_MEMORY), m)
                   else bindE (highest MOD_BLOCK_DEV
                                (tegrabl_blockdev_read_block (Some dev) temp_buf block (ucast blocks) m))
                     (\<lambda>data m1. (Inr (take (unat bytes_n) data, bytes_n, block + ucast blocks), m1))
              else bindE (highest MOD_BLOCK_DEV
                           (tegrabl_blockdev_read_block (Some dev) buf block (ucast blocks) m))
                     (\<lambda>data m1. (Inr (data, bytes_n, block + ucast blocks), m1))
         else (Inr ([], 0, block), m))"

definition read_last :: "'m tegrabl_bdev \<Rightarrow> u64 \<Rightarrow> off_t \<Rightarrow> bnum_t \<Rightarrow> 'm \<Rightarrow> bytes result \<times> 'm" where
  "read_last dev pbuf len block m =
     (if len > 0 then
        bindE (highest MOD_BLOCK_DEV (tegrabl_blockdev_read_block (Some dev) pbuf block 1 m))
          (\<lambda>data m1. (Inr (take (unat len) data), m1))
      else (Inr [], m))"

definition read_rest ::
  "(u64 \<Rightarrow> u64) \<Rightarrow> 'm tegrabl_bdev \<Rightarrow> u64 \<Rightarrow> u64 \<Rightarrow> off_t \<Rightarrow> bnum_t \<Rightarrow> 'm \<Rightarrow> bytes result \<times> 'm" where
  "read_rest alloc dev pbuf buf len block m =
     bindE (read_middle alloc dev buf len block m) (\<lambda>(d2, n2, block2) m2.
       bindE (read_last dev pbuf (len - n2) block2 m2) (\<lambda>d3 m3. (Inr (d2 @ d3), m3)))"

definition tegrabl_blockdev_default_read ::
  "(u64 \<Rightarrow> u64) \<Rightarrow> 'm tegrabl_bdev \<Rightarrow> u64 \<Rightarrow> off_t \<Rightarrow> off_t \<Rightarrow> 'm \<Rightarrow> bytes result \<times> 'm" where
  "tegrabl_blockdev_default_read alloc dev buf offset len m =
     (if buf = 0 then (Inl (bdev_error 0 ERR_INVALID), m)
      else
        let k = block_size_log2 dev;
            partial = (MOD_LOG2 offset k \<noteq> 0 \<or> MOD_LOG2 len k \<noteq> 0);
            pbuf = (if partial then alloc (TEGRABL_BLOCKDEV_BLOCK_SIZE dev) else 0)
        in if partial \<and> pbuf = 0 then (Inl (bdev_error 0 ERR_NO_MEMORY), m)
           else
             bindE (read_first dev pbuf offset len (ucast (DIV_FLOOR_LOG2 offset k)) m) (\<lambda>(d1, n1, block1) m1.
               bindE (read_rest alloc dev pbuf (buf + n1) (len - n1) block1 m1) (\<lambda>d2 m2. (Inr (d1 @ d2), m2))))"


text \<open>
  The phases of \<^verbatim>\<open>tegrabl_blockdev_default_write\<close>; \<open>data\<close> is the rest of the caller's buffer. The result of
  writing the first block back is dropped: the code tests \<open>error\<close> without assigning it.
\<close>

definition write_first ::
  "'m tegrabl_bdev \<Rightarrow> u64 \<Rightarrow> bytes \<Rightarrow> off_t \<Rightarrow> off_t \<Rightarrow> bnum_t \<Rightarrow> 'm \<Rightarrow> (u64 \<times> bnum_t) result \<times> 'm" where
  "write_first dev pbuf data offset len block m =
     (let k = block_size_log2 dev
      in if MOD_LOG2 offset k \<noteq> 0 then
           bindE (highest MOD_BLOCK_DEV (tegrabl_blockdev_read_block (Some dev) pbuf block 1 m)) (\<lambda>old m1.
             let block_offset = MOD_LOG2 offset k;
                 tocopy = MIN64 (TEGRABL_BLOCKDEV_BLOCK_SIZE dev - block_offset) len;
                 new = take (unat block_offset) old @ take (unat tocopy) data @ drop (unat block_offset + unat tocopy) old;
                 (_, m2) = tegrabl_blockdev_write_block (Some dev) pbuf new block 1 m1
             in (Inr (tocopy, block + 1), m2))
         else (Inr (0, block), m))"

definition write_middle ::
  "(u64 \<Rightarrow> u64) \<Rightarrow> 'm tegrabl_bdev \<Rightarrow> u64 \<Rightarrow> bytes \<Rightarrow> off_t \<Rightarrow> bnum_t \<Rightarrow> 'm \<Rightarrow> (u64 \<times> bnum_t) result \<times> 'm" where
  "write_middle alloc dev buf data len block m =
     (let k = block_size_log2 dev
      in if len \<ge> ucast (push_bit k 1 :: u32) then
           let blocks = DIV_FLOOR_LOG2 len k;
               bytes_n = push_bit k blocks;
               chunk = take (unat bytes_n) data
           in if bytes_n > len then (Inl (bdev_error 3 ERR_INVALID), m)
              else if \<not> tegrabl_blockdev_buffer_aligned dev buf then
                let temp_buf = alloc (blocks * TEGRABL_BLOCKDEV_BLOCK_SIZE dev)
                in if temp_buf = 0 then (Inl (bdev_error 2 ERR_NO_MEMORY), m)
                   else bindE (highest MOD_BLOCK_DEV
                                (tegrabl_blockdev_write_block (Some dev) temp_buf chunk block (ucast blocks) m))
                     (\<lambda>_ m1. (Inr (bytes_n, block + ucast blocks), m1))
              else bindE (highest MOD_BLOCK_DEV
                           (tegrabl_blockdev_write_block (Some dev) buf chunk block (ucast blocks) m))
                     (\<lambda>_ m1. (Inr (bytes_n, block + ucast blocks), m1))
         else (Inr (0, block), m))"

definition write_last :: "'m tegrabl_bdev \<Rightarrow> u64 \<Rightarrow> bytes \<Rightarrow> off_t \<Rightarrow> bnum_t \<Rightarrow> 'm \<Rightarrow> unit result \<times> 'm" where
  "write_last dev pbuf data len block m =
     (if len > 0 then
        bindE (highest MOD_BLOCK_DEV (tegrabl_blockdev_read_block (Some dev) pbuf block 1 m)) (\<lambda>old m1.
          highest MOD_BLOCK_DEV
            (tegrabl_blockdev_write_block (Some dev) pbuf (take (unat len) data @ drop (unat len) old) block 1 m1))
      else (Inr (), m))"

definition write_rest ::
  "(u64 \<Rightarrow> u64) \<Rightarrow> 'm tegrabl_bdev \<Rightarrow> u64 \<Rightarrow> u64 \<Rightarrow> bytes \<Rightarrow> off_t \<Rightarrow> bnum_t \<Rightarrow> 'm \<Rightarrow> unit result \<times> 'm" where
  "write_rest alloc dev pbuf buf data len block m =
     bindE (write_middle alloc dev buf data len block m) (\<lambda>(n2, block2) m2.
       write_last dev pbuf (drop (unat n2) data) (len - n2) block2 m2)"

definition tegrabl_blockdev_default_write ::
  "(u64 \<Rightarrow> u64) \<Rightarrow> 'm tegrabl_bdev \<Rightarrow> u64 \<Rightarrow> bytes \<Rightarrow> off_t \<Rightarrow> off_t \<Rightarrow> 'm \<Rightarrow> unit result \<times> 'm" where
  "tegrabl_blockdev_default_write alloc dev buf data offset len m =
     (if buf = 0 then (Inl (bdev_error 2 ERR_INVALID), m)
      else
        let k = block_size_log2 dev;
            partial = (MOD_LOG2 offset k \<noteq> 0 \<or> MOD_LOG2 len k \<noteq> 0);
            pbuf = (if partial then alloc (TEGRABL_BLOCKDEV_BLOCK_SIZE dev) else 0)
        in if partial \<and> pbuf = 0 then (Inl (bdev_error 0 ERR_NO_MEMORY), m)
           else
             bindE (write_first dev pbuf data offset len (ucast (DIV_FLOOR_LOG2 offset k)) m) (\<lambda>(n1, block1) m1.
               write_rest alloc dev pbuf (buf + n1) (drop (unat n1) data) (len - n1) block1 m1))"

definition tegrabl_blockdev_read ::
  "(u64 \<Rightarrow> u64) \<Rightarrow> 'm tegrabl_bdev option \<Rightarrow> u64 \<Rightarrow> off_t \<Rightarrow> off_t \<Rightarrow> 'm \<Rightarrow> bytes result \<times> 'm" where
  "tegrabl_blockdev_read alloc dev buf offset len m =
     (case dev of None \<Rightarrow> (Inl (bdev_error 6 ERR_INVALID), m)
      | Some d \<Rightarrow>
          if len = 0 then (Inl (bdev_error 6 ERR_INVALID), m)
          else if ref d \<le> 0 then (Inl (bdev_error 7 ERR_INVALID), m)
          else if offset \<ge> dev_size d \<or> offset + len > dev_size d then (Inl (bdev_error 0 ERR_OVERFLOW), m)
          else highest MOD_BLOCK_DEV (tegrabl_blockdev_default_read alloc d buf offset len m))"

definition tegrabl_blockdev_write ::
  "(u64 \<Rightarrow> u64) \<Rightarrow> 'm tegrabl_bdev option \<Rightarrow> u64 \<Rightarrow> bytes \<Rightarrow> off_t \<Rightarrow> off_t \<Rightarrow> 'm \<Rightarrow> unit result \<times> 'm" where
  "tegrabl_blockdev_write alloc dev buf data offset len m =
     (case dev of None \<Rightarrow> (Inl (bdev_error 10 ERR_INVALID), m)
      | Some d \<Rightarrow>
          if len = 0 then (Inl (bdev_error 10 ERR_INVALID), m)
          else if ref d \<le> 0 then (Inl (bdev_error 11 ERR_INVALID), m)
          else if offset \<ge> dev_size d \<or> offset + len > dev_size d then (Inl (bdev_error 2 ERR_OVERFLOW), m)
          else highest MOD_BLOCK_DEV (tegrabl_blockdev_default_write alloc d buf data offset len m))"

definition tegrabl_blockdev_initialize_bdev ::
  "'m tegrabl_bdev option \<Rightarrow> u32 \<Rightarrow> nat \<Rightarrow> bnum_t \<Rightarrow> 'm tegrabl_bdev result" where
  "tegrabl_blockdev_initialize_bdev dev dev_id bs_log2 blocks =
     (case dev of None \<Rightarrow> Inl (bdev_error 18 ERR_INVALID)
      | Some d \<Rightarrow> Inr (d\<lparr>device_id := dev_id, block_size_log2 := bs_log2, block_count := blocks,
                          dev_size := push_bit bs_log2 (ucast blocks), ref := 0,
                          read_block := None, write_block := None, erase_blocks := None, close_hook := None\<rparr>))"


section \<open>The registered devices\<close>

text \<open>
  \<open>devices\<close> holds the device structures by address, \<open>bdevs\<close> the addresses on the list in its order (\<open>None\<close> before
  \<^verbatim>\<open>tegrabl_blockdev_init\<close>). An operation that dereferences the missing list or a freed device is \<open>None\<close>.
\<close>

record 'm blockdev_env =
  bdevs :: "u64 list option"
  devices :: "u64 \<rightharpoonup> 'm tegrabl_bdev"
  xfer_id :: u32

definition list_in_list :: "'m blockdev_env \<Rightarrow> u64 \<Rightarrow> bool" where
  "list_in_list env h \<longleftrightarrow> (case bdevs env of None \<Rightarrow> False | Some hs \<Rightarrow> h \<in> set hs)"

definition bdev_inc_ref :: "'m tegrabl_bdev \<Rightarrow> 'm tegrabl_bdev" where
  "bdev_inc_ref dev = dev\<lparr>ref := ref dev + 1\<rparr>"

definition bdev_dec_ref :: "u64 \<Rightarrow> 'm blockdev_env \<Rightarrow> 'm \<Rightarrow> (unit result \<times> 'm blockdev_env \<times> 'm) option" where
  "bdev_dec_ref h env m =
     (case devices env h of None \<Rightarrow> None
      | Some d \<Rightarrow>
          let d1 = (if ref d > 0 then d\<lparr>ref := ref d - 1\<rparr> else d);
              env1 = env\<lparr>devices := (devices env)(h \<mapsto> d1)\<rparr>
          in if ref d = 1 then
               if list_in_list env h then Some (Inl (bdev_error 4 ERR_INVALID), env1, m)
               else Some (Inr (), env1\<lparr>devices := (devices env1)(h := None)\<rparr>,
                          case close_hook d1 of Some f \<Rightarrow> f m | None \<Rightarrow> m)
             else Some (Inr (), env1, m))"

fun open_scan :: "u32 \<Rightarrow> u64 list \<Rightarrow> (u64 \<rightharpoonup> 'm tegrabl_bdev) \<Rightarrow> u64 option option" where
  "open_scan dev_id [] st = Some None"
| "open_scan dev_id (h # hs) st =
     (case st h of None \<Rightarrow> None
      | Some e \<Rightarrow> if ref e \<le> 0 then Some None
                  else if device_id e = dev_id then Some (Some h)
                  else open_scan dev_id hs st)"

definition tegrabl_blockdev_open :: "u32 \<Rightarrow> u32 \<Rightarrow> 'm blockdev_env \<Rightarrow> (u64 option \<times> 'm blockdev_env) option" where
  "tegrabl_blockdev_open storage_type instance_no env =
     (if storage_type \<ge> 10 then Some (None, env)
      else case bdevs env of None \<Rightarrow> None
      | Some hs \<Rightarrow>
          (case open_scan (TEGRABL_BLOCK_DEVICE_ID storage_type instance_no) hs (devices env) of
             None \<Rightarrow> None
           | Some None \<Rightarrow> Some (None, env)
           | Some (Some h) \<Rightarrow> Some (Some h, env\<lparr>devices := (devices env)(h := map_option bdev_inc_ref (devices env h))\<rparr>)))"

fun list_next :: "u64 list \<Rightarrow> u64 \<Rightarrow> u64 option" where
  "list_next (x # y # hs) h = (if x = h then Some y else list_next (y # hs) h)"
| "list_next hs h = None"

definition tegrabl_blockdev_next_device :: "u64 option \<Rightarrow> 'm blockdev_env \<Rightarrow> u64 option option" where
  "tegrabl_blockdev_next_device curr_bdev env =
     (case bdevs env of None \<Rightarrow> None
      | Some hs \<Rightarrow>
          (case curr_bdev of
             None \<Rightarrow> Some (case hs of [] \<Rightarrow> None | h # _ \<Rightarrow> Some h)
           | Some h \<Rightarrow> if devices env h = None then None else Some (list_next hs h)))"

definition tegrabl_blockdev_close :: "u64 option \<Rightarrow> 'm blockdev_env \<Rightarrow> 'm \<Rightarrow> (unit result \<times> 'm blockdev_env \<times> 'm) option" where
  "tegrabl_blockdev_close dev env m =
     (case dev of None \<Rightarrow> Some (Inl (bdev_error 5 ERR_INVALID), env, m)
      | Some h \<Rightarrow> (case bdev_dec_ref h env m of None \<Rightarrow> None | Some (_, env1, m1) \<Rightarrow> Some (Inr (), env1, m1)))"

fun duplicate_scan :: "u32 \<Rightarrow> u64 list \<Rightarrow> (u64 \<rightharpoonup> 'm tegrabl_bdev) \<Rightarrow> bool option" where
  "duplicate_scan dev_id [] st = Some False"
| "duplicate_scan dev_id (h # hs) st =
     (case st h of None \<Rightarrow> None
      | Some e \<Rightarrow> if device_id e = dev_id then Some True else duplicate_scan dev_id hs st)"

definition tegrabl_blockdev_register_device :: "u64 option \<Rightarrow> 'm blockdev_env \<Rightarrow> (unit result \<times> 'm blockdev_env) option" where
  "tegrabl_blockdev_register_device dev env =
     (case dev of None \<Rightarrow> Some (Inl (bdev_error 20 ERR_INVALID), env)
      | Some h \<Rightarrow>
          (case devices env h of None \<Rightarrow> None
           | Some d \<Rightarrow>
               let env1 = env\<lparr>devices := (devices env)(h \<mapsto> bdev_inc_ref d)\<rparr>
               in case bdevs env1 of None \<Rightarrow> None
                  | Some hs \<Rightarrow>
                      (case duplicate_scan (device_id d) hs (devices env1) of None \<Rightarrow> None
                       | Some True \<Rightarrow> Some (Inl (bdev_error 0 ERR_ALREADY_EXISTS), env1)
                       | Some False \<Rightarrow> Some (Inr (), env1\<lparr>bdevs := Some (hs @ [h])\<rparr>))))"

text \<open>\<^verbatim>\<open>list_delete\<close> follows the links of the node, which are null when it is on no list.\<close>

definition tegrabl_blockdev_unregister_device ::
  "u64 option \<Rightarrow> 'm blockdev_env \<Rightarrow> 'm \<Rightarrow> (unit result \<times> 'm blockdev_env \<times> 'm) option" where
  "tegrabl_blockdev_unregister_device dev env m =
     (case dev of None \<Rightarrow> Some (Inl (bdev_error 21 ERR_INVALID), env, m)
      | Some h \<Rightarrow>
          if devices env h = None \<or> \<not> list_in_list env h then None
          else case bdev_dec_ref h (env\<lparr>bdevs := map_option (remove1 h) (bdevs env)\<rparr>) m of
                 None \<Rightarrow> None | Some (_, env1, m1) \<Rightarrow> Some (Inr (), env1, m1))"

definition tegrabl_blockdev_init :: "bool \<Rightarrow> 'm blockdev_env \<Rightarrow> unit result \<times> 'm blockdev_env" where
  "tegrabl_blockdev_init malloc_ok env =
     (if bdevs env \<noteq> None then (Inr (), env)
      else if \<not> malloc_ok then (Inl (bdev_error 2 ERR_NO_MEMORY), env)
      else (Inr (), env\<lparr>bdevs := Some []\<rparr>))"

definition tegrabl_blockdev_get_name :: "u32 \<Rightarrow> string option" where
  "tegrabl_blockdev_get_name t =
     (let storage_name = [''SDMMC_BOOT'', ''SDMMC_USER'', ''SDMMC_RPMB'', ''QSPI_FLASH'', ''SATA'', ''USB_MS'',
                          ''SDCARD'', ''UFS'', ''UFS_USER'', ''UFS_RPMB'']
      in if t \<ge> 10 then None else Some (storage_name ! unat t))"

definition tegrabl_blockdev_ioctl ::
  "'m tegrabl_bdev option \<Rightarrow> u32 \<Rightarrow> bytes option \<Rightarrow> 'm \<Rightarrow> (bytes result \<times> 'm) option" where
  "tegrabl_blockdev_ioctl dev ioctl args m =
     (case (dev, args) of
        (Some d, Some a) \<Rightarrow>
          if ioctl \<ge> 9 then Some (Inl (bdev_error 17 ERR_INVALID), m)
          else if ioctl = 0 then Some (Inr (le_bytes 8 (TEGRABL_BLOCKDEV_BLOCK_SIZE d) @ drop 8 a), m)
          else map_option (\<lambda>f. highest MOD_BLOCK_DEV (f ioctl a m)) (ioctl_hook d)
      | _ \<Rightarrow> Some (Inl (bdev_error 17 ERR_INVALID), m))"

text \<open>An asynchronous transfer: \<open>xfer\<close> is the caller's structure, \<open>None\<close> for a null pointer.\<close>

definition tegrabl_blockdev_xfer ::
  "xfer_info option \<Rightarrow> 'm blockdev_env \<Rightarrow> 'm \<Rightarrow> (xfer_info result \<times> 'm blockdev_env \<times> 'm) option" where
  "tegrabl_blockdev_xfer xfer env m =
     (case xfer of None \<Rightarrow> Some (Inl (bdev_error 22 ERR_INVALID), env, m)
      | Some x \<Rightarrow>
          if xfer_dev x = 0 then Some (Inl (bdev_error 22 ERR_INVALID), env, m)
          else case devices env (xfer_dev x) of None \<Rightarrow> None
          | Some d \<Rightarrow>
              if \<not> block_in_range d (start_block x) (xfer_count x) then Some (Inl (bdev_error 5 ERR_OVERFLOW), env, m)
              else if ref d \<le> 0 then Some (Inl (bdev_error 23 ERR_INVALID), env, m)
              else case xfer_hook d of None \<Rightarrow> None
              | Some f \<Rightarrow> (case f x m of
                    (Inl e, _, m1) \<Rightarrow> Some (Inl (tegrabl_err_set_highest_module e MOD_BLOCK_DEV), env, m1)
                  | (Inr _, x1, m1) \<Rightarrow> Some (Inr (x1\<lparr>xid := xfer_id env\<rparr>), env\<lparr>xfer_id := xfer_id env + 1\<rparr>, m1)))"

definition tegrabl_blockdev_xfer_wait ::
  "xfer_info option \<Rightarrow> u64 \<Rightarrow> 'm blockdev_env \<Rightarrow> 'm \<Rightarrow> (u8 result \<times> 'm) option" where
  "tegrabl_blockdev_xfer_wait xfer timeout env m =
     (case xfer of None \<Rightarrow> Some (Inl (bdev_error 24 ERR_INVALID), m)
      | Some x \<Rightarrow>
          if xfer_dev x = 0 then Some (Inl (bdev_error 24 ERR_INVALID), m)
          else case devices env (xfer_dev x) of None \<Rightarrow> None
          | Some d \<Rightarrow> (case xfer_wait_hook d of None \<Rightarrow> None
              | Some f \<Rightarrow> (case f x timeout m of
                    (Inl e, _, m1) \<Rightarrow> Some (Inl (tegrabl_err_set_highest_module e MOD_BLOCK_DEV), m1)
                  | (Inr st, _, m1) \<Rightarrow> Some (Inr st, m1))))"

end
