(* ===== verification/Cboot_Blockio.thy ===== *)
theory Cboot_Blockio
  imports Cboot_Blockdev
begin

text \<open>
  Byte transfers over a block device are exact: under the contract of a block driver, a read returns the
  bytes of the medium and a write replaces those bytes and no others, for every alignment of the offset, of the
  length and of the caller's buffer. The contract is the locale \<open>block_device\<close>; what a client gets from it is the
  locale \<open>byte_store\<close>.
\<close>

lemma unat_push_bit64: "unat (push_bit k x :: u64) = (unat x * 2 ^ k) mod 2 ^ 64"
  unfolding unsigned_push_bit_eq take_bit_eq_mod by (simp add: push_bit_eq_mult)

lemma unat_ucast_32_64: "unat (ucast (x :: u32) :: u64) = unat x"
  using unsigned_less [of x, where 'a = nat] by (simp add: unsigned_ucast_eq take_bit_nat_eq_self_iff)

lemma take_drop_block:
  assumes "r + t \<le> B"
  shows "take t (drop r (take B (drop x xs))) = take t (drop (x + r) xs)"
proof -
  have "drop r (take B (drop x xs)) = take (B - r) (drop (x + r) xs)"
    by (simp add: drop_take add.commute)
  with assms show ?thesis by (simp add: min_absorb1)
qed

lemma word_of_unat_eq: "unat (x :: u64) = n \<Longrightarrow> x = of_nat n"
  by auto

text \<open>A transfer at position \<open>p\<close> starts with the bytes up to the next block boundary.\<close>

definition head_len :: "nat \<Rightarrow> nat \<Rightarrow> nat \<Rightarrow> nat" where
  "head_len B p l = (if p mod B = 0 then 0 else min (B - p mod B) l)"

lemma head_len_le: "head_len B p l \<le> l"
  by (simp add: head_len_def)

lemma next_boundary:
  fixes p B :: nat
  assumes "0 < B"
  shows "p + (B - p mod B) = (p div B + 1) * B"
proof -
  have "p = p div B * B + p mod B" "p mod B < B" using assms by simp_all
  moreover have "(p div B + 1) * B = p div B * B + B" by simp
  ultimately show ?thesis by linarith
qed

lemma head_aligned:
  assumes "0 < B" "head_len B p l < l"
  shows "(p + head_len B p l) mod B = 0"
    and "(p + head_len B p l) div B = (if p mod B = 0 then p div B else p div B + 1)"
proof -
  have "p mod B \<noteq> 0 \<Longrightarrow> p + head_len B p l = (p div B + 1) * B"
    using next_boundary [OF assms(1), of p] assms(2) by (simp add: head_len_def min_def split: if_splits)
  moreover have "p mod B = 0 \<Longrightarrow> head_len B p l = 0" by (simp add: head_len_def)
  ultimately show "(p + head_len B p l) mod B = 0"
    "(p + head_len B p l) div B = (if p mod B = 0 then p div B else p div B + 1)"
    using assms(1) by (cases "p mod B = 0"; simp del: mult_Suc)+
qed

definition patch_at :: "nat \<Rightarrow> bytes \<Rightarrow> bytes \<Rightarrow> bytes" where
  "patch_at off data xs = take off xs @ data @ drop (off + length data) xs"

lemma length_patch_at: "x + length d \<le> length xs \<Longrightarrow> length (patch_at x d xs) = length xs"
  by (simp add: patch_at_def)

lemma patch_at_Nil [simp]: "patch_at x [] xs = xs"
  by (simp add: patch_at_def)

lemma patch_at_append:
  "x + length a + length b \<le> length xs \<Longrightarrow> patch_at (x + length a) b (patch_at x a xs) = patch_at x (a @ b) xs"
  by (simp add: patch_at_def ac_simps)

lemma patch_at_elsewhere:
  assumes "x + length d \<le> length xs" "q + l \<le> x \<or> x + length d \<le> q"
  shows "take l (drop q (patch_at x d xs)) = take l (drop q xs)"
  using assms(2)
proof
  assume "q + l \<le> x"
  with assms(1) have "take (q + l) (patch_at x d xs) = take (q + l) xs" by (simp add: patch_at_def min_absorb1)
  then show ?thesis by (simp only: take_drop add.commute [of l q])
next
  assume "x + length d \<le> q"
  with assms(1) show ?thesis by (simp add: patch_at_def drop_append min_absorb2)
qed

lemma patch_at_block:
  assumes "r + length d \<le> B" "x + B \<le> length xs"
  shows "patch_at x (take r (take B (drop x xs)) @ d @ drop (r + length d) (take B (drop x xs))) xs = patch_at (x + r) d xs"
proof -
  have "take (x + r) xs = take x xs @ take r (drop x xs)" by (simp add: take_add)
  moreover have "drop (r + length d) (take B (drop x xs)) @ drop (x + B) xs = drop (x + r + length d) xs"
  proof -
    have "take (B - (r + length d)) (drop (x + r + length d) xs) @ drop (x + B) xs = drop (x + r + length d) xs"
      using assms append_take_drop_id [of "B - (r + length d)" "drop (x + r + length d) xs"]
      by (simp add: add.commute add.left_commute)
    then show ?thesis by (simp add: drop_take add.commute add.left_commute)
  qed
  ultimately show ?thesis
    using assms by (simp add: patch_at_def min_absorb1 min_absorb2)
qed

section \<open>The contract of a block driver\<close>

text \<open>
  What the sources rely on in a driver's block hooks: \<open>contents\<close> is the data on the medium, a block read
  returns the blocks and leaves the medium alone, a block write replaces exactly the blocks written. The
  device is open and its geometry is that set by \<^verbatim>\<open>tegrabl_blockdev_initialize_bdev\<close>.
\<close>

definition driver_ok :: "'m tegrabl_bdev \<Rightarrow> ('m \<Rightarrow> bytes) \<Rightarrow> bool" where
  "driver_ok dev contents \<longleftrightarrow>
     block_size_log2 dev < 32 \<and> 0 < ref dev \<and>
     dev_size dev = push_bit (block_size_log2 dev) (ucast (block_count dev)) \<and>
     (\<forall>m. length (contents m) = unat (block_count dev) * 2 ^ block_size_log2 dev) \<and>
     (\<exists>f. read_block dev = Some f \<and>
        (\<forall>buf b c m. buf \<noteq> 0 \<longrightarrow> 0 < c \<longrightarrow> unat b + unat c \<le> unat (block_count dev) \<longrightarrow>
           f buf b c m = (Inr (take (unat c * 2 ^ block_size_log2 dev)
                            (drop (unat b * 2 ^ block_size_log2 dev) (contents m))), m))) \<and>
     (\<exists>f. write_block dev = Some f \<and>
        (\<forall>buf data b c m. buf \<noteq> 0 \<longrightarrow> 0 < c \<longrightarrow> unat b + unat c \<le> unat (block_count dev) \<longrightarrow>
           length data = unat c * 2 ^ block_size_log2 dev \<longrightarrow>
           (\<exists>m'. f buf data b c m = (Inr (), m') \<and>
              contents m' = patch_at (unat b * 2 ^ block_size_log2 dev) data (contents m))))"

definition alloc_ok :: "(u64 \<Rightarrow> u64) \<Rightarrow> 'm tegrabl_bdev \<Rightarrow> bool" where
  "alloc_ok alloc dev \<longleftrightarrow> (\<forall>n. alloc n \<noteq> 0 \<and> tegrabl_blockdev_buffer_aligned dev (alloc n))"

locale block_device =
  fixes dev :: "'m tegrabl_bdev" and contents :: "'m \<Rightarrow> bytes" and alloc :: "u64 \<Rightarrow> u64"
  assumes driver: "driver_ok dev contents" and heap: "alloc_ok alloc dev"
begin

abbreviation "K \<equiv> block_size_log2 dev"
abbreviation "B \<equiv> (2 :: nat) ^ block_size_log2 dev"
abbreviation "N \<equiv> unat (block_count dev)"

lemma K_lt: "K < 32" using driver by (simp add: driver_ok_def)

lemma contents_length: "length (contents m) = N * B" using driver by (simp add: driver_ok_def)

lemma N_lt: "N < 2 ^ 32" using unsigned_less [of "block_count dev", where 'a = nat] by simp

lemma B_le: "B \<le> 2 ^ 31"
  using K_lt power_increasing [of K 31 "2 :: nat"] by simp

lemma size_bound: "N * B < 2 ^ 64"
proof -
  have "N * B \<le> (2 ^ 32 - 1) * 2 ^ 31" using N_lt B_le by (intro mult_le_mono) simp_all
  then show ?thesis by simp
qed

lemma unat_dev_size: "unat (dev_size dev) = N * B"
  using driver size_bound by (simp add: driver_ok_def unat_push_bit64 unat_ucast_32_64)

lemma unat_block_size: "unat (TEGRABL_BLOCKDEV_BLOCK_SIZE dev) = B"
  using B_le by (simp only: TEGRABL_BLOCKDEV_BLOCK_SIZE_def unat_push_bit64) simp

lemma unat_block_size32: "unat (ucast (push_bit K 1 :: u32) :: u64) = B"
proof -
  have "unat (push_bit K 1 :: u32) = B mod 2 ^ 32"
    unfolding unsigned_push_bit_eq take_bit_eq_mod by (simp add: push_bit_eq_mult)
  then show ?thesis using B_le by (simp only: unat_ucast_32_64) simp
qed

lemma read_blocks:
  assumes "tegrabl_blockdev_buffer_aligned dev buf" "buf \<noteq> 0" "0 < c" "b + c \<le> N"
  shows "tegrabl_blockdev_read_block (Some dev) buf (of_nat b) (of_nat c) m =
     (Inr (take (c * B) (drop (b * B) (contents m))), m)"
proof -
  have lt: "b < 2 ^ 32" "c < 2 ^ 32" "b + c < 2 ^ 32" using assms(4) N_lt by linarith+
  then have u: "unat (of_nat b :: u32) = b" "unat (of_nat c :: u32) = c" "unat (of_nat b + of_nat c :: u32) = b + c"
    by (simp_all flip: of_nat_add)
  have c0: "(of_nat c :: u32) \<noteq> 0" "0 < (of_nat c :: u32)"
    using u(2) assms(3) by (auto simp: word_gt_0 word_unat_eq_iff)
  have rng: "block_in_range dev (of_nat b) (of_nat c)"
    using u assms(4) by (simp add: block_in_range_def word_less_nat_alt)
  obtain f where f: "read_block dev = Some f"
    and law: "\<forall>buf b c m. buf \<noteq> 0 \<longrightarrow> 0 < c \<longrightarrow> unat b + unat c \<le> N \<longrightarrow>
       f buf b c m = (Inr (take (unat c * B) (drop (unat b * B) (contents m))), m)"
    using driver unfolding driver_ok_def by blast
  have "f buf (of_nat b) (of_nat c) m = (Inr (take (c * B) (drop (b * B) (contents m))), m)"
    using law [rule_format, OF assms(2) c0(2), of "of_nat b" m] u(1,2) assms(4) by simp
  moreover have "ref dev > 0" using driver by (simp add: driver_ok_def)
  ultimately show ?thesis
    using f rng c0(1) assms(1) by (simp add: tegrabl_blockdev_read_block_def not_le)
qed

lemma write_blocks:
  assumes "tegrabl_blockdev_buffer_aligned dev buf" "buf \<noteq> 0" "0 < c" "b + c \<le> N" "length data = c * B"
  shows "\<exists>m'. tegrabl_blockdev_write_block (Some dev) buf data (of_nat b) (of_nat c) m = (Inr (), m') \<and>
     contents m' = patch_at (b * B) data (contents m)"
proof -
  have lt: "b < 2 ^ 32" "c < 2 ^ 32" "b + c < 2 ^ 32" using assms(4) N_lt by linarith+
  then have u: "unat (of_nat b :: u32) = b" "unat (of_nat c :: u32) = c" "unat (of_nat b + of_nat c :: u32) = b + c"
    by (simp_all flip: of_nat_add)
  have c0: "(of_nat c :: u32) \<noteq> 0" "0 < (of_nat c :: u32)"
    using u(2) assms(3) by (auto simp: word_gt_0 word_unat_eq_iff)
  have rng: "block_in_range dev (of_nat b) (of_nat c)"
    using u assms(4) by (simp add: block_in_range_def word_less_nat_alt)
  obtain f where f: "write_block dev = Some f"
    and law: "\<forall>buf data b c m. buf \<noteq> 0 \<longrightarrow> 0 < c \<longrightarrow> unat b + unat c \<le> N \<longrightarrow> length data = unat c * B \<longrightarrow>
       (\<exists>m'. f buf data b c m = (Inr (), m') \<and> contents m' = patch_at (unat b * B) data (contents m))"
    using driver unfolding driver_ok_def by blast
  obtain m' where "f buf data (of_nat b) (of_nat c) m = (Inr (), m')" "contents m' = patch_at (b * B) data (contents m)"
    using law [rule_format, OF assms(2) c0(2), of "of_nat b" data m] u(1,2) assms(4,5) by auto
  moreover have "ref dev > 0" using driver by (simp add: driver_ok_def)
  ultimately show ?thesis
    using f rng c0(1) assms(1,2) by (simp add: tegrabl_blockdev_write_block_def not_le)
qed

lemma first_block:
  fixes offset :: u64
  shows "(ucast (DIV_FLOOR_LOG2 offset K) :: u32) = of_nat (unat offset div B)"
proof -
  have "(of_nat (unat (DIV_FLOOR_LOG2 offset K)) :: u32) = ucast (DIV_FLOOR_LOG2 offset K)"
    by (simp only: of_nat_unat)
  then show ?thesis by (simp only: unat_DIV_FLOOR_LOG2)
qed

lemma tocopy_eq:
  "unat (MIN64 (TEGRABL_BLOCKDEV_BLOCK_SIZE dev - MOD_LOG2 offset K) len) = min (B - unat offset mod B) (unat len)"
proof -
  have "unat offset mod B < B" by simp
  then have "unat (TEGRABL_BLOCKDEV_BLOCK_SIZE dev - MOD_LOG2 offset K) = B - unat offset mod B"
    by (subst unat_sub) (simp_all add: word_le_nat_alt unat_block_size unat_MOD_LOG2)
  then show ?thesis by (simp add: unat_MIN64)
qed

lemma mod_log2_zero: "MOD_LOG2 offset K = 0 \<longleftrightarrow> unat offset mod B = 0"
  by (simp add: word_unat_eq_iff unat_MOD_LOG2)

lemma read_first_ok:
  assumes "tegrabl_blockdev_buffer_aligned dev pbuf \<and> pbuf \<noteq> 0 \<or> unat offset mod B = 0"
    and "unat offset + unat len \<le> N * B" "0 < len"
  shows "read_first dev pbuf offset len (ucast (DIV_FLOOR_LOG2 offset K)) m =
     (Inr (take (head_len B (unat offset) (unat len)) (drop (unat offset) (contents m)),
           of_nat (head_len B (unat offset) (unat len)),
           if unat offset mod B = 0 then of_nat (unat offset div B) else of_nat (unat offset div B + 1)), m)"
proof (cases "unat offset mod B = 0")
  case True
  then show ?thesis by (simp add: read_first_def mod_log2_zero first_block head_len_def)
next
  case False
  let ?o = "unat offset" and ?t = "min (B - unat offset mod B) (unat len)"
  have t: "MIN64 (TEGRABL_BLOCKDEV_BLOCK_SIZE dev - MOD_LOG2 offset K) len = of_nat ?t"
    by (rule word_of_unat_eq) (rule tocopy_eq)
  have "?o < N * B" using assms(2,3) by (auto simp: word_gt_0 word_less_nat_alt)
  then have "?o div B < N" by (simp add: less_mult_imp_div_less)
  then have "tegrabl_blockdev_read_block (Some dev) pbuf (of_nat (?o div B)) (of_nat 1) m =
      (Inr (take (1 * B) (drop (?o div B * B) (contents m))), m)"
    using assms(1) False by (intro read_blocks) auto
  moreover have "take ?t (drop (?o mod B) (take B (drop (?o div B * B) (contents m)))) = take ?t (drop ?o (contents m))"
  proof -
    have "?o mod B < B" by simp
    then have "?o mod B + ?t \<le> B" by linarith
    from take_drop_block [OF this, of "?o div B * B" "contents m"] show ?thesis by (simp only: div_mult_mod_eq)
  qed
  moreover have "unat (of_nat ?t :: u64) = ?t" using unat_lt64 [of len] by simp
  ultimately show ?thesis
    using False by (simp add: read_first_def mod_log2_zero first_block head_len_def t unat_MOD_LOG2 Let_def)
qed

lemma at_least_a_block: "ucast (push_bit K 1 :: u32) \<le> (len :: u64) \<longleftrightarrow> B \<le> unat len"
  by (simp only: word_le_nat_alt unat_block_size32)

lemmas at_least_a_block' = at_least_a_block [unfolded push_bit_of_1]

lemma read_middle_ok:
  assumes "p + unat len \<le> N * B" "B \<le> unat len \<Longrightarrow> p mod B = 0" "buf \<noteq> 0"
  shows "read_middle alloc dev buf len (of_nat (p div B)) m =
     (Inr (take (unat len div B * B) (drop p (contents m)), of_nat (unat len div B * B),
           of_nat (p div B + unat len div B)), m)"
proof (cases "B \<le> unat len")
  case False
  then show ?thesis by (simp add: read_middle_def at_least_a_block')
next
  case True
  define c where "c = unat len div B"
  have c: "0 < c" "c * B \<le> unat len" using True by (simp_all add: c_def div_greater_zero_iff)
  have p: "p div B * B = p" using assms(2) [OF True] by (simp add: div_mult_mod_eq mod_0_imp_dvd)
  have pc: "p div B + c \<le> N"
  proof -
    have "(p div B + c) * B \<le> N * B" using p c(2) assms(1) by (simp add: add_mult_distrib)
    then show ?thesis by simp
  qed
  have lt: "c * B < 2 ^ 64" using c(2) unat_lt64 [of len] by linarith
  have blocks: "unat (DIV_FLOOR_LOG2 len K) = c" by (simp add: unat_DIV_FLOOR_LOG2 c_def)
  have cnt: "(ucast (DIV_FLOOR_LOG2 len K) :: u32) = of_nat c" by (simp only: first_block c_def)
  have nb: "push_bit K (DIV_FLOOR_LOG2 len K) = of_nat (c * B)"
    by (rule word_of_unat_eq) (use lt in \<open>simp add: unat_push_bit64 blocks\<close>)
  have le: "\<not> len < of_nat (c * B)" using c(2) lt by (simp add: word_less_nat_alt del: of_nat_mult)
  have read: "tegrabl_blockdev_read_block (Some dev) b (of_nat (p div B)) (of_nat c) m =
      (Inr (take (c * B) (drop p (contents m))), m)" if "tegrabl_blockdev_buffer_aligned dev b" "b \<noteq> 0" for b
    using read_blocks [OF that c(1) pc] by (simp only: p)
  have "alloc n \<noteq> 0" "tegrabl_blockdev_buffer_aligned dev (alloc n)" for n
    using heap by (simp_all add: alloc_ok_def)
  then show ?thesis
    using True le lt assms(3)
    by (cases "tegrabl_blockdev_buffer_aligned dev buf")
      (simp_all add: read_middle_def at_least_a_block' Let_def nb cnt read c_def [symmetric] del: of_nat_mult of_nat_add, simp_all)
qed

lemma read_last_ok:
  assumes "tegrabl_blockdev_buffer_aligned dev pbuf \<and> pbuf \<noteq> 0 \<or> len = 0"
    and "p + unat len \<le> N * B" "unat len < B" "0 < unat len \<Longrightarrow> p mod B = 0"
  shows "read_last dev pbuf len (of_nat (p div B)) m = (Inr (take (unat len) (drop p (contents m))), m)"
proof (cases "len = 0")
  case False
  then have l: "0 < unat len" "len > 0" by (simp_all add: word_gt_0 unat_gt_0)
  then have p: "p div B * B = p" using assms(4) by (simp add: mod_0_imp_dvd)
  have "p < N * B" using assms(2) l(1) by linarith
  then have "p div B < N" by (simp add: less_mult_imp_div_less)
  then have "tegrabl_blockdev_read_block (Some dev) pbuf (of_nat (p div B)) (of_nat 1) m =
      (Inr (take (1 * B) (drop (p div B * B) (contents m))), m)"
    using assms(1) False by (intro read_blocks) auto
  then show ?thesis
    using l assms(3) by (simp add: read_last_def p min_absorb1 less_imp_le)
qed (simp add: read_last_def)

lemma partial_buffer:
  "tegrabl_blockdev_buffer_aligned dev (alloc n)" "alloc n \<noteq> 0"
  using heap by (simp_all add: alloc_ok_def)

lemma read_rest_nothing: "read_rest alloc dev pbuf buf 0 block m = (Inr [], m)"
  unfolding read_rest_def read_middle_def read_last_def Let_def at_least_a_block by simp

lemma read_rest_ok:
  assumes "p mod B = 0" "p + unat len \<le> N * B" "buf \<noteq> 0"
    and "tegrabl_blockdev_buffer_aligned dev pbuf \<and> pbuf \<noteq> 0 \<or> unat len mod B = 0"
  shows "read_rest alloc dev pbuf buf len (of_nat (p div B)) m = (Inr (take (unat len) (drop p (contents m))), m)"
proof -
  define c l2 where "c = unat len div B * B" and "l2 = unat len mod B"
  have cl: "unat len = c + l2" "l2 < B"
    unfolding c_def l2_def by (rule div_mult_mod_eq [symmetric], simp)
  have mid: "read_middle alloc dev buf len (of_nat (p div B)) m =
      (Inr (take c (drop p (contents m)), of_nat c, of_nat (p div B + unat len div B)), m)"
    unfolding c_def by (rule read_middle_ok) (use assms in simp_all)
  have len2: "unat (len - of_nat c) = l2" using cl by (subst unat_sub_of_nat) simp_all
  have blk: "p div B + unat len div B = (p + c) div B" "(p + c) mod B = 0"
    using assms(1) by (simp_all add: c_def)
  have "tegrabl_blockdev_buffer_aligned dev pbuf \<and> pbuf \<noteq> 0 \<or> len - of_nat c = 0"
    using assms(4) len2 by (auto simp: l2_def unat_eq_zero)
  then have last: "read_last dev pbuf (len - of_nat c) (of_nat ((p + c) div B)) m =
      (Inr (take l2 (drop (p + c) (contents m))), m)"
    using assms(2) cl blk(2) by (intro read_last_ok [where len = "len - of_nat c", unfolded len2]) simp_all
  have "take c (drop p (contents m)) @ take l2 (drop (p + c) (contents m)) = take (unat len) (drop p (contents m))"
    by (simp add: cl(1) take_add add.commute)
  then show ?thesis unfolding read_rest_def mid blk(1) by (simp add: last)
qed

text \<open>The allocation decision of the two byte transfers.\<close>

lemma partial_iff:
  "MOD_LOG2 offset K \<noteq> 0 \<or> MOD_LOG2 len K \<noteq> 0 \<longleftrightarrow> unat offset mod B \<noteq> 0 \<or> unat len mod B \<noteq> 0"
  by (simp only: mod_log2_zero)

lemma rest_len:
  fixes len :: u64
  shows "unat (len - of_nat (head_len B p (unat len))) = unat len - head_len B p (unat len)"
  by (rule unat_sub_of_nat) (rule head_len_le)

lemma rest_whole_blocks:
  "p mod B = 0 \<Longrightarrow> unat len mod B = 0 \<Longrightarrow> (unat len - head_len B p (unat len)) mod B = 0"
  by (simp add: head_len_def)

lemma buffer_advance: "unat buf + unat len < 2 ^ 64 \<Longrightarrow> buf \<noteq> 0 \<Longrightarrow> h \<le> unat len \<Longrightarrow> buf + of_nat h \<noteq> (0 :: u64)"
  using unat_add_of_nat [of buf h] by (auto simp: unat_gt_0)

lemma default_read_ok:
  assumes "unat buf + unat len < 2 ^ 64" "buf \<noteq> 0" "0 < len" "unat offset + unat len \<le> N * B"
  shows "tegrabl_blockdev_default_read alloc dev buf offset len m =
     (Inr (take (unat len) (drop (unat offset) (contents m))), m)"
proof -
  define o' h where "o' = unat offset" and "h = head_len B o' (unat len)"
  define pbuf where "pbuf = (if o' mod B \<noteq> 0 \<or> unat len mod B \<noteq> 0 then alloc (TEGRABL_BLOCKDEV_BLOCK_SIZE dev) else 0)"
  have first: "read_first dev pbuf offset len (ucast (DIV_FLOOR_LOG2 offset K)) m =
     (Inr (take h (drop o' (contents m)), of_nat h, if o' mod B = 0 then of_nat (o' div B) else of_nat (o' div B + 1)), m)"
    using read_first_ok [of pbuf offset len m] assms(3,4) partial_buffer
    by (simp add: o'_def h_def pbuf_def)
  have rest: "read_rest alloc dev pbuf (buf + of_nat h) (len - of_nat h)
        (if o' mod B = 0 then of_nat (o' div B) else of_nat (o' div B + 1)) m =
     (Inr (take (unat len - h) (drop (o' + h) (contents m))), m)"
  proof (cases "h < unat len")
    case False
    then have "len - of_nat h = 0" using rest_len [of len o'] by (simp add: h_def unat_eq_zero)
    with False show ?thesis by (simp add: read_rest_nothing)
  next
    case True
    note al = head_aligned [of B, OF _ True [unfolded h_def]]
    have "tegrabl_blockdev_buffer_aligned dev pbuf \<and> pbuf \<noteq> 0 \<or> (unat len - h) mod B = 0"
      using partial_buffer rest_whole_blocks [of o' len] by (simp add: pbuf_def h_def)
    moreover have "buf + of_nat h \<noteq> 0" using buffer_advance [OF assms(1,2)] head_len_le by (simp add: h_def)
    ultimately have "read_rest alloc dev pbuf (buf + of_nat h) (len - of_nat h) (of_nat ((o' + h) div B)) m =
       (Inr (take (unat len - h) (drop (o' + h) (contents m))), m)"
      using read_rest_ok [of "o' + h" "len - of_nat h" "buf + of_nat h" pbuf m] al(1) assms(4) True
      by (simp add: rest_len h_def o'_def)
    moreover have "(if o' mod B = 0 then of_nat (o' div B) else of_nat (o' div B + 1) :: u32) = of_nat ((o' + h) div B)"
      using al(2) by (simp add: h_def)
    ultimately show ?thesis by (simp only:)
  qed
  have pb: "(if MOD_LOG2 offset K \<noteq> 0 \<or> MOD_LOG2 len K \<noteq> 0 then alloc (TEGRABL_BLOCKDEV_BLOCK_SIZE dev) else 0) = pbuf"
    by (simp only: pbuf_def partial_iff o'_def)
  have nn: "\<not> ((MOD_LOG2 offset K \<noteq> 0 \<or> MOD_LOG2 len K \<noteq> 0) \<and> pbuf = 0)"
    using partial_buffer(2) by (simp add: pb [symmetric])
  have "h \<le> unat len" by (simp add: h_def head_len_le)
  then have "take h (drop o' (contents m)) @ take (unat len - h) (drop (o' + h) (contents m)) = take (unat len) (drop o' (contents m))"
    using take_add [of h "unat len - h" "drop o' (contents m)"] by (simp add: add.commute)
  with rest show ?thesis
    unfolding tegrabl_blockdev_default_read_def Let_def pb if_not_P [OF nn] if_not_P [OF assms(2)] first
    by (simp add: o'_def)
qed

lemma write_partial_block:
  assumes "tegrabl_blockdev_buffer_aligned dev pbuf" "pbuf \<noteq> 0" "q < N" "r + length d \<le> B"
  shows "\<exists>m'. tegrabl_blockdev_write_block (Some dev) pbuf
       (take r (take B (drop (q * B) (contents m))) @ d @ drop (r + length d) (take B (drop (q * B) (contents m))))
       (of_nat q) 1 m = (Inr (), m') \<and> contents m' = patch_at (q * B + r) d (contents m)"
proof -
  have "(q + 1) * B \<le> N * B" using assms(3) by (intro mult_le_mono1) simp
  then have len: "q * B + B \<le> length (contents m)" by (simp add: contents_length)
  let ?new = "take r (take B (drop (q * B) (contents m))) @ d @ drop (r + length d) (take B (drop (q * B) (contents m)))"
  have "length ?new = 1 * B" using len assms(4) by simp
  from write_blocks [OF assms(1,2) _ _ this, of q m] assms(3)
  show ?thesis using patch_at_block [OF assms(4) len] by auto
qed

lemma write_first_ok:
  assumes "tegrabl_blockdev_buffer_aligned dev pbuf \<and> pbuf \<noteq> 0 \<or> unat offset mod B = 0"
    and "unat offset + unat len \<le> N * B" "0 < len" "length data = unat len"
  shows "\<exists>m1. write_first dev pbuf data offset len (ucast (DIV_FLOOR_LOG2 offset K)) m =
     (Inr (of_nat (head_len B (unat offset) (unat len)),
           if unat offset mod B = 0 then of_nat (unat offset div B) else of_nat (unat offset div B + 1)), m1) \<and>
     contents m1 = patch_at (unat offset) (take (head_len B (unat offset) (unat len)) data) (contents m)"
proof (cases "unat offset mod B = 0")
  case True
  then show ?thesis by (simp add: write_first_def mod_log2_zero first_block head_len_def)
next
  case False
  let ?o = "unat offset" and ?t = "min (B - unat offset mod B) (unat len)"
  have t: "MIN64 (TEGRABL_BLOCKDEV_BLOCK_SIZE dev - MOD_LOG2 offset K) len = of_nat ?t"
    by (rule word_of_unat_eq) (rule tocopy_eq)
  have "?o < N * B" using assms(2,3) by (auto simp: word_gt_0 word_less_nat_alt)
  then have q: "?o div B < N" by (simp add: less_mult_imp_div_less)
  have read: "tegrabl_blockdev_read_block (Some dev) pbuf (of_nat (?o div B)) 1 m =
      (Inr (take B (drop (?o div B * B) (contents m))), m)"
    using read_blocks [of pbuf 1 "?o div B" m] q assms(1) False by auto
  have "?o mod B < B" by simp
  then have "?o mod B + ?t \<le> B" by linarith
  moreover have "length (take ?t data) = ?t" using assms(4) by simp
  ultimately obtain m1 where w: "tegrabl_blockdev_write_block (Some dev) pbuf
       (take (?o mod B) (take B (drop (?o div B * B) (contents m))) @ take ?t data @
        drop (?o mod B + ?t) (take B (drop (?o div B * B) (contents m)))) (of_nat (?o div B)) 1 m = (Inr (), m1)"
     "contents m1 = patch_at (?o div B * B + ?o mod B) (take ?t data) (contents m)"
    using write_partial_block [of pbuf "?o div B" "?o mod B" "take ?t data" m] q assms(1) False by auto
  have u: "unat (of_nat ?t :: u64) = ?t" using unat_lt64 [of len] by simp
  show ?thesis
    unfolding write_first_def mod_log2_zero Let_def t first_block read u unat_MOD_LOG2
    using False w by (simp only: highest.simps bindE.simps u w(1) div_mult_mod_eq head_len_def) auto
qed

lemma write_middle_ok:
  assumes "p + unat len \<le> N * B" "B \<le> unat len \<Longrightarrow> p mod B = 0" "length data = unat len" "buf \<noteq> 0"
  shows "\<exists>m'. write_middle alloc dev buf data len (of_nat (p div B)) m =
     (Inr (of_nat (unat len div B * B), of_nat (p div B + unat len div B)), m') \<and>
     contents m' = patch_at p (take (unat len div B * B) data) (contents m)"
proof (cases "B \<le> unat len")
  case False
  then show ?thesis by (simp add: write_middle_def at_least_a_block')
next
  case True
  define c where "c = unat len div B"
  have c: "0 < c" "c * B \<le> unat len" using True by (simp_all add: c_def div_greater_zero_iff)
  have p: "p div B * B = p" using assms(2) [OF True] by (simp add: div_mult_mod_eq mod_0_imp_dvd)
  have pc: "p div B + c \<le> N"
  proof -
    have "(p div B + c) * B \<le> N * B" using p c(2) assms(1) by (simp add: add_mult_distrib)
    then show ?thesis by simp
  qed
  have lt: "c * B < 2 ^ 64" using c(2) unat_lt64 [of len] by linarith
  have cnt: "(ucast (DIV_FLOOR_LOG2 len K) :: u32) = of_nat c" by (simp only: first_block c_def)
  have nb: "push_bit K (DIV_FLOOR_LOG2 len K) = of_nat (c * B)"
    by (rule word_of_unat_eq) (use lt in \<open>simp add: unat_push_bit64 unat_DIV_FLOOR_LOG2 c_def\<close>)
  have u: "unat (of_nat (c * B) :: u64) = c * B" using lt by (rule unat_of_nat64)
  have le: "\<not> len < of_nat (c * B)" using c(2) u by (simp add: word_less_nat_alt del: of_nat_mult)
  have "length (take (c * B) data) = c * B" using c(2) assms(3) by simp
  then have wr: "\<exists>m'. tegrabl_blockdev_write_block (Some dev) b (take (c * B) data) (of_nat (p div B)) (of_nat c) m = (Inr (), m') \<and>
      contents m' = patch_at p (take (c * B) data) (contents m)"
    if "tegrabl_blockdev_buffer_aligned dev b" "b \<noteq> 0" for b
    using write_blocks [OF that c(1) pc] by (simp only: p)
  define b where "b = (if tegrabl_blockdev_buffer_aligned dev buf then buf
     else alloc (DIV_FLOOR_LOG2 len K * TEGRABL_BLOCKDEV_BLOCK_SIZE dev))"
  have "tegrabl_blockdev_buffer_aligned dev b" "b \<noteq> 0" using partial_buffer assms(4) by (simp_all add: b_def)
  then obtain m' where m': "tegrabl_blockdev_write_block (Some dev) b (take (c * B) data) (of_nat (p div B)) (of_nat c) m = (Inr (), m')"
      "contents m' = patch_at p (take (c * B) data) (contents m)" using wr by blast
  have "write_middle alloc dev buf data len (of_nat (p div B)) m = (Inr (of_nat (c * B), of_nat (p div B) + of_nat c), m')"
    using m'(1) True le partial_buffer(2) unfolding write_middle_def Let_def nb cnt u at_least_a_block
    by (cases "tegrabl_blockdev_buffer_aligned dev buf") (simp_all add: b_def)
  with m'(2) show ?thesis by (simp add: c_def)
qed

lemma write_last_ok:
  assumes "tegrabl_blockdev_buffer_aligned dev pbuf \<and> pbuf \<noteq> 0 \<or> len = 0"
    and "p + unat len \<le> N * B" "unat len < B" "0 < unat len \<Longrightarrow> p mod B = 0" "length data = unat len"
  shows "\<exists>m'. write_last dev pbuf data len (of_nat (p div B)) m = (Inr (), m') \<and>
     contents m' = patch_at p data (contents m)"
proof (cases "len = 0")
  case False
  then have l: "0 < unat len" "len > 0" by (simp_all add: word_gt_0 unat_gt_0)
  then have p: "p div B * B = p" using assms(4) by (simp add: mod_0_imp_dvd)
  have "p < N * B" using assms(2) l(1) by linarith
  then have q: "p div B < N" by (simp add: less_mult_imp_div_less)
  have read: "tegrabl_blockdev_read_block (Some dev) pbuf (of_nat (p div B)) 1 m =
      (Inr (take B (drop (p div B * B) (contents m))), m)"
    using read_blocks [of pbuf 1 "p div B" m] q assms(1) False by auto
  obtain m' where "tegrabl_blockdev_write_block (Some dev) pbuf
      (data @ drop (unat len) (take B (drop (p div B * B) (contents m)))) (of_nat (p div B)) 1 m = (Inr (), m')"
     "contents m' = patch_at (p div B * B) data (contents m)"
    using write_partial_block [of pbuf "p div B" 0 data m] q assms(1,3,5) False by auto
  then show ?thesis
    using l(2) assms(5) p by (simp add: write_last_def read)
qed (use assms(5) in \<open>simp add: write_last_def\<close>)

lemma write_rest_nothing: "write_rest alloc dev pbuf buf data 0 block m = (Inr (), m)"
  unfolding write_rest_def write_middle_def write_last_def Let_def at_least_a_block by simp

lemma write_rest_ok:
  assumes "p mod B = 0" "p + unat len \<le> N * B" "length data = unat len" "buf \<noteq> 0"
    and "tegrabl_blockdev_buffer_aligned dev pbuf \<and> pbuf \<noteq> 0 \<or> unat len mod B = 0"
  shows "\<exists>m'. write_rest alloc dev pbuf buf data len (of_nat (p div B)) m = (Inr (), m') \<and>
     contents m' = patch_at p data (contents m)"
proof -
  define c l2 where "c = unat len div B * B" and "l2 = unat len mod B"
  have cl: "unat len = c + l2" "l2 < B"
    unfolding c_def l2_def by (rule div_mult_mod_eq [symmetric], simp)
  obtain m1 where mid: "write_middle alloc dev buf data len (of_nat (p div B)) m =
      (Inr (of_nat c, of_nat (p div B + unat len div B)), m1)"
      "contents m1 = patch_at p (take c data) (contents m)"
    using write_middle_ok [of p len data buf m] assms unfolding c_def by auto
  have len2: "unat (len - of_nat c) = l2" using cl by (subst unat_sub_of_nat) simp_all
  have uc: "unat (of_nat c :: u64) = c" using cl(1) unat_lt64 [of len] by simp
  have blk: "p div B + unat len div B = (p + c) div B" "(p + c) mod B = 0"
    using assms(1) by (simp_all add: c_def)
  have "tegrabl_blockdev_buffer_aligned dev pbuf \<and> pbuf \<noteq> 0 \<or> len - of_nat c = 0"
    using assms(5) len2 by (auto simp: l2_def unat_eq_zero)
  then obtain m' where last: "write_last dev pbuf (drop c data) (len - of_nat c) (of_nat ((p + c) div B)) m1 = (Inr (), m')"
     "contents m' = patch_at (p + c) (drop c data) (contents m1)"
    using write_last_ok [of pbuf "len - of_nat c" "p + c" "drop c data" m1] assms(2,3) cl blk(2) len2 by auto
  have "patch_at (p + c) (drop c data) (patch_at p (take c data) (contents m)) = patch_at p data (contents m)"
    using patch_at_append [of p "take c data" "drop c data" "contents m"] cl(1) assms(2,3)
    by (simp add: contents_length min_absorb1)
  with mid(2) last show ?thesis unfolding write_rest_def mid(1) blk(1) by (simp add: uc)
qed

lemma default_write_ok:
  assumes "unat buf + unat len < 2 ^ 64" "buf \<noteq> 0" "0 < len" "unat offset + unat len \<le> N * B" "length data = unat len"
  shows "\<exists>m'. tegrabl_blockdev_default_write alloc dev buf data offset len m = (Inr (), m') \<and>
     contents m' = patch_at (unat offset) data (contents m)"
proof -
  define o' h where "o' = unat offset" and "h = head_len B o' (unat len)"
  define pbuf where "pbuf = (if o' mod B \<noteq> 0 \<or> unat len mod B \<noteq> 0 then alloc (TEGRABL_BLOCKDEV_BLOCK_SIZE dev) else 0)"
  have hl: "h \<le> unat len" by (simp add: h_def head_len_le)
  have uh: "unat (of_nat h :: u64) = h" using hl unat_lt64 [of len] by simp
  obtain m1 where first: "write_first dev pbuf data offset len (ucast (DIV_FLOOR_LOG2 offset K)) m =
     (Inr (of_nat h, if o' mod B = 0 then of_nat (o' div B) else of_nat (o' div B + 1)), m1)"
     "contents m1 = patch_at o' (take h data) (contents m)"
  proof -
    have "tegrabl_blockdev_buffer_aligned dev pbuf \<and> pbuf \<noteq> 0 \<or> unat offset mod B = 0"
      using partial_buffer by (simp add: pbuf_def o'_def)
    from write_first_ok [OF this assms(4,3,5), of m] show thesis
      unfolding o'_def [symmetric] h_def [symmetric] using that by blast
  qed
  have "\<exists>m'. write_rest alloc dev pbuf (buf + of_nat h) (drop h data) (len - of_nat h)
        (if o' mod B = 0 then of_nat (o' div B) else of_nat (o' div B + 1)) m1 = (Inr (), m') \<and>
     contents m' = patch_at (o' + h) (drop h data) (contents m1)"
  proof (cases "h < unat len")
    case False
    then have "len - of_nat h = 0" using rest_len [of len o'] by (simp add: h_def unat_eq_zero)
    with False show ?thesis using assms(5) by (simp add: write_rest_nothing)
  next
    case True
    note al = head_aligned [of B, OF _ True [unfolded h_def]]
    have "tegrabl_blockdev_buffer_aligned dev pbuf \<and> pbuf \<noteq> 0 \<or> (unat len - h) mod B = 0"
      using partial_buffer rest_whole_blocks [of o' len] by (simp add: pbuf_def h_def)
    moreover have "buf + of_nat h \<noteq> 0"
      using buffer_advance [OF assms(1,2) hl] .
    ultimately have "\<exists>m'. write_rest alloc dev pbuf (buf + of_nat h) (drop h data) (len - of_nat h) (of_nat ((o' + h) div B)) m1 = (Inr (), m') \<and>
       contents m' = patch_at (o' + h) (drop h data) (contents m1)"
      using write_rest_ok [of "o' + h" "len - of_nat h" "drop h data" "buf + of_nat h" pbuf m1] al(1) assms(4,5) True
      by (simp add: rest_len h_def o'_def)
    moreover have "(if o' mod B = 0 then of_nat (o' div B) else of_nat (o' div B + 1) :: u32) = of_nat ((o' + h) div B)"
      using al(2) by (simp add: h_def)
    ultimately show ?thesis by (simp only:)
  qed
  moreover have "patch_at (o' + h) (drop h data) (contents m1) = patch_at o' data (contents m)"
    using patch_at_append [of o' "take h data" "drop h data" "contents m"] hl assms(4,5) first(2)
    by (simp add: contents_length min_absorb1 o'_def)
  moreover have pb: "(if MOD_LOG2 offset K \<noteq> 0 \<or> MOD_LOG2 len K \<noteq> 0 then alloc (TEGRABL_BLOCKDEV_BLOCK_SIZE dev) else 0) = pbuf"
    by (simp only: pbuf_def partial_iff o'_def)
  moreover have nn: "\<not> ((MOD_LOG2 offset K \<noteq> 0 \<or> MOD_LOG2 len K \<noteq> 0) \<and> pbuf = 0)"
    using partial_buffer(2) by (simp add: pb [symmetric])
  ultimately show ?thesis
    unfolding tegrabl_blockdev_default_write_def Let_def pb if_not_P [OF nn] if_not_P [OF assms(2)] first(1)
    by (simp add: o'_def uh)
qed
end


section \<open>What a client of a storage layer gets\<close>

locale byte_store =
  fixes bs_read :: "nat \<Rightarrow> nat \<Rightarrow> 'm \<Rightarrow> bytes result \<times> 'm"
    and bs_write :: "nat \<Rightarrow> bytes \<Rightarrow> 'm \<Rightarrow> unit result \<times> 'm"
    and bs_contents :: "'m \<Rightarrow> bytes"
    and bs_size :: nat
  assumes size_law: "length (bs_contents m) = bs_size"
    and read_law: "0 < l \<Longrightarrow> p + l \<le> bs_size \<Longrightarrow> bs_read p l m = (Inr (take l (drop p (bs_contents m))), m)"
    and write_law: "d \<noteq> [] \<Longrightarrow> p + length d \<le> bs_size \<Longrightarrow>
      \<exists>m'. bs_write p d m = (Inr (), m') \<and> bs_contents m' = patch_at p d (bs_contents m)"
begin

lemma read_after_write:
  assumes "d \<noteq> []" "p + length d \<le> bs_size"
  shows "bindE (bs_write p d m) (\<lambda>_. bs_read p (length d)) = (Inr d, snd (bs_write p d m))"
proof -
  obtain m' where "bs_write p d m = (Inr (), m')" "bs_contents m' = patch_at p d (bs_contents m)"
    using write_law [OF assms] by blast
  with assms show ?thesis
    by (simp add: read_law patch_at_def size_law min_absorb2)
qed

lemma write_elsewhere:
  assumes "d \<noteq> []" "p + length d \<le> bs_size" "0 < l" "q + l \<le> bs_size" "q + l \<le> p \<or> p + length d \<le> q"
  shows "bindE (bs_write p d m) (\<lambda>_. bs_read q l) = (fst (bs_read q l m), snd (bs_write p d m))"
proof -
  obtain m' where m': "bs_write p d m = (Inr (), m')" "bs_contents m' = patch_at p d (bs_contents m)"
    using write_law [OF assms(1,2)] by blast
  have "take l (drop q (patch_at p d (bs_contents m))) = take l (drop q (bs_contents m))"
    using assms(2,5) by (rule patch_at_elsewhere [OF _ _, where xs = "bs_contents m", unfolded size_law])
  with m' assms(3,4) show ?thesis by (simp add: read_law)
qed

lemma last_write_wins:
  assumes "d \<noteq> []" "p + length d \<le> bs_size" "length d' = length d"
  shows "bs_contents (snd (bs_write p d' (snd (bs_write p d m)))) = bs_contents (snd (bs_write p d' m))"
proof -
  have d': "d' \<noteq> []" "p + length d' \<le> bs_size" using assms by auto
  obtain m1 where m1: "bs_write p d m = (Inr (), m1)" "bs_contents m1 = patch_at p d (bs_contents m)"
    using write_law [OF assms(1,2)] by blast
  obtain m2 where m2: "bs_write p d' m1 = (Inr (), m2)" "bs_contents m2 = patch_at p d' (bs_contents m1)"
    using write_law [OF d'] by blast
  obtain m3 where m3: "bs_write p d' m = (Inr (), m3)" "bs_contents m3 = patch_at p d' (bs_contents m)"
    using write_law [OF d'] by blast
  from m1 m2 m3 assms show ?thesis by (simp add: patch_at_def size_law min_absorb2)
qed
end


text \<open>A client with a buffer large enough for the device.\<close>

locale block_client = block_device +
  fixes buf :: u64
  assumes buffer: "buf \<noteq> 0" "unat buf + N * B < 2 ^ 64"
begin

lemma transfer_word: "p \<le> N * B \<Longrightarrow> unat (of_nat p :: u64) = p"
  using size_bound by simp

lemma in_range:
  assumes "0 < l" "p + l \<le> N * B"
  shows "\<not> (of_nat p \<ge> dev_size dev \<or> of_nat p + of_nat l > dev_size dev)" "(of_nat l :: u64) \<noteq> 0" "\<not> ref dev \<le> 0"
proof -
  have "unat (of_nat p + of_nat l :: u64) = p + l" using transfer_word [OF assms(2)] by simp
  moreover have "unat (of_nat p :: u64) = p" using assms(2) by (intro transfer_word) simp
  ultimately show "\<not> (of_nat p \<ge> dev_size dev \<or> of_nat p + of_nat l > dev_size dev)"
    using assms by (simp add: word_le_nat_alt word_less_nat_alt unat_dev_size)
  have "unat (of_nat l :: u64) = l" using assms(2) by (intro transfer_word) simp
  with assms(1) show "(of_nat l :: u64) \<noteq> 0" by (metis unat_0 less_numeral_extra(3))
  show "\<not> ref dev \<le> 0" using driver by (simp add: driver_ok_def word_gt_0)
qed

end

sublocale block_client \<subseteq> store: byte_store
  "\<lambda>p l. tegrabl_blockdev_read alloc (Some dev) buf (of_nat p) (of_nat l)"
  "\<lambda>p d. tegrabl_blockdev_write alloc (Some dev) buf d (of_nat p) (of_nat (length d))"
  contents "unat (block_count dev) * 2 ^ block_size_log2 dev"
proof unfold_locales
  fix m :: 'a
  show "length (contents m) = N * B" by (rule contents_length)
next
  fix l p :: nat and m :: 'a
  assume a: "0 < l" "p + l \<le> N * B"
  have u: "unat (of_nat p :: u64) = p" "unat (of_nat l :: u64) = l" using a by (simp_all add: transfer_word)
  have "tegrabl_blockdev_default_read alloc dev buf (of_nat p) (of_nat l) m = (Inr (take l (drop p (contents m))), m)"
    using default_read_ok [of buf "of_nat l" "of_nat p" m] a u in_range(2) [OF a] buffer by (simp add: word_gt_0)
  then show "tegrabl_blockdev_read alloc (Some dev) buf (of_nat p) (of_nat l) m =
      (Inr (take l (drop p (contents m))), m)"
    using in_range [OF a] by (simp add: tegrabl_blockdev_read_def)
next
  fix d :: bytes and p :: nat and m :: 'a
  assume a': "d \<noteq> []" "p + length d \<le> N * B"
  then have a: "0 < length d" "p + length d \<le> N * B" by simp_all
  have u: "unat (of_nat p :: u64) = p" "unat (of_nat (length d) :: u64) = length d" using a by (simp_all add: transfer_word)
  have "\<exists>m'. tegrabl_blockdev_default_write alloc dev buf d (of_nat p) (of_nat (length d)) m = (Inr (), m') \<and>
      contents m' = patch_at p d (contents m)"
    using default_write_ok [of buf "of_nat (length d)" "of_nat p" d m] a u in_range(2) [OF a] buffer by (simp add: word_gt_0)
  then show "\<exists>m'. tegrabl_blockdev_write alloc (Some dev) buf d (of_nat p) (of_nat (length d)) m = (Inr (), m') \<and>
      contents m' = patch_at p d (contents m)"
    using in_range [OF a] by (auto simp: tegrabl_blockdev_write_def)
qed

context block_client
begin

lemmas client_read_back = store.read_after_write and client_elsewhere = store.write_elsewhere and
  client_write = store.write_law and client_read = store.read_law

end

end
