(* ===== verification/Cboot_Sata.thy ===== *)
theory Cboot_Sata
  imports Cboot_Blockio
begin

text \<open>
  The SATA block driver, \<^verbatim>\<open>common/drivers/sata/tegrabl_sata_bdev.c\<close>: it cuts block transfers into commands of the
  AHCI engine and registers the disk. The driver meets the contract of the block layer, so that the byte
  transfers of \<open>Cboot_Blockio\<close> are exact on a SATA disk.
\<close>

record sata_context =
  instance_id :: u8
  sata_block_size_log2 :: nat
  sata_block_count :: u64

text \<open>
  The AHCI engine under the driver: \<open>ahci_read\<close> and \<open>ahci_write\<close> are \<^verbatim>\<open>tegrabl_sata_ahci_io\<close> in the two directions,
  \<open>'d\<close> is the state of the disk and the controller.
\<close>

record 'd ahci =
  ahci_read :: "u64 \<Rightarrow> bnum_t \<Rightarrow> bnum_t \<Rightarrow> 'd \<Rightarrow> bytes result \<times> 'd"
  ahci_write :: "u64 \<Rightarrow> bytes \<Rightarrow> bnum_t \<Rightarrow> bnum_t \<Rightarrow> 'd \<Rightarrow> unit result \<times> 'd"
  ahci_flush_device :: "'d \<Rightarrow> unit result \<times> 'd"
  ahci_free_buffers :: "'d \<Rightarrow> 'd"
  ahci_xfer :: "xfer_info \<Rightarrow> 'd \<Rightarrow> unit result \<times> xfer_info \<times> 'd"
  ahci_xfer_wait :: "xfer_info \<Rightarrow> u64 \<Rightarrow> 'd \<Rightarrow> u8 result \<times> xfer_info \<times> 'd"

record 'd sata_state =
  init_done :: bool
  disk :: 'd

definition on_disk :: "('d \<Rightarrow> 'a \<times> 'd) \<Rightarrow> 'd sata_state \<Rightarrow> 'a \<times> 'd sata_state" where
  "on_disk f s = (case f (disk s) of (r, d) \<Rightarrow> (r, s\<lparr>disk := d\<rparr>))"

definition sata_error :: "u8 \<Rightarrow> u32 \<Rightarrow> tegrabl_error_t" where
  "sata_error aux reason = tegrabl_error_value MOD_SATA aux reason"

definition SATA_MAX_READ_WRITE_SECTORS :: u32 where
  "SATA_MAX_READ_WRITE_SECTORS = 0x1FFF"

definition bulk_count :: "bnum_t \<Rightarrow> bnum_t" where
  "bulk_count count = (if count < SATA_MAX_READ_WRITE_SECTORS then count else SATA_MAX_READ_WRITE_SECTORS)"

lemma unat_bulk_count: "unat (bulk_count c) = min (unat c) 0x1FFF"
  by (auto simp: bulk_count_def SATA_MAX_READ_WRITE_SECTORS_def word_less_nat_alt)

lemma bulk_decreases: "c \<noteq> 0 \<Longrightarrow> unat (c - bulk_count c) < unat c"
proof -
  assume "c \<noteq> 0"
  then have "0 < unat (bulk_count c)" "unat (bulk_count c) \<le> unat c"
    by (simp_all add: unat_bulk_count unat_gt_0)
  then show ?thesis by (subst unat_sub) (simp_all add: word_le_nat_alt)
qed

text \<open>The loops of the block hooks: transfers of at most \<^const>\<open>SATA_MAX_READ_WRITE_SECTORS\<close> sectors.\<close>

function sata_read_loop :: "'d ahci \<Rightarrow> sata_context \<Rightarrow> u64 \<Rightarrow> bnum_t \<Rightarrow> bnum_t \<Rightarrow> 'd \<Rightarrow> bytes result \<times> 'd" where
  "sata_read_loop a ctx buf block count d =
     (if count = 0 then (Inr [], d)
      else bindE (ahci_read a buf block (bulk_count count) d) (\<lambda>x d1.
        bindE (sata_read_loop a ctx (buf + ucast (push_bit (sata_block_size_log2 ctx) (bulk_count count)))
                 (block + bulk_count count) (count - bulk_count count) d1)
          (\<lambda>y d2. (Inr (x @ y), d2))))"
  by auto
termination by (relation "measure (\<lambda>(a, ctx, buf, block, count, d). unat count)") (auto intro: bulk_decreases)

function sata_write_loop :: "'d ahci \<Rightarrow> sata_context \<Rightarrow> u64 \<Rightarrow> bytes \<Rightarrow> bnum_t \<Rightarrow> bnum_t \<Rightarrow> 'd \<Rightarrow> unit result \<times> 'd" where
  "sata_write_loop a ctx buf data block count d =
     (if count > 0 then
        let n = push_bit (sata_block_size_log2 ctx) (bulk_count count)
        in bindE (ahci_write a buf (take (unat n) data) block (bulk_count count) d) (\<lambda>_ d1.
             sata_write_loop a ctx (buf + ucast n) (drop (unat n) data)
               (block + bulk_count count) (count - bulk_count count) d1)
      else (Inr (), d))"
  by auto
termination
  by (relation "measure (\<lambda>(a, ctx, buf, data, block, count, d). unat count)")
    (auto intro: bulk_decreases simp: word_gt_0)

declare sata_read_loop.simps [simp del] sata_write_loop.simps [simp del]

definition tegrabl_sata_bdev_read_block ::
  "'d ahci \<Rightarrow> sata_context option \<Rightarrow> u64 \<Rightarrow> bnum_t \<Rightarrow> bnum_t \<Rightarrow> 'd sata_state \<Rightarrow> bytes result \<times> 'd sata_state" where
  "tegrabl_sata_bdev_read_block a priv_data buf block count s =
     (if buf = 0 then (Inl (sata_error 4 ERR_BAD_PARAMETER), s)
      else case priv_data of None \<Rightarrow> (Inl (sata_error 4 ERR_INVALID), s)
      | Some ctx \<Rightarrow>
          if ucast block + ucast count > sata_block_count ctx then (Inl (sata_error 4 ERR_OVERFLOW), s)
          else on_disk (sata_read_loop a ctx buf block count) s)"

definition tegrabl_sata_bdev_write_block ::
  "'d ahci \<Rightarrow> sata_context option \<Rightarrow> u64 \<Rightarrow> bytes \<Rightarrow> bnum_t \<Rightarrow> bnum_t \<Rightarrow> 'd sata_state \<Rightarrow> unit result \<times> 'd sata_state" where
  "tegrabl_sata_bdev_write_block a priv_data buf data block count s =
     (if buf = 0 then (Inl (sata_error 5 ERR_BAD_PARAMETER), s)
      else case priv_data of None \<Rightarrow> (Inl (sata_error 5 ERR_INVALID), s)
      | Some ctx \<Rightarrow>
          if ucast block + ucast count > sata_block_count ctx then (Inl (sata_error 5 ERR_OVERFLOW), s)
          else on_disk (sata_write_loop a ctx buf data block count) s)"

definition tegrabl_sata_bdev_erase :: "bnum_t \<Rightarrow> bnum_t \<Rightarrow> bool \<Rightarrow> 'd sata_state \<Rightarrow> unit result \<times> 'd sata_state" where
  "tegrabl_sata_bdev_erase block count is_secure s = (Inl (sata_error 6 ERR_NOT_SUPPORTED), s)"

definition tegrabl_sata_bdev_ioctl ::
  "'d ahci \<Rightarrow> sata_context option \<Rightarrow> u32 \<Rightarrow> bytes \<Rightarrow> 'd sata_state \<Rightarrow> bytes result \<times> 'd sata_state" where
  "tegrabl_sata_bdev_ioctl a priv_data ioctl argp s =
     (case priv_data of None \<Rightarrow> (Inl (sata_error 1 ERR_INVALID), s)
      | Some ctx \<Rightarrow>
          if ioctl = 4 then bindE (on_disk (ahci_flush_device a) s) (\<lambda>_ s1. (Inr argp, s1))
          else (Inl (sata_error 1 ERR_NOT_SUPPORTED), s))"

definition tegrabl_sata_bdev_close :: "'d ahci \<Rightarrow> sata_context option \<Rightarrow> 'd sata_state \<Rightarrow> 'd sata_state" where
  "tegrabl_sata_bdev_close a priv_data s =
     (case priv_data of None \<Rightarrow> s | Some _ \<Rightarrow> s\<lparr>disk := ahci_free_buffers a (disk s)\<rparr>)\<lparr>init_done := False\<rparr>"

definition tegrabl_sata_set_default_context :: "u32 \<Rightarrow> sata_context" where
  "tegrabl_sata_set_default_context instance_no =
     \<lparr>instance_id = ucast instance_no, sata_block_size_log2 = 9, sata_block_count = 0\<rparr>"

text \<open>The zeroed structure \<^verbatim>\<open>tegrabl_calloc\<close> returns.\<close>

definition zero_bdev :: "'m tegrabl_bdev" where
  "zero_bdev = \<lparr>ref = 0, device_id = 0, dev_size = 0, block_size_log2 = 0, block_count = 0, published = False, buf_align_size = 0,
     read_block = None, write_block = None, erase_blocks = None, xfer_hook = None, xfer_wait_hook = None,
     ioctl_hook = None, close_hook = None\<rparr>"

definition sata_fill_hooks :: "'d ahci \<Rightarrow> sata_context \<Rightarrow> 'd sata_state tegrabl_bdev \<Rightarrow> 'd sata_state tegrabl_bdev" where
  "sata_fill_hooks a ctx d = d\<lparr>buf_align_size := 4,
     read_block := Some (tegrabl_sata_bdev_read_block a (Some ctx)),
     write_block := Some (tegrabl_sata_bdev_write_block a (Some ctx)),
     erase_blocks := Some tegrabl_sata_bdev_erase,
     close_hook := Some (tegrabl_sata_bdev_close a (Some ctx)),
     ioctl_hook := Some (tegrabl_sata_bdev_ioctl a (Some ctx)),
     xfer_hook := Some (\<lambda>x s. case ahci_xfer a x (disk s) of (r, x1, d1) \<Rightarrow> (r, x1, s\<lparr>disk := d1\<rparr>)),
     xfer_wait_hook := Some (\<lambda>x t s. case ahci_xfer_wait a x t (disk s) of (r, x1, d1) \<Rightarrow> (r, x1, s\<lparr>disk := d1\<rparr>))\<rparr>"

definition tegrabl_sata_register_region ::
  "'d ahci \<Rightarrow> sata_context \<Rightarrow> u64 option \<Rightarrow> 'd sata_state blockdev_env \<Rightarrow> (unit result \<times> 'd sata_state blockdev_env) option" where
  "tegrabl_sata_register_region a ctx user_dev env =
     (case user_dev of None \<Rightarrow> Some (Inl (sata_error 8 ERR_NO_MEMORY), env)
      | Some h \<Rightarrow>
          (case tegrabl_blockdev_initialize_bdev (Some zero_bdev) (push_bit 16 4 OR ucast (instance_id ctx))
                  (sata_block_size_log2 ctx) (ucast (sata_block_count ctx)) of
             Inl e \<Rightarrow> Some (Inl (tegrabl_err_set_highest_module e MOD_SATA), env)
           | Inr d \<Rightarrow> map_option (highest MOD_SATA)
               (tegrabl_blockdev_register_device (Some h) (env\<lparr>devices := (devices env)(h \<mapsto> sata_fill_hooks a ctx d)\<rparr>))))"

text \<open>\<open>ahci_init\<close> brings the link up and fills in the geometry; \<open>context_ok\<close> says whether the context was allocated.\<close>

definition tegrabl_sata_bdev_open ::
  "'d ahci \<Rightarrow> (sata_context \<Rightarrow> 'd \<Rightarrow> sata_context result \<times> 'd) \<Rightarrow> u32 \<Rightarrow> bool \<Rightarrow> u64 option \<Rightarrow>
   'd sata_state blockdev_env \<Rightarrow> 'd sata_state \<Rightarrow> (unit result \<times> 'd sata_state blockdev_env \<times> 'd sata_state) option" where
  "tegrabl_sata_bdev_open a ahci_init instance_no context_ok user_dev env s =
     (if init_done s then Some (Inr (), env, s)
      else if \<not> context_ok then Some (Inl (sata_error 7 ERR_NO_MEMORY), env, s)
      else case on_disk (ahci_init (tegrabl_sata_set_default_context instance_no)) s of
             (Inl e, s1) \<Rightarrow> Some (Inl e, env, s1)
           | (Inr ctx, s1) \<Rightarrow>
               (case tegrabl_sata_register_region a ctx user_dev env of None \<Rightarrow> None
                | Some (Inl e, env1) \<Rightarrow> Some (Inl e, env1, s1)
                | Some (Inr _, env1) \<Rightarrow> Some (Inr (), env1, s1\<lparr>init_done := True\<rparr>)))"


section \<open>The driver meets the contract of the block layer\<close>

text \<open>
  What the driver relies on in the AHCI engine: a transfer of at most \<^const>\<open>SATA_MAX_READ_WRITE_SECTORS\<close> sectors
  within the disk moves exactly those sectors.
\<close>

definition ahci_ok :: "'d ahci \<Rightarrow> nat \<Rightarrow> nat \<Rightarrow> ('d \<Rightarrow> bytes) \<Rightarrow> bool" where
  "ahci_ok a k n contents \<longleftrightarrow>
     (\<forall>d. length (contents d) = n * 2 ^ k) \<and>
     (\<forall>buf b c d. 0 < c \<longrightarrow> c \<le> SATA_MAX_READ_WRITE_SECTORS \<longrightarrow> unat b + unat c \<le> n \<longrightarrow>
        ahci_read a buf b c d = (Inr (take (unat c * 2 ^ k) (drop (unat b * 2 ^ k) (contents d))), d)) \<and>
     (\<forall>buf x b c d. 0 < c \<longrightarrow> c \<le> SATA_MAX_READ_WRITE_SECTORS \<longrightarrow> unat b + unat c \<le> n \<longrightarrow> length x = unat c * 2 ^ k \<longrightarrow>
        (\<exists>d'. ahci_write a buf x b c d = (Inr (), d') \<and> contents d' = patch_at (unat b * 2 ^ k) x (contents d)))"

lemma bulk_count_bounds:
  "c \<noteq> 0 \<Longrightarrow> 0 < bulk_count c" "bulk_count c \<le> SATA_MAX_READ_WRITE_SECTORS" "unat (bulk_count c) \<le> unat c"
  by (simp_all add: word_less_nat_alt word_le_nat_alt unat_bulk_count unat_gt_0 SATA_MAX_READ_WRITE_SECTORS_def)

lemma rest_of_count: "unat (c - bulk_count c) = unat c - unat (bulk_count c)"
  using bulk_count_bounds(3) [of c] by (intro unat_sub) (simp add: word_le_nat_alt)

lemma next_block:
  assumes "unat (block :: u32) + unat count \<le> n" "n < 2 ^ 32"
  shows "unat (block + bulk_count count) = unat block + unat (bulk_count count)"
  using assms bulk_count_bounds(3) [of count] by (intro unat_add_lem [THEN iffD1]) simp

text \<open>The device structure once it is registered, with \<open>refs\<close> references.\<close>

definition sata_user_dev :: "'d ahci \<Rightarrow> sata_context \<Rightarrow> u32 \<Rightarrow> 'd sata_state tegrabl_bdev" where
  "sata_user_dev a ctx refs = sata_fill_hooks a ctx (zero_bdev\<lparr>device_id := push_bit 16 4 OR ucast (instance_id ctx),
     block_size_log2 := sata_block_size_log2 ctx, block_count := ucast (sata_block_count ctx),
     dev_size := push_bit (sata_block_size_log2 ctx) (ucast (ucast (sata_block_count ctx) :: u32)), ref := refs\<rparr>)"

locale sata_disk =
  fixes a :: "'d ahci" and ctx :: sata_context and sectors :: "'d \<Rightarrow> bytes" and alloc :: "u64 \<Rightarrow> u64" and refs :: u32
  assumes engine: "ahci_ok a (sata_block_size_log2 ctx) (unat (sata_block_count ctx)) sectors"
    and geometry: "sata_block_size_log2 ctx \<le> 19" "sata_block_count ctx < 2 ^ 32"
    and heap4: "alloc n \<noteq> 0" "alloc n AND 3 = 0"
    and opened: "0 < refs"
begin

abbreviation "SB \<equiv> (2 :: nat) ^ sata_block_size_log2 ctx"
abbreviation "SN \<equiv> unat (sata_block_count ctx)"

lemma SN_lt: "SN < 2 ^ 32" using geometry(2) by (simp add: word_less_nat_alt)

lemma read_loop:
  "unat block + unat count \<le> SN \<Longrightarrow>
   sata_read_loop a ctx buf block count d = (Inr (take (unat count * SB) (drop (unat block * SB) (sectors d))), d)"
proof (induction "unat count" arbitrary: buf block count rule: less_induct)
  case less
  show ?case
  proof (cases "count = 0")
    case False
    let ?c = "bulk_count count"
    have le: "unat block + unat ?c \<le> SN" using less.prems bulk_count_bounds(3) [of count] by linarith
    have head: "ahci_read a buf block ?c d = (Inr (take (unat ?c * SB) (drop (unat block * SB) (sectors d))), d)"
      using engine bulk_count_bounds(1,2) [of count] False le unfolding ahci_ok_def by blast
    have "unat (block + ?c) + unat (count - ?c) \<le> SN"
      using less.prems bulk_count_bounds(3) [of count] by (simp add: next_block [OF less.prems SN_lt] rest_of_count)
    note tail = less.hyps [OF bulk_decreases [OF False] this]
    have "unat count * SB = unat ?c * SB + (unat count - unat ?c) * SB"
      using bulk_count_bounds(3) [of count] by (simp flip: add_mult_distrib)
    then have "take (unat count * SB) (drop (unat block * SB) (sectors d)) =
       take (unat ?c * SB) (drop (unat block * SB) (sectors d)) @
       take ((unat count - unat ?c) * SB) (drop ((unat block + unat ?c) * SB) (sectors d))"
      by (simp add: take_add add_mult_distrib add.commute)
    with False head show ?thesis
      by (subst sata_read_loop.simps) (simp add: tail next_block [OF less.prems SN_lt] rest_of_count)
  qed (simp add: sata_read_loop.simps)
qed

lemma bulk_bytes: "unat (push_bit (sata_block_size_log2 ctx) (bulk_count c)) = unat (bulk_count c) * SB"
proof -
  have "unat (bulk_count c) * SB \<le> 0x1FFF * 2 ^ 19"
    using geometry(1) by (intro mult_le_mono power_increasing) (simp_all add: unat_bulk_count)
  then show ?thesis unfolding unsigned_push_bit_eq take_bit_eq_mod by (simp add: push_bit_eq_mult)
qed

lemma write_loop:
  "unat block + unat count \<le> SN \<Longrightarrow> length x = unat count * SB \<Longrightarrow>
   \<exists>d'. sata_write_loop a ctx buf x block count d = (Inr (), d') \<and> sectors d' = patch_at (unat block * SB) x (sectors d)"
proof (induction "unat count" arbitrary: buf block count x d rule: less_induct)
  case less
  show ?case
  proof (cases "count = 0")
    case True
    with less.prems show ?thesis by (simp add: sata_write_loop.simps)
  next
    case False
    let ?c = "bulk_count count"
    have cc: "unat ?c \<le> unat count" by (rule bulk_count_bounds)
    have le: "unat block + unat ?c \<le> SN" using less.prems cc by linarith
    have split: "unat count * SB = unat ?c * SB + (unat count - unat ?c) * SB"
      using cc by (simp flip: add_mult_distrib)
    have "length (take (unat ?c * SB) x) = unat ?c * SB" using less.prems(2) split by simp
    then obtain d1 where head: "ahci_write a buf (take (unat ?c * SB) x) block ?c d = (Inr (), d1)"
        "sectors d1 = patch_at (unat block * SB) (take (unat ?c * SB) x) (sectors d)"
      using engine bulk_count_bounds(1,2) [of count] False le unfolding ahci_ok_def by blast
    have "unat (block + ?c) + unat (count - ?c) \<le> SN"
      using less.prems cc by (simp add: next_block [OF less.prems(1) SN_lt] rest_of_count)
    moreover have "length (drop (unat ?c * SB) x) = unat (count - ?c) * SB"
      using less.prems(2) split by (simp add: rest_of_count)
    ultimately obtain d' where tail: "sata_write_loop a ctx (buf + ucast (push_bit (sata_block_size_log2 ctx) ?c))
         (drop (unat ?c * SB) x) (block + ?c) (count - ?c) d1 = (Inr (), d')"
        "sectors d' = patch_at (unat (block + ?c) * SB) (drop (unat ?c * SB) x) (sectors d1)"
      using less.hyps [OF bulk_decreases [OF False]] by blast
    have len: "length (sectors d) = SN * SB" using engine by (simp add: ahci_ok_def)
    have "(unat block + unat count) * SB \<le> SN * SB" using less.prems(1) by (intro mult_le_mono1)
    then have "sectors d' = patch_at (unat block * SB) x (sectors d)"
      using patch_at_append [of "unat block * SB" "take (unat ?c * SB) x" "drop (unat ?c * SB) x" "sectors d"]
        less.prems(2) split tail(2) head(2) len
      by (simp add: next_block [OF less.prems(1) SN_lt] add_mult_distrib min_absorb2)
    with False head tail show ?thesis
      by (subst sata_write_loop.simps) (simp add: bulk_bytes word_gt_0)
  qed
qed

abbreviation "sata_dev \<equiv> sata_user_dev a ctx refs"

lemma count32: "unat (ucast (sata_block_count ctx) :: u32) = SN"
  using SN_lt by (simp add: unsigned_ucast_eq take_bit_nat_eq_self_iff)

lemma within: "unat b + unat c \<le> SN \<Longrightarrow> \<not> sata_block_count ctx < ucast (b :: u32) + ucast (c :: u32)"
proof -
  assume "unat b + unat c \<le> SN"
  moreover have "unat (ucast b + ucast c :: u64) = unat b + unat c"
    using unsigned_less [of b, where 'a = nat] unsigned_less [of c, where 'a = nat]
    by (simp add: unat_word_ariths unat_ucast_32_64)
  ultimately show ?thesis by (simp add: word_less_nat_alt)
qed

lemma sata_driver_ok: "driver_ok sata_dev (sectors \<circ> disk)"
proof -
  have r: "tegrabl_sata_bdev_read_block a (Some ctx) buf b c s =
      (Inr (take (unat c * SB) (drop (unat b * SB) (sectors (disk s)))), s)"
    if "buf \<noteq> 0" "0 < c" "unat b + unat c \<le> SN" for buf b c s
    using that within by (simp add: tegrabl_sata_bdev_read_block_def on_disk_def read_loop)
  have w: "\<exists>s'. tegrabl_sata_bdev_write_block a (Some ctx) buf x b c s = (Inr (), s') \<and>
      sectors (disk s') = patch_at (unat b * SB) x (sectors (disk s))"
    if "buf \<noteq> 0" "0 < c" "unat b + unat c \<le> SN" "length x = unat c * SB" for buf x b c s
    using write_loop [OF that(3,4), of buf "disk s"] that within
    by (auto simp: tegrabl_sata_bdev_write_block_def on_disk_def)
  show ?thesis
    unfolding driver_ok_def using geometry(1) opened engine r w
    by (auto simp: sata_user_dev_def sata_fill_hooks_def zero_bdev_def count32 ahci_ok_def)
qed

lemma sata_alloc_ok: "alloc_ok alloc sata_dev"
  using heap4 by (simp add: alloc_ok_def tegrabl_blockdev_buffer_aligned_def sata_user_dev_def sata_fill_hooks_def)

end

sublocale sata_disk \<subseteq> block_device sata_dev "sectors \<circ> disk" alloc
  by unfold_locales (rule sata_driver_ok, rule sata_alloc_ok)


section \<open>A disk in memory\<close>

text \<open>An engine whose disk is a list of bytes, for \<open>n\<close> sectors of 512 bytes.\<close>

definition demo_sectors :: "nat \<Rightarrow> bytes \<Rightarrow> bytes" where
  "demo_sectors n d = take (n * 512) (d @ replicate (n * 512) 0)"

definition demo_ahci :: "nat \<Rightarrow> bytes ahci" where
  "demo_ahci n = \<lparr>
     ahci_read = \<lambda>buf b c d. (Inr (take (unat c * 512) (drop (unat b * 512) (demo_sectors n d))), d),
     ahci_write = \<lambda>buf x b c d. (Inr (), patch_at (unat b * 512) x (demo_sectors n d)),
     ahci_flush_device = \<lambda>d. (Inr (), d), ahci_free_buffers = id,
     ahci_xfer = \<lambda>x d. (Inl (sata_error 3 ERR_NOT_SUPPORTED), x, d),
     ahci_xfer_wait = \<lambda>x t d. (Inl (sata_error 2 ERR_NOT_SUPPORTED), x, d)\<rparr>"

definition demo_ctx :: "nat \<Rightarrow> sata_context" where
  "demo_ctx n = \<lparr>instance_id = 0, sata_block_size_log2 = 9, sata_block_count = of_nat n\<rparr>"

lemma length_demo_sectors: "length (demo_sectors n d) = n * 512"
  by (simp add: demo_sectors_def)

lemma demo_sectors_full: "length d = n * 512 \<Longrightarrow> demo_sectors n d = d"
  by (simp add: demo_sectors_def)

lemma demo_ahci_ok: "ahci_ok (demo_ahci n) 9 n (demo_sectors n)"
proof -
  have "demo_sectors n (patch_at p x (demo_sectors n d)) = patch_at p x (demo_sectors n d)"
    if "p + length x \<le> n * 512" for p x d
    using that by (intro demo_sectors_full) (simp add: length_patch_at length_demo_sectors)
  then show ?thesis by (auto simp: ahci_ok_def demo_ahci_def length_demo_sectors)
qed

lemma demo_disk: "n < 2 ^ 32 \<Longrightarrow> sata_disk (demo_ahci n) (demo_ctx n) (demo_sectors n) (\<lambda>_. 0x1000) 2"
  by unfold_locales (simp_all add: demo_ctx_def demo_ahci_ok word_less_nat_alt)

interpretation demo: sata_disk "demo_ahci 4" "demo_ctx 4" "demo_sectors 4" "\<lambda>_. 0x1000" 2
  by (rule demo_disk) simp

interpretation demo_client: block_client "sata_user_dev (demo_ahci 4) (demo_ctx 4) 2" "demo_sectors 4 \<circ> disk" "\<lambda>_. 0x1000" "0x2000"
  by unfold_locales (simp_all add: demo_ctx_def sata_user_dev_def sata_fill_hooks_def zero_bdev_def)


lemma transfer_accepted:
  fixes offset len size :: u64
  assumes "0 < len" "unat offset + unat len \<le> unat size"
  shows "\<not> offset \<ge> size" "\<not> offset + len > size"
proof -
  have "unat (offset + len) = unat offset + unat len"
    using assms(2) unat_lt64 [of size] by (intro unat_add_lem [THEN iffD1]) simp
  moreover have "0 < unat len" using assms(1) by (simp add: word_less_nat_alt)
  ultimately show "\<not> offset \<ge> size" "\<not> offset + len > size"
    using assms(2) by (simp_all add: word_le_nat_alt word_less_nat_alt)
qed

lemma sata_user_dev_inc: "bdev_inc_ref (sata_user_dev a ctx n) = sata_user_dev a ctx (n + 1)"
  by (simp add: bdev_inc_ref_def sata_user_dev_def sata_fill_hooks_def)

lemma sata_user_dev_initialized:
  "\<exists>d. tegrabl_blockdev_initialize_bdev (Some zero_bdev) (push_bit 16 4 OR ucast (instance_id ctx)) (sata_block_size_log2 ctx)
     (ucast (sata_block_count ctx)) = Inr d \<and> sata_fill_hooks a ctx d = sata_user_dev a ctx 0"
  by (simp add: tegrabl_blockdev_initialize_bdev_def sata_user_dev_def zero_bdev_def)

lemma duplicate_scan_none:
  "(\<And>x. x \<in> set hs \<Longrightarrow> \<exists>e. st x = Some e \<and> device_id e \<noteq> i) \<Longrightarrow> duplicate_scan i hs st = Some False"
  by (induction hs) fastforce+

lemma registers_new:
  assumes "bdevs env = Some hs" "devices env h = Some d" "h \<notin> set hs"
    and "\<And>x. x \<in> set hs \<Longrightarrow> \<exists>e. devices env x = Some e \<and> device_id e \<noteq> device_id d"
  shows "tegrabl_blockdev_register_device (Some h) env =
    Some (Inr (), env\<lparr>devices := (devices env)(h \<mapsto> bdev_inc_ref d), bdevs := Some (hs @ [h])\<rparr>)"
proof -
  have "duplicate_scan (device_id d) hs ((devices env)(h \<mapsto> bdev_inc_ref d)) = Some False"
    using assms(3,4) by (intro duplicate_scan_none) auto
  with assms(1,2) show ?thesis by (simp add: tegrabl_blockdev_register_device_def)
qed

lemma open_scan_last:
  "(\<And>x. x \<in> set hs \<Longrightarrow> \<exists>e. st x = Some e \<and> ref e \<noteq> 0 \<and> device_id e \<noteq> i) \<Longrightarrow> st h = Some d \<Longrightarrow> ref d \<noteq> 0 \<Longrightarrow>
   device_id d = i \<Longrightarrow> open_scan i (hs @ [h]) st = Some (Some h)"
  by (induction hs) fastforce+


section \<open>Properties\<close>

text \<open>
  (C25) A byte read through the block layer returns exactly the bytes of the medium at the requested offset, for every
  alignment of offset, length and buffer, and leaves the medium alone.
\<close>
theorem blockdev_read_exact:
  assumes "driver_ok dev contents" "alloc_ok alloc dev"
    and "buf \<noteq> 0" "unat buf + unat len < 2 ^ 64" "0 < len" "unat offset + unat len \<le> unat (dev_size dev)"
  shows "tegrabl_blockdev_read alloc (Some dev) buf offset len m =
    (Inr (take (unat len) (drop (unat offset) (contents m))), m)"
proof -
  have bd: "block_device dev contents alloc" using assms(1,2) by unfold_locales
  note sz = block_device.unat_dev_size [OF bd]
  have "\<not> (offset \<ge> dev_size dev \<or> offset + len > dev_size dev)" "\<not> ref dev \<le> 0" "len \<noteq> 0"
    using transfer_accepted [OF assms(5,6)] assms(1,5) by (auto simp: driver_ok_def word_gt_0)
  then show ?thesis
    using block_device.default_read_ok [OF bd assms(4,3,5)] assms(6)
    by (simp add: tegrabl_blockdev_read_def sz)
qed

text \<open>
  (C24) A byte write replaces exactly the addressed bytes of the medium and keeps all others, again for every alignment;
  partial blocks at both ends are read, merged and written back.
\<close>
theorem blockdev_write_exact:
  assumes "driver_ok dev contents" "alloc_ok alloc dev"
    and "buf \<noteq> 0" "unat buf + unat len < 2 ^ 64" "0 < len" "unat offset + unat len \<le> unat (dev_size dev)"
    and "length data = unat len"
  shows "\<exists>m'. tegrabl_blockdev_write alloc (Some dev) buf data offset len m = (Inr (), m') \<and>
    contents m' = take (unat offset) (contents m) @ data @ drop (unat offset + unat len) (contents m)"
proof -
  have bd: "block_device dev contents alloc" using assms(1,2) by unfold_locales
  note sz = block_device.unat_dev_size [OF bd]
  have "\<not> (offset \<ge> dev_size dev \<or> offset + len > dev_size dev)" "\<not> ref dev \<le> 0" "len \<noteq> 0"
    using transfer_accepted [OF assms(5,6)] assms(1,5) by (auto simp: driver_ok_def word_gt_0)
  moreover obtain m' where "tegrabl_blockdev_default_write alloc dev buf data offset len m = (Inr (), m')"
      "contents m' = patch_at (unat offset) data (contents m)"
    using block_device.default_write_ok [OF bd assms(4,3,5) _ assms(7)] assms(6) sz by metis
  ultimately show ?thesis using assms(7) by (auto simp: tegrabl_blockdev_write_def patch_at_def)
qed


text \<open>
  Data written through the block layer is read back unchanged, and a read of any other range still returns what it
  returned before the write.
\<close>
theorem blockdev_read_back:
  assumes "driver_ok dev contents" "alloc_ok alloc dev" "buf \<noteq> 0" "unat buf + unat (dev_size dev) < 2 ^ 64"
    and "data \<noteq> []" "p + length data \<le> unat (dev_size dev)"
    and "0 < l" "q + l \<le> unat (dev_size dev)" "q + l \<le> p \<or> p + length data \<le> q"
  shows "let wr = tegrabl_blockdev_write alloc (Some dev) buf data (of_nat p) (of_nat (length data));
             rd = (\<lambda>x n. tegrabl_blockdev_read alloc (Some dev) buf (of_nat x) (of_nat n))
         in bindE (wr m) (\<lambda>_. rd p (length data)) = (Inr data, snd (wr m)) \<and>
            bindE (wr m) (\<lambda>_. rd q l) = (fst (rd q l m), snd (wr m))"
proof -
  have bd: "block_device dev contents alloc" using assms(1,2) by unfold_locales
  note sz = block_device.unat_dev_size [OF bd]
  have bc: "block_client dev contents alloc buf"
    using bd assms(3,4) sz by (simp add: block_client_def block_client_axioms_def)
  show ?thesis
    using block_client.client_read_back [OF bc, of data p m] block_client.client_elsewhere [OF bc, of data p l q m] assms(5-9)
    by (simp add: Let_def sz)
qed

text \<open>
  (C15) Opening the SATA driver registers the disk, and opening storage type SATA with the same instance then returns a
  device whose block hooks meet the contract of the block layer on the sectors of that disk.
\<close>
theorem sata_open_serves_disk:
  assumes "ahci_ok a (sata_block_size_log2 ctx) (unat (sata_block_count ctx)) sectors"
    and "sata_block_size_log2 ctx \<le> 19" "sata_block_count ctx < 2 ^ 32"
    and "\<not> init_done s" "ahci_init (tegrabl_sata_set_default_context i) (disk s) = (Inr ctx, d)"
    and "ucast (instance_id ctx) = i" "bdevs env = Some hs" "h \<notin> set hs"
    and "\<And>x. x \<in> set hs \<Longrightarrow> \<exists>e. devices env x = Some e \<and> ref e \<noteq> 0 \<and> device_id e \<noteq> TEGRABL_BLOCK_DEVICE_ID 4 i"
  shows "\<exists>env1 env2. tegrabl_sata_bdev_open a ahci_init i True (Some h) env s =
      Some (Inr (), env1, s\<lparr>disk := d, init_done := True\<rparr>) \<and>
    tegrabl_blockdev_open 4 i env1 = Some (Some h, env2) \<and>
    devices env2 h = Some (sata_user_dev a ctx 2) \<and> driver_ok (sata_user_dev a ctx 2) (sectors \<circ> disk)"
proof -
  let ?env = "env\<lparr>devices := (devices env)(h \<mapsto> sata_user_dev a ctx 1), bdevs := Some (hs @ [h])\<rparr>"
  let ?id = "TEGRABL_BLOCK_DEVICE_ID 4 i"
  have id: "device_id (sata_user_dev a ctx r) = ?id" for r
    by (simp add: sata_user_dev_def sata_fill_hooks_def TEGRABL_BLOCK_DEVICE_ID_def assms(6))
  have "tegrabl_sata_register_region a ctx (Some h) env = Some (Inr (), ?env)"
  proof -
    have "tegrabl_blockdev_register_device (Some h) (env\<lparr>devices := (devices env)(h \<mapsto> sata_user_dev a ctx 0)\<rparr>) = Some (Inr (), ?env)"
      using assms(7-9) id by (subst registers_new [of _ hs _ "sata_user_dev a ctx 0"]) (fastforce simp: sata_user_dev_inc)+
    then show ?thesis
      using sata_user_dev_initialized [of ctx a] unfolding tegrabl_sata_register_region_def by auto
  qed
  then have op: "tegrabl_sata_bdev_open a ahci_init i True (Some h) env s = Some (Inr (), ?env, s\<lparr>disk := d, init_done := True\<rparr>)"
    using assms(4,5) by (simp add: tegrabl_sata_bdev_open_def on_disk_def)
  have "open_scan ?id (hs @ [h]) (devices ?env) = Some (Some h)"
    using assms(8,9) id by (intro open_scan_last) (auto simp: sata_user_dev_def sata_fill_hooks_def)
  then have "tegrabl_blockdev_open 4 i ?env = Some (Some h, ?env\<lparr>devices := (devices env)(h \<mapsto> sata_user_dev a ctx 2)\<rparr>)"
    by (simp add: tegrabl_blockdev_open_def sata_user_dev_inc)
  moreover have "driver_ok (sata_user_dev a ctx 2) (sectors \<circ> disk)"
    using sata_disk.sata_driver_ok [of a ctx sectors "\<lambda>_. 4" 2] assms(1-3) by (simp add: sata_disk_def)
  ultimately show ?thesis using op by auto
qed


section \<open>Witnesses\<close>

definition demo_state :: "bytes sata_state" where
  "demo_state = \<lparr>init_done = True, disk = replicate 510 1 @ [7, 8, 9, 10]\<rparr>"

lemma demo_dev_size: "unat (dev_size (sata_user_dev (demo_ahci 4) (demo_ctx 4) 2)) = 2048"
  by (simp add: sata_user_dev_def sata_fill_hooks_def zero_bdev_def demo_ctx_def push_bit_eq_mult)

lemma demo_bytes: "take 4 (drop 510 (demo_sectors 4 (disk demo_state))) = [7, 8, 9, 10]"
proof -
  have "drop 510 (demo_sectors 4 (disk demo_state)) = take 1538 ([7, 8, 9, 10] @ replicate 2048 0)"
    by (simp add: demo_sectors_def demo_state_def drop_take)
  then show ?thesis by (simp add: numeral_eq_Suc)
qed

text \<open>Four bytes across the boundary of the first two sectors.\<close>
theorem blockdev_read_exact_witness:
  "tegrabl_blockdev_read (\<lambda>_. 0x1000) (Some (sata_user_dev (demo_ahci 4) (demo_ctx 4) 2)) 0x2000 510 4 demo_state =
     (Inr [7, 8, 9, 10], demo_state)"
  using blockdev_read_exact [OF demo.sata_driver_ok demo.sata_alloc_ok, of "0x2000" 4 510 demo_state]
  by (simp add: demo_dev_size demo_bytes)

theorem blockdev_write_exact_witness:
  "\<exists>s. tegrabl_blockdev_write (\<lambda>_. 0x1000) (Some (sata_user_dev (demo_ahci 4) (demo_ctx 4) 2)) 0x2000 [1, 2] 511 2 demo_state = (Inr (), s) \<and>
     demo_sectors 4 (disk s) = take 511 (demo_sectors 4 (disk demo_state)) @ [1, 2] @ drop 513 (demo_sectors 4 (disk demo_state))"
  using blockdev_write_exact [OF demo.sata_driver_ok demo.sata_alloc_ok, of "0x2000" 2 511 "[1, 2]" demo_state]
  by (simp add: demo_dev_size)


theorem blockdev_read_back_witness:
  "fst (bindE (tegrabl_blockdev_write (\<lambda>_. 0x1000) (Some (sata_user_dev (demo_ahci 4) (demo_ctx 4) 2)) 0x2000 [1, 2] 511 2 demo_state)
     (\<lambda>_. tegrabl_blockdev_read (\<lambda>_. 0x1000) (Some (sata_user_dev (demo_ahci 4) (demo_ctx 4) 2)) 0x2000 511 2)) = Inr [1, 2]"
  using blockdev_read_back [OF demo.sata_driver_ok demo.sata_alloc_ok, of "0x2000" "[1, 2]" 511 1 0 demo_state]
  by (simp add: demo_dev_size Let_def)

theorem sata_open_serves_disk_witness:
  "\<exists>env1 env2. tegrabl_sata_bdev_open (demo_ahci 4) (\<lambda>c d. (Inr (demo_ctx 4), d)) 0 True (Some 1) \<lparr>bdevs = Some [], devices = Map.empty, xfer_id = 0\<rparr>
      \<lparr>init_done = False, disk = []\<rparr> = Some (Inr (), env1, \<lparr>init_done = True, disk = []\<rparr>) \<and>
    tegrabl_blockdev_open 4 0 env1 = Some (Some 1, env2) \<and> devices env2 1 = Some (sata_user_dev (demo_ahci 4) (demo_ctx 4) 2)"
  using sata_open_serves_disk [of "demo_ahci 4" "demo_ctx 4" "demo_sectors 4" "\<lparr>init_done = False, disk = []\<rparr>" "\<lambda>c d. (Inr (demo_ctx 4), d)" 0 "[]"
      "\<lparr>bdevs = Some [], devices = Map.empty, xfer_id = 0\<rparr>" "[]" 1] demo.engine demo.geometry
  by (auto simp: demo_ctx_def)

end
