(* ===== verification/Cboot_Gpt.thy ===== *)
theory Cboot_Gpt
  imports Cboot_Sata Cboot_String
begin

text \<open>
  The GUID partition table reader, \<^verbatim>\<open>common/lib/gpt/tegrabl_gpt.c\<close>: validation of a header, reading header and
  table from a block device with fallback to the secondary copy, and the list of partitions that is handed to the
  partition manager. The structures of \<^verbatim>\<open>tegrabl_gpt.h\<close> are records decoded from the buffer they are laid over.
\<close>

section \<open>Structures\<close>

definition field :: "nat \<Rightarrow> nat \<Rightarrow> bytes \<Rightarrow> bytes" where
  "field off n bs = take n (drop off bs)"

record tegrabl_gpt_header =
  signature :: bytes
  revision :: u32
  hdr_size :: u32
  hdr_crc32 :: u32
  rsvd :: u32
  curr_lba :: u64
  backup_lba :: u64
  hdr_first_lba :: u64
  hdr_last_lba :: u64
  disk_guid :: bytes
  table_start_lba :: u64
  num_entries :: u32
  entry_size :: u32
  table_crc32 :: u32

definition gpt_header_at :: "bytes \<Rightarrow> tegrabl_gpt_header" where
  "gpt_header_at b = \<lparr>signature = field 0 8 b, revision = le_word (field 8 4 b), hdr_size = le_word (field 12 4 b),
     hdr_crc32 = le_word (field 16 4 b), rsvd = le_word (field 20 4 b), curr_lba = le_word (field 24 8 b),
     backup_lba = le_word (field 32 8 b), hdr_first_lba = le_word (field 40 8 b), hdr_last_lba = le_word (field 48 8 b),
     disk_guid = field 56 16 b, table_start_lba = le_word (field 72 8 b), num_entries = le_word (field 80 4 b),
     entry_size = le_word (field 84 4 b), table_crc32 = le_word (field 88 4 b)\<rparr>"

record tegrabl_gpt_entry =
  ptype_guid :: bytes
  unique_guid :: bytes
  first_lba :: u64
  last_lba :: u64
  attribs :: u64
  pname :: "u16 list"

definition gpt_entry_at :: "bytes \<Rightarrow> tegrabl_gpt_entry" where
  "gpt_entry_at b = \<lparr>ptype_guid = field 0 16 b, unique_guid = field 16 16 b, first_lba = le_word (field 32 8 b),
     last_lba = le_word (field 40 8 b), attribs = le_word (field 48 8 b),
     pname = map (\<lambda>i. le_word (field (56 + 2 * i) 2 b)) [0..<36]\<rparr>"

text \<open>\<^verbatim>\<open>struct tegrabl_partition_info\<close> of the partition manager; the arrays of characters as strings.\<close>

record tegrabl_partition_info =
  part_name :: string
  part_guid :: string
  part_ptype_guid :: string
  start_sector :: u64
  num_sectors :: u64
  total_size :: u64

definition gpt_error :: "u8 \<Rightarrow> u32 \<Rightarrow> tegrabl_error_t" where
  "gpt_error aux reason = tegrabl_error_value MOD_GPT aux reason"


section \<open>Reading a table\<close>

definition byte_string :: "bytes \<Rightarrow> string" where
  "byte_string bs = map (\<lambda>b. char_of (unat b)) bs"

text \<open>
  The header check. It clears the checksum field of the buffer while it computes the checksum, and leaves it
  cleared when the comparison fails; the second component is the buffer afterwards.
\<close>

definition tegrabl_gpt_validate_header :: "bytes \<Rightarrow> u64 \<Rightarrow> unit result \<times> bytes" where
  "tegrabl_gpt_validate_header buf total_blocks =
     (let hdr = gpt_header_at buf
      in if total_blocks = 0 then (Inl (gpt_error 0 ERR_INVALID), buf)
         else if strncmp (byte_string (signature hdr)) ''EFI PART'' 8 \<noteq> 0 then (Inl (gpt_error 0 ERR_VERIFY_FAILED), buf)
         else if hdr_size hdr \<noteq> 0x5C then (Inl (gpt_error 1 ERR_INVALID), buf)
         else
           let cleared = patch_at 16 [0, 0, 0, 0] buf
           in if hdr_crc32 hdr \<noteq> tegrabl_utils_crc32 0 (take (unat (hdr_size hdr)) cleared)
              then (Inl (gpt_error 1 ERR_VERIFY_FAILED), cleared)
              else
                let buf' = patch_at 16 (le_bytes 4 (hdr_crc32 hdr)) cleared
                in if hdr_first_lba hdr \<ge> total_blocks \<or> hdr_last_lba hdr \<ge> total_blocks
                   then (Inl (gpt_error 2 ERR_INVALID), buf')
                   else (Inr (), buf'))"

text \<open>
  \<^verbatim>\<open>tegrabl_gpt_read_validate\<close> as it is called, with \<^verbatim>\<open>*buf\<close> null: it allocates the buffer, returns it when the table is
  sound and frees it otherwise. \<open>alloc\<close> is the DMA heap. The table is stored behind the header block whatever its
  size: a table of more than \<open>128 * 128\<close> bytes makes the list longer, where the code writes behind its buffer.
\<close>

definition gpt_buffer_size :: "'m tegrabl_bdev \<Rightarrow> u32" where
  "gpt_buffer_size dev = 128 * 128 + ucast (TEGRABL_BLOCKDEV_BLOCK_SIZE dev)"

definition gpt_read_header ::
  "u64 \<Rightarrow> 'm tegrabl_bdev \<Rightarrow> off_t \<Rightarrow> 'm \<Rightarrow> bytes result \<times> 'm" where
  "gpt_read_header buffer dev offset m =
     bindE (highest MOD_GPT
              (tegrabl_blockdev_read_block (Some dev) buffer (ucast (DIV_CEIL_LOG2 offset (block_size_log2 dev))) 1 m))
       (\<lambda>block m1.
          let buf = patch_at 0 block (replicate (unat (gpt_buffer_size dev)) 0)
          in case tegrabl_gpt_validate_header buf (ucast (block_count dev)) of
               (Inl e, _) \<Rightarrow> (Inl e, m1)
             | (Inr _, buf1) \<Rightarrow> (Inr buf1, m1))"

definition gpt_read_table :: "u64 \<Rightarrow> 'm tegrabl_bdev \<Rightarrow> bytes \<Rightarrow> 'm \<Rightarrow> bytes result \<times> 'm" where
  "gpt_read_table buffer dev buf m =
     (let hdr = gpt_header_at buf;
          table_size = num_entries hdr * entry_size hdr;
          bs = unat (TEGRABL_BLOCKDEV_BLOCK_SIZE dev)
      in bindE (highest MOD_GPT
                  (tegrabl_blockdev_read_block (Some dev) (buffer + TEGRABL_BLOCKDEV_BLOCK_SIZE dev)
                     (ucast (table_start_lba hdr)) (ucast (DIV_CEIL_LOG2 (ucast table_size) (block_size_log2 dev))) m))
           (\<lambda>table m1.
              let buf1 = patch_at bs table buf
              in if table_crc32 hdr \<noteq> tegrabl_utils_crc32 0 (take (unat table_size) (drop bs buf1))
                 then (Inl (gpt_error 2 ERR_VERIFY_FAILED), m1)
                 else (Inr buf1, m1)))"

definition tegrabl_gpt_read_validate ::
  "(u64 \<Rightarrow> u64) \<Rightarrow> 'm tegrabl_bdev option \<Rightarrow> off_t \<Rightarrow> 'm \<Rightarrow> bytes result \<times> 'm" where
  "tegrabl_gpt_read_validate alloc dev offset m =
     (case dev of None \<Rightarrow> (Inl (gpt_error 3 ERR_INVALID), m)
      | Some d \<Rightarrow>
          let buffer = alloc (ucast (gpt_buffer_size d))
          in if buffer = 0 then (Inl (gpt_error 0 ERR_NO_MEMORY), m)
             else bindE (gpt_read_header buffer d offset m) (\<lambda>buf m1. gpt_read_table buffer d buf m1))"

fun gpt_try :: "(u64 \<Rightarrow> u64) \<Rightarrow> 'm tegrabl_bdev option \<Rightarrow> off_t list \<Rightarrow> 'm \<Rightarrow> bytes result \<times> 'm" where
  "gpt_try alloc dev [] m = (Inl (gpt_error 0 ERR_NOT_FOUND), m)"
| "gpt_try alloc dev (off # offs) m =
     (case tegrabl_gpt_read_validate alloc dev off m of
        (Inr buf, m1) \<Rightarrow> (Inr buf, m1)
      | (Inl _, m1) \<Rightarrow> gpt_try alloc dev offs m1)"

definition tegrabl_gpt_read ::
  "(u64 \<Rightarrow> u64) \<Rightarrow> 'm tegrabl_bdev option \<Rightarrow> off_t \<Rightarrow> 'm \<Rightarrow> bytes result \<times> 'm" where
  "tegrabl_gpt_read alloc dev offset m =
     (case dev of None \<Rightarrow> (Inl (gpt_error 4 ERR_INVALID), m)
      | Some d \<Rightarrow>
          let block_size = ucast (TEGRABL_BLOCKDEV_BLOCK_SIZE d) :: u32;
              offsets = (if offset > 0 then [offset]
                         else [ucast block_size, dev_size d - ucast block_size])
          in gpt_try alloc dev offsets m)"


section \<open>Publishing the partitions\<close>

definition set_hex :: "u8 \<Rightarrow> string" where
  "set_hex guid =
     (let high = unat (drop_bit 4 guid); low = unat (guid AND 0x0F);
          hex = (\<lambda>d. if d > 9 then char_of (97 + d - 10) else char_of (48 + d))
      in [hex high, hex low])"

definition guid_to_str :: "bytes \<Rightarrow> string" where
  "guid_to_str guid =
     set_hex (guid ! 3) @ set_hex (guid ! 2) @ set_hex (guid ! 1) @ set_hex (guid ! 0) @ ''-'' @
     set_hex (guid ! 5) @ set_hex (guid ! 4) @ ''-'' @ set_hex (guid ! 7) @ set_hex (guid ! 6) @ ''-'' @
     set_hex (guid ! 8) @ set_hex (guid ! 9) @ ''-'' @ set_hex (guid ! 10) @ set_hex (guid ! 11) @
     set_hex (guid ! 12) @ set_hex (guid ! 13) @ set_hex (guid ! 14) @ set_hex (guid ! 15)"

definition gpt_partition_info :: "'m tegrabl_bdev \<Rightarrow> tegrabl_gpt_entry \<Rightarrow> tegrabl_partition_info" where
  "gpt_partition_info dev e = \<lparr>
     part_name = map (\<lambda>c. char_of (unat (c AND 0xFF))) (pname e),
     part_guid = guid_to_str (unique_guid e), part_ptype_guid = guid_to_str (ptype_guid e),
     start_sector = first_lba e, num_sectors = last_lba e - first_lba e + 1,
     total_size = push_bit (block_size_log2 dev) (last_lba e - first_lba e + 1)\<rparr>"

definition gpt_entries :: "nat \<Rightarrow> bytes \<Rightarrow> tegrabl_gpt_entry list" where
  "gpt_entries bs buf = map (\<lambda>i. gpt_entry_at (drop (bs + 128 * i) buf)) [0..<128]"

text \<open>
  The two passes over the table: the first counts the used entries, the second fills the allocated array and stops
  when it is full.
\<close>

fun count_used :: "tegrabl_gpt_entry list \<Rightarrow> nat" where
  "count_used [] = 0"
| "count_used (e # es) = (if last_lba e > first_lba e then 1 else 0) + count_used es"

fun fill_partitions :: "'m tegrabl_bdev \<Rightarrow> nat \<Rightarrow> tegrabl_gpt_entry list \<Rightarrow> tegrabl_partition_info list \<Rightarrow> tegrabl_partition_info list" where
  "fill_partitions dev n [] acc = acc"
| "fill_partitions dev n (e # es) acc =
     (if last_lba e \<le> first_lba e then fill_partitions dev n es acc
      else let acc1 = acc @ [gpt_partition_info dev e]
           in if length acc1 = n then acc1 else fill_partitions dev n es acc1)"

definition tegrabl_gpt_publish ::
  "(u64 \<Rightarrow> u64) \<Rightarrow> (u64 \<Rightarrow> bool) \<Rightarrow> 'm tegrabl_bdev option \<Rightarrow> off_t \<Rightarrow> 'm \<Rightarrow> tegrabl_partition_info list result \<times> 'm" where
  "tegrabl_gpt_publish alloc malloc_ok dev offset m =
     (case dev of None \<Rightarrow> (Inl (gpt_error 5 ERR_INVALID), m)
      | Some d \<Rightarrow>
          bindE (tegrabl_gpt_read alloc dev offset m) (\<lambda>buf m1.
            let entries = gpt_entries (unat (TEGRABL_BLOCKDEV_BLOCK_SIZE d)) buf;
                n = count_used entries
            in if \<not> malloc_ok (144 * of_nat n) then (Inl (gpt_error 1 ERR_NO_MEMORY), m1)
               else (Inr (fill_partitions d n entries []), m1)))"


section \<open>The format of a table\<close>

text \<open>
  A reference encoder for the two structures. A copy of the table is sound when the header carries its own checksum
  and that of the table, and its limits lie on the device.
\<close>

definition encode_header :: "tegrabl_gpt_header \<Rightarrow> bytes" where
  "encode_header h = signature h @ le_bytes 4 (revision h) @ le_bytes 4 (hdr_size h) @ le_bytes 4 (hdr_crc32 h) @
     le_bytes 4 (rsvd h) @ le_bytes 8 (curr_lba h) @ le_bytes 8 (backup_lba h) @ le_bytes 8 (hdr_first_lba h) @
     le_bytes 8 (hdr_last_lba h) @ disk_guid h @ le_bytes 8 (table_start_lba h) @ le_bytes 4 (num_entries h) @
     le_bytes 4 (entry_size h) @ le_bytes 4 (table_crc32 h)"

definition encode_entry :: "tegrabl_gpt_entry \<Rightarrow> bytes" where
  "encode_entry e = ptype_guid e @ unique_guid e @ le_bytes 8 (first_lba e) @ le_bytes 8 (last_lba e) @
     le_bytes 8 (attribs e) @ concat (map (le_bytes 2) (pname e))"

definition wf_header :: "tegrabl_gpt_header \<Rightarrow> bool" where
  "wf_header h \<longleftrightarrow> length (signature h) = 8 \<and> length (disk_guid h) = 16"

definition wf_entry :: "tegrabl_gpt_entry \<Rightarrow> bool" where
  "wf_entry e \<longleftrightarrow> length (ptype_guid e) = 16 \<and> length (unique_guid e) = 16 \<and> length (pname e) = 36"

definition efi_part :: bytes where
  "efi_part = [0x45, 0x46, 0x49, 0x20, 0x50, 0x41, 0x52, 0x54]"

definition sound_header :: "u64 \<Rightarrow> tegrabl_gpt_header \<Rightarrow> bool" where
  "sound_header total_blocks h \<longleftrightarrow> signature h = efi_part \<and> hdr_size h = 0x5C \<and>
     hdr_crc32 h = tegrabl_utils_crc32 0 (encode_header (h\<lparr>hdr_crc32 := 0\<rparr>)) \<and>
     hdr_first_lba h < total_blocks \<and> hdr_last_lba h < total_blocks"

lemma length_encode_header: "wf_header h \<Longrightarrow> length (encode_header h) = 92"
  by (simp add: encode_header_def wf_header_def)

lemma decode_header: "wf_header h \<Longrightarrow> gpt_header_at (encode_header h @ rest) = h"
  by (simp add: gpt_header_at_def encode_header_def wf_header_def field_def drop_append take_append)

lemma decode_name: "i < length xs \<Longrightarrow> field (2 * i) 2 (concat (map (le_bytes 2) xs) @ rest) = le_bytes 2 (xs ! i)"
proof (induction xs arbitrary: i)
  case (Cons x xs)
  then show ?case by (cases i) (auto simp: field_def)
qed simp

lemma length_encode_entry: "wf_entry e \<Longrightarrow> length (encode_entry e) = 128"
proof -
  have "length (concat (map (le_bytes 2) xs)) = 2 * length xs" for xs :: "u16 list"
    by (induction xs) simp_all
  then show "wf_entry e \<Longrightarrow> length (encode_entry e) = 128" by (simp add: encode_entry_def wf_entry_def)
qed

lemma decode_entry:
  assumes "wf_entry e"
  shows "gpt_entry_at (encode_entry e @ rest) = e"
proof -
  have "map (\<lambda>i. le_word (field (56 + 2 * i) 2 (encode_entry e @ rest))) [0..<36] = pname e"
  proof (rule nth_equalityI)
    fix i
    assume "i < length (map (\<lambda>i. le_word (field (56 + 2 * i) 2 (encode_entry e @ rest)) :: u16) [0..<36])"
    then have i: "i < 36" by simp
    have "field (56 + 2 * i) 2 (encode_entry e @ rest) = field (2 * i) 2 (concat (map (le_bytes 2) (pname e)) @ rest)"
      using assms by (simp add: field_def encode_entry_def wf_entry_def drop_append)
    then show "map (\<lambda>i. le_word (field (56 + 2 * i) 2 (encode_entry e @ rest))) [0..<36] ! i = pname e ! i"
      using i assms by (simp add: decode_name wf_entry_def)
  qed (use assms in \<open>simp add: wf_entry_def\<close>)
  then show ?thesis
    using assms by (simp add: gpt_entry_at_def) (simp add: encode_entry_def wf_entry_def field_def drop_append take_append)
qed

lemma inj_byte_string: "byte_string s = byte_string t \<longleftrightarrow> s = t"
proof -
  have "inj (\<lambda>b :: u8. char_of (unat b) :: char)"
  proof (rule injI)
    fix a b :: u8
    assume "(char_of (unat a) :: char) = char_of (unat b)"
    then have "(of_char (char_of (unat a)) :: nat) = of_char (char_of (unat b))" by simp
    moreover have "unat a < 256" "unat b < 256"
      using unsigned_less [of a, where 'a = nat] unsigned_less [of b, where 'a = nat] by simp_all
    ultimately show "a = b" by (simp add: word_unat_eq_iff)
  qed
  then show ?thesis unfolding byte_string_def by (simp add: inj_map_eq_map)
qed

lemma efi_part_strncmp:
  assumes "length s = 8"
  shows "strncmp (byte_string s) ''EFI PART'' 8 = 0 \<longleftrightarrow> s = efi_part"
proof -
  have str: "byte_string efi_part = ''EFI PART''" by code_simp
  have "take 8 (cstr (byte_string s)) = ''EFI PART'' \<longleftrightarrow> byte_string s = ''EFI PART''"
  proof
    assume "take 8 (cstr (byte_string s)) = ''EFI PART''"
    moreover from this have "8 \<le> length (cstr (byte_string s))" by (auto dest: arg_cong [where f = length])
    moreover have "length (byte_string s) = 8" using assms by (simp add: byte_string_def)
    moreover have "cstr (byte_string s) = take (length (cstr (byte_string s))) (byte_string s)"
      unfolding cstr_def by (rule takeWhile_eq_take)
    ultimately show "byte_string s = ''EFI PART''" by simp
  qed (simp add: cstr_def)
  moreover have "take 8 (cstr ''EFI PART'') = ''EFI PART''" by (simp add: cstr_def)
  ultimately show ?thesis by (simp add: strncmp_zero flip: str inj_byte_string)
qed

lemma validate_encoded:
  assumes "wf_header h" "total_blocks \<noteq> 0"
  shows "sound_header total_blocks h \<Longrightarrow>
      tegrabl_gpt_validate_header (encode_header h @ rest) total_blocks = (Inr (), encode_header h @ rest)"
    and "\<not> sound_header total_blocks h \<Longrightarrow> \<exists>e b. tegrabl_gpt_validate_header (encode_header h @ rest) total_blocks = (Inl e, b)"
proof -
  have clr: "take 92 (patch_at 16 [0, 0, 0, 0] (encode_header h @ rest)) = encode_header (h\<lparr>hdr_crc32 := 0\<rparr>)"
    using assms(1) by (simp add: patch_at_def encode_header_def wf_header_def take_append drop_append numeral_eq_Suc)
  have restore: "patch_at 16 (le_bytes 4 (hdr_crc32 h)) (patch_at 16 [0, 0, 0, 0] (encode_header h @ rest)) = encode_header h @ rest"
    using assms(1) by (simp add: patch_at_def encode_header_def wf_header_def take_append drop_append)
  have sg: "length (signature h) = 8" using assms(1) by (simp add: wf_header_def)
  note hd = decode_header [OF assms(1), of rest]
  show "sound_header total_blocks h \<Longrightarrow>
      tegrabl_gpt_validate_header (encode_header h @ rest) total_blocks = (Inr (), encode_header h @ rest)"
    using assms(2) efi_part_strncmp [OF sg] clr restore
    by (auto simp: tegrabl_gpt_validate_header_def hd sound_header_def Let_def)
  show "\<not> sound_header total_blocks h \<Longrightarrow> \<exists>e b. tegrabl_gpt_validate_header (encode_header h @ rest) total_blocks = (Inl e, b)"
    using assms(2) efi_part_strncmp [OF sg] clr
    by (auto simp: tegrabl_gpt_validate_header_def hd sound_header_def Let_def)
qed


definition used_entry :: "tegrabl_gpt_entry \<Rightarrow> bool" where
  "used_entry e \<longleftrightarrow> last_lba e > first_lba e"

lemma count_used: "count_used es = length (filter used_entry es)"
  by (induction es) (simp_all add: used_entry_def)

lemma fill_partitions_all:
  "n = length acc + count_used es \<Longrightarrow> fill_partitions dev n es acc = acc @ map (gpt_partition_info dev) (filter used_entry es)"
proof (induction es arbitrary: acc)
  case (Cons e es)
  show ?case
  proof (cases "used_entry e")
    case True
    then have u: "\<not> last_lba e \<le> first_lba e" "first_lba e < last_lba e" by (auto simp: used_entry_def)
    show ?thesis
    proof (cases "count_used es = 0")
      case nil: True
      then have "filter used_entry es = []" by (simp add: count_used)
      with nil u True Cons.prems show ?thesis by (simp add: Let_def)
    next
      case False
      with u True Cons.prems Cons.IH [of "acc @ [gpt_partition_info dev e]"] show ?thesis by (simp add: Let_def)
    qed
  next
    case False
    then have "last_lba e \<le> first_lba e" "\<not> first_lba e < last_lba e" by (auto simp: used_entry_def)
    with False Cons show ?thesis by simp
  qed
qed simp

lemma drop_blocks:
  assumes "\<And>e. e \<in> set es \<Longrightarrow> length (f e) = n"
  shows "drop (n * i) (concat (map f es)) = concat (map f (drop i es))"
  using assms
proof (induction es arbitrary: i)
  case (Cons e es)
  then show ?case by (cases i) auto
qed simp

lemma length_table: "list_all wf_entry es \<Longrightarrow> length (concat (map encode_entry es)) = 128 * length es"
  by (induction es) (simp_all add: length_encode_entry)

lemma gpt_entries_encoded:
  assumes "list_all wf_entry es" "length es = 128" "length hb = bs"
  shows "gpt_entries bs (hb @ concat (map encode_entry es)) = es"
proof (rule nth_equalityI)
  show "length (gpt_entries bs (hb @ concat (map encode_entry es))) = length es" by (simp add: gpt_entries_def assms(2))
  fix i
  assume "i < length (gpt_entries bs (hb @ concat (map encode_entry es)))"
  then have i: "i < 128" by (simp add: gpt_entries_def)
  have "drop (bs + 128 * i) (hb @ concat (map encode_entry es)) = drop (128 * i) (concat (map encode_entry es))"
    using assms(3) by simp
  also have "\<dots> = concat (map encode_entry (drop i es))"
    using assms(1) by (intro drop_blocks) (auto simp: list_all_iff length_encode_entry)
  also have "\<dots> = encode_entry (es ! i) @ concat (map encode_entry (drop (Suc i) es))"
    using i assms(2) by (simp add: Cons_nth_drop_Suc [symmetric])
  finally show "gpt_entries bs (hb @ concat (map encode_entry es)) ! i = es ! i"
    using i assms(1,2) by (simp add: gpt_entries_def decode_entry list_all_length)
qed

lemma unat_DIV_CEIL_LOG2:
  assumes "unat n + 2 ^ k < 2 ^ 64"
  shows "unat (DIV_CEIL_LOG2 n k) = (unat n + 2 ^ k - 1) div 2 ^ k"
proof -
  have k: "(2 :: nat) ^ k < 2 ^ 64" using assms by simp
  then have p: "unat (push_bit k 1 :: u64) = 2 ^ k" using unat_push_bit64 [of k 1] by simp
  then have "unat (n + push_bit k 1) = unat n + 2 ^ k" using assms by (subst unat_add_lem [THEN iffD1]) simp_all
  moreover have "(1 :: nat) \<le> 2 ^ k" by simp
  ultimately have "1 \<le> unat (n + push_bit k 1)" "unat (n + push_bit k 1) = unat n + 2 ^ k" by (linarith, simp)
  then have "unat (n + push_bit k 1 - 1) = unat n + 2 ^ k - 1" by (subst unat_sub) (simp_all add: word_le_nat_alt)
  then show ?thesis unfolding DIV_CEIL_LOG2_def unat_drop_bit_eq by (simp only: drop_bit_eq_div)
qed

lemma div_ceil_exact:
  fixes q b :: nat
  assumes "0 < b"
  shows "(q * b + b - 1) div b = q"
proof -
  have "q * b + b - 1 = (b - 1) + q * b" using assms by simp
  also have "\<dots> div b = q" using assms by (subst div_mult_self1) simp_all
  finally show ?thesis .
qed

section \<open>Reading a sound copy\<close>

definition gpt_heap_ok :: "(u64 \<Rightarrow> u64) \<Rightarrow> 'm tegrabl_bdev \<Rightarrow> bool" where
  "gpt_heap_ok alloc dev \<longleftrightarrow> (\<forall>n. \<forall>a \<in> {alloc n, alloc n + TEGRABL_BLOCKDEV_BLOCK_SIZE dev}.
     a \<noteq> 0 \<and> tegrabl_blockdev_buffer_aligned dev a)"

definition gpt_table :: "nat \<Rightarrow> bytes \<Rightarrow> tegrabl_gpt_header \<Rightarrow> tegrabl_gpt_entry list \<Rightarrow> bool" where
  "gpt_table bs img h es \<longleftrightarrow> num_entries h = 128 \<and> entry_size h = 128 \<and> list_all wf_entry es \<and> length es = 128 \<and>
     unat (table_start_lba h) * bs + 16384 \<le> length img \<and>
     take 16384 (drop (unat (table_start_lba h) * bs) img) = concat (map encode_entry es) \<and>
     table_crc32 h = tegrabl_utils_crc32 0 (concat (map encode_entry es))"

definition gpt_header_block :: "nat \<Rightarrow> bytes \<Rightarrow> nat \<Rightarrow> tegrabl_gpt_header \<Rightarrow> bool" where
  "gpt_header_block bs img lba h \<longleftrightarrow> wf_header h \<and> take 92 (drop (lba * bs) img) = encode_header h"


definition header_buffer :: "nat \<Rightarrow> bytes \<Rightarrow> nat \<Rightarrow> bytes" where
  "header_buffer bs img lba = take bs (drop (lba * bs) img) @ replicate 16384 0"

text \<open>A block device with sectors of 512 bytes to 16 KiB and a DMA heap with aligned buffers.\<close>

locale gpt_device = block_device +
  assumes sectors: "9 \<le> block_size_log2 dev" "block_size_log2 dev \<le> 14"
    and buffers: "gpt_heap_ok alloc dev"
begin

lemma B_range: "512 \<le> B" "B \<le> 16384"
  using power_increasing [OF sectors(1), of "2 :: nat"] power_increasing [OF sectors(2), of "2 :: nat"] by simp_all

lemma table_blocks: "2 ^ (14 - K) * B = 16384"
  using sectors by (simp flip: power_add)

lemma buffer_ok:
  "alloc n \<noteq> 0" "tegrabl_blockdev_buffer_aligned dev (alloc n)"
  "alloc n + TEGRABL_BLOCKDEV_BLOCK_SIZE dev \<noteq> 0" "tegrabl_blockdev_buffer_aligned dev (alloc n + TEGRABL_BLOCKDEV_BLOCK_SIZE dev)"
  using buffers by (auto simp: gpt_heap_ok_def)

lemma buffer_size: "unat (gpt_buffer_size dev) = 16384 + B"
proof -
  have "unat (ucast (TEGRABL_BLOCKDEV_BLOCK_SIZE dev) :: u32) = B"
    using B_range by (simp add: unat_ucast_u32 unat_block_size)
  then show ?thesis
    unfolding gpt_buffer_size_def using B_range by (subst unat_add_lem [THEN iffD1]) simp_all
qed

lemma block_length: "lba < N \<Longrightarrow> length (take B (drop (lba * B) (contents m))) = B"
proof -
  assume "lba < N"
  then have "(lba + 1) * B \<le> N * B" by (intro mult_le_mono1) simp
  then show ?thesis by (simp add: contents_length)
qed

lemma header_buffer_eq:
  assumes "lba < N" "gpt_header_block B (contents m) lba h"
  shows "\<exists>rest. header_buffer B (contents m) lba = encode_header h @ rest" "wf_header h" "length (take B (drop (lba * B) (contents m))) = B"
proof -
  show "length (take B (drop (lba * B) (contents m))) = B" using assms(1) by (rule block_length)
  show "wf_header h" using assms(2) by (simp add: gpt_header_block_def)
  have "take B (drop (lba * B) (contents m)) = take 92 (drop (lba * B) (contents m)) @ take (B - 92) (drop 92 (drop (lba * B) (contents m)))"
    using B_range(1) take_add [of 92 "B - 92" "drop (lba * B) (contents m)"] by simp
  then show "\<exists>rest. header_buffer B (contents m) lba = encode_header h @ rest"
    using assms(2) by (auto simp: header_buffer_def gpt_header_block_def)
qed

lemma read_header:
  assumes "lba < N" "ucast (DIV_CEIL_LOG2 offset K) = (of_nat lba :: u32)" "gpt_header_block B (contents m) lba h"
  shows "sound_header (ucast (block_count dev)) h \<Longrightarrow> gpt_read_header (alloc n) dev offset m = (Inr (header_buffer B (contents m) lba), m)"
    and "\<not> sound_header (ucast (block_count dev)) h \<Longrightarrow> \<exists>e. gpt_read_header (alloc n) dev offset m = (Inl e, m)"
proof -
  have nz: "(ucast (block_count dev) :: u64) \<noteq> 0"
    using assms(1) unat_ucast_32_64 [of "block_count dev"] by auto
  have read: "tegrabl_blockdev_read_block (Some dev) (alloc n) (of_nat lba) 1 m = (Inr (take B (drop (lba * B) (contents m))), m)"
    using read_blocks [OF buffer_ok(2,1), of 1 lba n m] assms(1) by simp
  have buf: "patch_at 0 (take B (drop (lba * B) (contents m))) (replicate (unat (gpt_buffer_size dev)) 0) = header_buffer B (contents m) lba"
    using header_buffer_eq(3) [OF assms(1,3)] by (simp add: patch_at_def header_buffer_def buffer_size)
  obtain rest where rest: "header_buffer B (contents m) lba = encode_header h @ rest" using header_buffer_eq(1) [OF assms(1,3)] by blast
  note val = validate_encoded [OF header_buffer_eq(2) [OF assms(1,3)] nz, of rest]
  show "sound_header (ucast (block_count dev)) h \<Longrightarrow> gpt_read_header (alloc n) dev offset m = (Inr (header_buffer B (contents m) lba), m)"
    using val(1) by (simp add: gpt_read_header_def assms(2) read buf rest Let_def)
  show "\<not> sound_header (ucast (block_count dev)) h \<Longrightarrow> \<exists>e. gpt_read_header (alloc n) dev offset m = (Inl e, m)"
    using val(2) by (auto simp: gpt_read_header_def assms(2) read buf rest Let_def)
qed

lemma read_table:
  assumes "lba < N" "gpt_header_block B (contents m) lba h" "gpt_table B (contents m) h es"
  shows "gpt_read_table (alloc n) dev (header_buffer B (contents m) lba) m =
    (Inr (take B (drop (lba * B) (contents m)) @ concat (map encode_entry es)), m)"
proof -
  obtain rest where rest: "header_buffer B (contents m) lba = encode_header h @ rest" using header_buffer_eq(1) [OF assms(1,2)] by blast
  have hd: "gpt_header_at (header_buffer B (contents m) lba) = h"
    by (simp add: rest decode_header header_buffer_eq(2) [OF assms(1,2)])
  have n: "num_entries h * entry_size h = 16384" using assms(3) by (simp add: gpt_table_def)
  have cnt: "(ucast (DIV_CEIL_LOG2 (ucast (16384 :: u32)) K) :: u32) = of_nat (2 ^ (14 - K))"
  proof -
    have "unat (16384 :: u64) + 2 ^ K < 2 ^ 64" using B_range(2) by simp
    from unat_DIV_CEIL_LOG2 [OF this] have "unat (DIV_CEIL_LOG2 16384 K) = 2 ^ (14 - K)"
      using div_ceil_exact [of B "2 ^ (14 - K)"] by (simp add: table_blocks del: One_nat_def)
    then have "of_nat (unat (DIV_CEIL_LOG2 16384 K)) = (of_nat (2 ^ (14 - K)) :: u32)" by (simp only:)
    then show ?thesis by simp
  qed
  have "(unat (table_start_lba h) + 2 ^ (14 - K)) * B \<le> N * B"
    using assms(3) table_blocks by (simp add: gpt_table_def contents_length add_mult_distrib)
  then have le: "unat (table_start_lba h) + 2 ^ (14 - K) \<le> N" by simp
  have "tegrabl_blockdev_read_block (Some dev) (alloc n + TEGRABL_BLOCKDEV_BLOCK_SIZE dev)
      (of_nat (unat (table_start_lba h))) (of_nat (2 ^ (14 - K))) m = (Inr (concat (map encode_entry es)), m)"
    using read_blocks [OF buffer_ok(4,3) _ le] assms(3) by (simp add: table_blocks gpt_table_def)
  moreover have "(of_nat (unat (table_start_lba h)) :: u32) = ucast (table_start_lba h)" by simp
  ultimately have read: "tegrabl_blockdev_read_block (Some dev) (alloc n + TEGRABL_BLOCKDEV_BLOCK_SIZE dev)
      (ucast (table_start_lba h)) (of_nat (2 ^ (14 - K))) m = (Inr (concat (map encode_entry es)), m)" by simp
  have len: "length (concat (map encode_entry es)) = 16384" using assms(3) by (simp add: gpt_table_def length_table)
  have buf: "patch_at B (concat (map encode_entry es)) (header_buffer B (contents m) lba) =
      take B (drop (lba * B) (contents m)) @ concat (map encode_entry es)"
    using header_buffer_eq(3) [OF assms(1,2)] len by (simp add: patch_at_def header_buffer_def)
  show ?thesis
    unfolding gpt_read_table_def Let_def hd n cnt read unat_block_size
    using header_buffer_eq(3) [OF assms(1,2)] len assms(3) by (simp add: buf gpt_table_def)
qed
end


lemma length_field: "p + n \<le> length xs \<Longrightarrow> length (field p n xs) = n"
  by (simp add: field_def)

lemma le_bytes_field:
  "p + n \<le> length xs \<Longrightarrow> 8 * n \<le> LENGTH('a) \<Longrightarrow> le_bytes n (le_word (field p n xs) :: 'a::len word) = field p n xs"
  using le_bytes_le_word [of "field p n xs", where 'a = 'a] by (simp add: length_field)

lemma encode_decode_header:
  assumes "length xs = 92"
  shows "encode_header (gpt_header_at xs) = xs" "wf_header (gpt_header_at xs)"
proof -
  have app: "field p n xs @ drop (p + n) xs = drop p xs" for p n
    unfolding field_def by (metis append_take_drop_id drop_drop add.commute)
  have f88: "field 88 4 xs = drop 88 xs" using assms by (simp add: field_def)
  then have "le_bytes 4 (le_word (drop 88 xs) :: u32) = drop 88 xs" using le_bytes_field [of 88 4 xs, where 'a = 32] assms by simp
  then show "encode_header (gpt_header_at xs) = xs"
    using app [of 84 4] app [of 80 4] app [of 72 8] app [of 56 16] app [of 48 8] app [of 40 8] app [of 32 8] app [of 24 8]
      app [of 20 4] app [of 16 4] app [of 12 4] app [of 8 4] app [of 0 8] f88
    by (simp add: encode_header_def gpt_header_at_def le_bytes_field assms)
  show "wf_header (gpt_header_at xs)" by (simp add: wf_header_def gpt_header_at_def length_field assms)
qed

lemma clear_crc:
  assumes "wf_header h"
  shows "encode_header (h\<lparr>hdr_crc32 := 0\<rparr>) = patch_at 16 [0, 0, 0, 0] (encode_header h)"
  using assms by (simp add: patch_at_def encode_header_def wf_header_def take_append drop_append numeral_eq_Suc)

lemma crc_field: "wf_header h \<Longrightarrow> field 16 4 (encode_header h) = le_bytes 4 (hdr_crc32 h)"
  by (simp add: encode_header_def wf_header_def field_def drop_append take_append)

lemma patch_at_update:
  assumes "length xs = n" "p + length d \<le> n" "i < n"
  shows "patch_at p d (xs[i := b]) = (if p \<le> i \<and> i < p + length d then patch_at p d xs else (patch_at p d xs)[i := b])"
proof -
  consider "i < p" | "p \<le> i" "i < p + length d" | "p + length d \<le> i" by linarith
  then show ?thesis
  proof cases
    case 1
    with assms show ?thesis by (simp add: patch_at_def take_update_swap drop_update_cancel list_update_append)
  next
    case 2
    with assms show ?thesis by (simp add: patch_at_def take_update_cancel drop_update_cancel)
  next
    case 3
    then have "\<not> i - p < length d" by arith
    with 3 assms show ?thesis by (simp add: patch_at_def take_update_cancel drop_update_swap list_update_append)
  qed
qed

lemma le_bytes_4_inj:
  fixes x y :: u32
  assumes "le_bytes 4 x = le_bytes 4 y"
  shows "x = y"
proof -
  have "x = le_word (le_bytes 4 x)" by (rule le_word_le_bytes [symmetric]) simp
  also have "\<dots> = le_word (le_bytes 4 y)" by (simp only: assms)
  also have "\<dots> = y" by (rule le_word_le_bytes) simp
  finally show ?thesis .
qed

text \<open>Changing any one byte of a sound header makes it unsound.\<close>

lemma corrupt_header_unsound:
  assumes "wf_header h" "sound_header n h" "i < 92" "b \<noteq> encode_header h ! i"
  shows "\<not> sound_header n (gpt_header_at ((encode_header h)[i := b]))"
proof
  let ?xs = "encode_header h" and ?z = "patch_at 16 [0, 0, 0, 0] (encode_header h)" and ?h = "gpt_header_at ((encode_header h)[i := b])"
  assume s: "sound_header n ?h"
  have len: "length ?xs = 92" using assms(1) by (rule length_encode_header)
  then have e: "encode_header ?h = ?xs[i := b]" and w: "wf_header ?h" using encode_decode_header [of "?xs[i := b]"] by simp_all
  have diff: "?xs[i := b] \<noteq> ?xs" using assms(3,4) len by (metis nth_list_update_eq)
  have crc: "hdr_crc32 ?h = tegrabl_utils_crc32 0 (patch_at 16 [0, 0, 0, 0] (?xs[i := b]))"
    "hdr_crc32 h = tegrabl_utils_crc32 0 (patch_at 16 [0, 0, 0, 0] ?xs)"
    using s assms(2) clear_crc [OF w] clear_crc [OF assms(1)] by (simp_all add: sound_header_def e)
  have len0: "length (patch_at 16 [0, 0, 0, 0] ?xs) = 92" using len by (simp add: patch_at_def)
  show False
  proof (cases "16 \<le> i \<and> i < 20")
    case True
    then have "hdr_crc32 ?h = hdr_crc32 h" using crc patch_at_update [OF len, of 16 "[0, 0, 0, 0]" i b] by simp
    then have "field 16 4 (?xs[i := b]) ! (i - 16) = field 16 4 ?xs ! (i - 16)"
      using crc_field [OF w] crc_field [OF assms(1)] by (simp add: e)
    with True len assms(4) show False by (auto simp: field_def)
  next
    case False
    then have p: "patch_at 16 [0, 0, 0, 0] (?xs[i := b]) = (patch_at 16 [0, 0, 0, 0] ?xs)[i := b]"
      using patch_at_update [OF len, of 16 "[0, 0, 0, 0]" i b] assms(3) by auto
    have same: "patch_at 16 [0, 0, 0, 0] ?xs ! i = ?xs ! i" using False len assms(3) by (auto simp: patch_at_def nth_append)
    have "field 16 4 (?xs[i := b]) = field 16 4 ?xs"
      by (rule nth_equalityI) (use False len in \<open>auto simp: field_def nth_list_update\<close>)
    then have "le_bytes 4 (hdr_crc32 ?h) = le_bytes 4 (hdr_crc32 h)"
      using crc_field [OF w] crc_field [OF assms(1)] by (simp add: e)
    then have "hdr_crc32 ?h = hdr_crc32 h" by (rule le_bytes_4_inj)
    with crc p have "tegrabl_utils_crc32 0 ((patch_at 16 [0, 0, 0, 0] ?xs)[i := b]) = tegrabl_utils_crc32 0 (patch_at 16 [0, 0, 0, 0] ?xs)"
      by simp
    then have "tegrabl_utils_crc32 0 (take i ?z @ b # drop (Suc i) ?z) = tegrabl_utils_crc32 0 (take i ?z @ ?z ! i # drop (Suc i) ?z)"
      using len0 assms(3) by (simp add: list_update_split id_take_nth_drop [symmetric])
    with same assms(4) show False by (simp only: crc32_one_byte)
  qed
qed


text \<open>A sound copy of the table with its header at block \<open>lba\<close>.\<close>

definition gpt_sound_copy :: "'m tegrabl_bdev \<Rightarrow> bytes \<Rightarrow> nat \<Rightarrow> tegrabl_gpt_entry list \<Rightarrow> bool" where
  "gpt_sound_copy dev img lba es \<longleftrightarrow> (\<exists>h. gpt_header_block (2 ^ block_size_log2 dev) img lba h \<and>
     sound_header (ucast (block_count dev)) h \<and> gpt_table (2 ^ block_size_log2 dev) img h es)"

context gpt_device
begin

lemma first_offset: "0 < N \<Longrightarrow> ucast (DIV_CEIL_LOG2 (ucast (ucast (TEGRABL_BLOCKDEV_BLOCK_SIZE dev) :: u32)) K) = (of_nat 1 :: u32)"
  and last_offset: "0 < N \<Longrightarrow>
    ucast (DIV_CEIL_LOG2 (dev_size dev - ucast (ucast (TEGRABL_BLOCKDEV_BLOCK_SIZE dev) :: u32)) K) = (of_nat (N - 1) :: u32)"
proof -
  have bs: "unat (ucast (ucast (TEGRABL_BLOCKDEV_BLOCK_SIZE dev) :: u32) :: u64) = B"
    using B_range by (simp add: unat_ucast_32_64 unat_ucast_u32 unat_block_size)
  have ceil: "ucast (DIV_CEIL_LOG2 x K) = (of_nat q :: u32)" if "unat x = q * B" "q \<le> N" for x :: u64 and q
  proof -
    have "q * B \<le> (2 ^ 32 - 1) * 16384" using that(2) N_lt B_range(2) by (intro mult_le_mono) simp_all
    then have "unat x + 2 ^ K < 2 ^ 64" using that B_range(2) by simp
    from unat_DIV_CEIL_LOG2 [OF this] have "unat (DIV_CEIL_LOG2 x K) = q"
      using div_ceil_exact [of B q] by (simp add: that(1))
    then have "of_nat (unat (DIV_CEIL_LOG2 x K)) = (of_nat q :: u32)" by (simp only:)
    then show ?thesis by simp
  qed
  show "ucast (DIV_CEIL_LOG2 (ucast (ucast (TEGRABL_BLOCKDEV_BLOCK_SIZE dev) :: u32)) K) = (of_nat 1 :: u32)"
    if "0 < N" using bs that by (intro ceil) simp_all
  show "ucast (DIV_CEIL_LOG2 (dev_size dev - ucast (ucast (TEGRABL_BLOCKDEV_BLOCK_SIZE dev) :: u32)) K) = (of_nat (N - 1) :: u32)"
    if "0 < N"
  proof (rule ceil)
    have "B \<le> N * B" using that by simp
    then show "unat (dev_size dev - ucast (ucast (TEGRABL_BLOCKDEV_BLOCK_SIZE dev) :: u32)) = (N - 1) * B"
      by (subst unat_sub) (simp_all add: word_le_nat_alt bs unat_dev_size diff_mult_distrib)
  qed simp
qed

lemma read_validate_sound:
  assumes "gpt_sound_copy dev (contents m) lba es" "lba < N" "ucast (DIV_CEIL_LOG2 offset K) = (of_nat lba :: u32)"
  shows "tegrabl_gpt_read_validate alloc (Some dev) offset m =
    (Inr (take B (drop (lba * B) (contents m)) @ concat (map encode_entry es)), m)"
proof -
  obtain h where "gpt_header_block B (contents m) lba h" "sound_header (ucast (block_count dev)) h" "gpt_table B (contents m) h es"
    using assms(1) by (auto simp: gpt_sound_copy_def)
  then show ?thesis
    using read_header(1) [OF assms(2,3)] read_table [OF assms(2)] buffer_ok(1)
    by (simp add: tegrabl_gpt_read_validate_def Let_def)
qed

lemma read_validate_unsound:
  assumes "gpt_header_block B (contents m) lba h" "\<not> sound_header (ucast (block_count dev)) h"
    and "lba < N" "ucast (DIV_CEIL_LOG2 offset K) = (of_nat lba :: u32)"
  shows "\<exists>e. tegrabl_gpt_read_validate alloc (Some dev) offset m = (Inl e, m)"
  using read_header(2) [OF assms(3,4,1,2), of "ucast (gpt_buffer_size dev)"] buffer_ok(1)
  by (auto simp: tegrabl_gpt_read_validate_def Let_def)

lemma publish_read:
  assumes "tegrabl_gpt_read alloc (Some dev) offset m = (Inr (hb @ concat (map encode_entry es)), m)" "length hb = B"
    and "list_all wf_entry es" "length es = 128" "\<And>n. malloc_ok n"
  shows "tegrabl_gpt_publish alloc malloc_ok (Some dev) offset m =
    (Inr (map (gpt_partition_info dev) (filter used_entry es)), m)"
  using assms by (simp add: tegrabl_gpt_publish_def Let_def unat_block_size gpt_entries_encoded fill_partitions_all)

lemma publish_primary:
  assumes "gpt_sound_copy dev (contents m) 1 es" "1 < N" "\<And>n. malloc_ok n"
  shows "tegrabl_gpt_publish alloc malloc_ok (Some dev) 0 m = (Inr (map (gpt_partition_info dev) (filter used_entry es)), m)"
proof (rule publish_read)
  show "tegrabl_gpt_read alloc (Some dev) 0 m = (Inr (take B (drop (1 * B) (contents m)) @ concat (map encode_entry es)), m)"
    using read_validate_sound [OF assms(1,2) first_offset] assms(2) by (simp add: tegrabl_gpt_read_def Let_def)
  show "length (take B (drop (1 * B) (contents m))) = B"
    using assms(2) by (rule block_length)
qed (use assms in \<open>auto simp: gpt_sound_copy_def gpt_table_def\<close>)

lemma publish_secondary:
  assumes "gpt_header_block B (contents m) 1 h" "\<not> sound_header (ucast (block_count dev)) h"
    and "gpt_sound_copy dev (contents m) (N - 1) es" "1 < N" "\<And>n. malloc_ok n"
  shows "tegrabl_gpt_publish alloc malloc_ok (Some dev) 0 m = (Inr (map (gpt_partition_info dev) (filter used_entry es)), m)"
proof (rule publish_read)
  have "N - 1 < N" using assms(4) by simp
  from read_validate_sound [OF assms(3) this last_offset]
    read_validate_unsound [OF assms(1,2,4) first_offset] assms(4)
  show "tegrabl_gpt_read alloc (Some dev) 0 m = (Inr (take B (drop ((N - 1) * B) (contents m)) @ concat (map encode_entry es)), m)"
    by (auto simp: tegrabl_gpt_read_def Let_def)
  show "length (take B (drop ((N - 1) * B) (contents m))) = B"
    using \<open>N - 1 < N\<close> by (rule block_length)
qed (use assms in \<open>auto simp: gpt_sound_copy_def gpt_table_def\<close>)

end


lemma gpt_device_intro:
  assumes "driver_ok dev contents" "gpt_heap_ok alloc dev" "9 \<le> block_size_log2 dev" "block_size_log2 dev \<le> 14"
  shows "gpt_device dev contents alloc"
  using assms by unfold_locales (auto simp: alloc_ok_def gpt_heap_ok_def)


section \<open>Properties\<close>


text \<open>
  (C9) Any change of one byte of the primary header is noticed, and the partitions of the secondary copy are published
  instead.
\<close>
theorem gpt_survives_header_corruption:
  assumes "driver_ok dev contents" "gpt_heap_ok alloc dev" "\<And>n. malloc_ok n"
    and "9 \<le> block_size_log2 dev" "block_size_log2 dev \<le> 14" "1 < block_count dev"
    and "wf_header h" "sound_header (ucast (block_count dev)) h" "i < 92" "b \<noteq> encode_header h ! i"
    and "take 92 (drop (2 ^ block_size_log2 dev) (contents m)) = (encode_header h)[i := b]"
    and "gpt_sound_copy dev (contents m) (unat (block_count dev) - 1) es"
  shows "tegrabl_gpt_publish alloc malloc_ok (Some dev) 0 m =
    (Inr (map (gpt_partition_info dev) (filter (\<lambda>e. first_lba e < last_lba e) es)), m)"
proof -
  let ?h = "gpt_header_at ((encode_header h)[i := b])"
  have "length ((encode_header h)[i := b]) = 92" using length_encode_header [OF assms(7)] by simp
  then have "gpt_header_block (2 ^ block_size_log2 dev) (contents m) 1 ?h"
    using encode_decode_header [of "(encode_header h)[i := b]"] assms(11) by (simp add: gpt_header_block_def)
  moreover have "\<not> sound_header (ucast (block_count dev)) ?h" by (rule corrupt_header_unsound [OF assms(7-10)])
  ultimately show ?thesis
    using gpt_device.publish_secondary [OF gpt_device_intro [OF assms(1,2,4,5)] _ _ assms(12) _ assms(3)] assms(6)
    by (simp add: used_entry_def [abs_def] word_less_nat_alt)
qed


section \<open>A disk with one partition\<close>

definition demo_entry :: tegrabl_gpt_entry where
  "demo_entry = \<lparr>ptype_guid = replicate 16 1, unique_guid = replicate 16 2, first_lba = 34, last_lba = 35, attribs = 0,
     pname = [0x41, 0x50, 0x50] @ replicate 33 0\<rparr>"

definition empty_entry :: tegrabl_gpt_entry where
  "empty_entry = \<lparr>ptype_guid = replicate 16 0, unique_guid = replicate 16 0, first_lba = 0, last_lba = 0, attribs = 0,
     pname = replicate 36 0\<rparr>"

definition demo_table :: "tegrabl_gpt_entry list" where
  "demo_table = demo_entry # replicate 127 empty_entry"

definition demo_header0 :: tegrabl_gpt_header where
  "demo_header0 = \<lparr>signature = efi_part, revision = 0x10000, hdr_size = 0x5C, hdr_crc32 = 0, rsvd = 0, curr_lba = 1, backup_lba = 36,
     hdr_first_lba = 34, hdr_last_lba = 35, disk_guid = replicate 16 3, table_start_lba = 2, num_entries = 128, entry_size = 128,
     table_crc32 = tegrabl_utils_crc32 0 (concat (map encode_entry demo_table))\<rparr>"

definition demo_header :: tegrabl_gpt_header where
  "demo_header = demo_header0\<lparr>hdr_crc32 := tegrabl_utils_crc32 0 (encode_header demo_header0)\<rparr>"

text \<open>Protective block, primary header, table, two blocks of data, secondary header; \<open>xs\<close> is the primary header.\<close>

definition demo_image :: "bytes \<Rightarrow> bytes" where
  "demo_image xs = replicate 512 0 @ xs @ replicate 420 0 @ concat (map encode_entry demo_table) @ replicate 1024 7 @
     encode_header demo_header @ replicate 420 0"

definition gpt_demo_dev :: "bytes sata_state tegrabl_bdev" where
  "gpt_demo_dev = sata_user_dev (demo_ahci 37) (demo_ctx 37) 2"

lemma demo_wf: "list_all wf_entry demo_table" "length demo_table = 128" "wf_header demo_header"
  by (simp_all add: demo_table_def wf_entry_def demo_entry_def empty_entry_def wf_header_def demo_header_def demo_header0_def efi_part_def
      list_all_iff)

lemma demo_used: "filter (\<lambda>e. first_lba e < last_lba e) demo_table = [demo_entry]"
  by (simp add: demo_table_def demo_entry_def empty_entry_def)

lemma demo_geometry:
  "block_size_log2 gpt_demo_dev = 9" "block_count gpt_demo_dev = 37"
  by (simp_all add: gpt_demo_dev_def sata_user_dev_def sata_fill_hooks_def zero_bdev_def demo_ctx_def)

lemma demo_driver: "driver_ok gpt_demo_dev (demo_sectors 37 \<circ> disk)"
  unfolding gpt_demo_dev_def by (rule sata_disk.sata_driver_ok [OF demo_disk]) simp

lemma demo_heap: "gpt_heap_ok (\<lambda>_. 0x1000) gpt_demo_dev"
  by (simp add: gpt_heap_ok_def tegrabl_blockdev_buffer_aligned_def TEGRABL_BLOCKDEV_BLOCK_SIZE_def push_bit_eq_mult demo_geometry)
    (simp add: gpt_demo_dev_def sata_user_dev_def sata_fill_hooks_def)

interpretation gpt_demo: gpt_device gpt_demo_dev "demo_sectors 37 \<circ> disk" "\<lambda>_. 0x1000"
  using demo_driver demo_heap by (rule gpt_device_intro) (simp_all add: demo_geometry)

lemma demo_sound: "sound_header 37 demo_header"
  by (simp add: sound_header_def demo_header_def demo_header0_def word_less_nat_alt)

lemma demo_image_contents:
  assumes "length xs = 92"
  shows "demo_sectors 37 (demo_image xs) = demo_image xs"
  using assms length_table [OF demo_wf(1)] length_encode_header [OF demo_wf(3)]
  by (intro demo_sectors_full) (simp add: demo_image_def demo_wf)

lemma demo_copies:
  assumes "length xs = 92"
  shows "xs = encode_header demo_header \<Longrightarrow> gpt_sound_copy gpt_demo_dev (demo_image xs) 1 demo_table"
    and "gpt_sound_copy gpt_demo_dev (demo_image xs) 36 demo_table"
    and "take 92 (drop 512 (demo_image xs)) = xs"
proof -
  note len = assms length_table [OF demo_wf(1)] length_encode_header [OF demo_wf(3)]
  have t: "gpt_table 512 (demo_image xs) demo_header demo_table"
    using len by (simp add: gpt_table_def demo_wf demo_header_def demo_header0_def) (simp add: demo_image_def demo_wf)
  show "take 92 (drop 512 (demo_image xs)) = xs" using len by (simp add: demo_image_def)
  then show "xs = encode_header demo_header \<Longrightarrow> gpt_sound_copy gpt_demo_dev (demo_image xs) 1 demo_table"
    using t demo_sound demo_wf(3) by (auto simp: gpt_sound_copy_def gpt_header_block_def demo_geometry)
  have "take 92 (drop 18432 (demo_image xs)) = encode_header demo_header" using len by (simp add: demo_image_def demo_wf)
  then show "gpt_sound_copy gpt_demo_dev (demo_image xs) 36 demo_table"
    using t demo_sound demo_wf(3) by (auto simp: gpt_sound_copy_def gpt_header_block_def demo_geometry)
qed


text \<open>The byte at offset 40 of the primary header, part of the first usable block, is changed.\<close>
theorem gpt_survives_header_corruption_witness:
  "fst (tegrabl_gpt_publish (\<lambda>_. 0x1000) (\<lambda>_. True) (Some gpt_demo_dev) 0
     \<lparr>init_done = True, disk = demo_image ((encode_header demo_header)[40 := 99])\<rparr>) = Inr [gpt_partition_info gpt_demo_dev demo_entry]"
proof -
  have "encode_header demo_header ! 40 = ucast (hdr_first_lba demo_header)"
    using demo_wf(3) by (simp add: encode_header_def wf_header_def nth_append nth_le_bytes)
  then have "encode_header demo_header ! 40 = 34" by (simp add: demo_header_def demo_header0_def)
  then show ?thesis
    using gpt_survives_header_corruption [OF demo_driver demo_heap, of "\<lambda>_. True" demo_header 40 99
        "\<lparr>init_done = True, disk = demo_image ((encode_header demo_header)[40 := 99])\<rparr>" demo_table]
      demo_copies(2,3) [of "(encode_header demo_header)[40 := 99]"] length_encode_header [OF demo_wf(3)] demo_wf(3) demo_sound
    by (simp add: demo_geometry demo_used demo_image_contents)
qed

end
