(* ===== verification/Cboot_Registry.thy ===== *)
theory Cboot_Registry
  imports Cboot_Blockdev
begin

text \<open>
  The list of registered block devices as a transition system: the operations of \<open>Cboot_Blockdev\<close> as steps, the
  invariant that ties each reference count to the list and to the handles that clients hold, and what follows for
  every reachable state.
\<close>

section \<open>Reference counts are exact\<close>

text \<open>
  A client state adds to the environment the number of handles \<open>opens h\<close> that clients hold on each device. The
  steps are the operations of the layer used as the sources use them: a driver registers a device it has just
  initialised, a client closes only what it has opened, and a device is unregistered while it is on the list. A
  registration that is rejected leaves its reference with the driver.
\<close>

type_synonym 'm registry = "'m blockdev_env \<times> (u64 \<Rightarrow> nat)"

inductive registry_step :: "'m registry \<Rightarrow> 'm registry \<Rightarrow> bool" where
  init: "tegrabl_blockdev_init malloc_ok env = (r, env1) \<Longrightarrow> registry_step (env, opens) (env1, opens)"
| create: "devices env h = None \<Longrightarrow> tegrabl_blockdev_initialize_bdev (Some d0) dev_id k blocks = Inr d \<Longrightarrow>
     registry_step (env, opens) (env\<lparr>devices := (devices env)(h \<mapsto> d)\<rparr>, opens)"
| register: "devices env h = Some d \<Longrightarrow> ref d = 0 \<Longrightarrow> tegrabl_blockdev_register_device (Some h) env = Some (Inr (), env1) \<Longrightarrow>
     registry_step (env, opens) (env1, opens)"
| rejected: "devices env h = Some d \<Longrightarrow> ref d = 0 \<Longrightarrow> tegrabl_blockdev_register_device (Some h) env = Some (Inl e, env1) \<Longrightarrow>
     registry_step (env, opens) (env1, opens(h := 1))"
| open_dev: "tegrabl_blockdev_open st inst env = Some (Some h, env1) \<Longrightarrow> opens h < 2 ^ 32 - 2 \<Longrightarrow>
     registry_step (env, opens) (env1, opens(h := opens h + 1))"
| close: "0 < opens h \<Longrightarrow> tegrabl_blockdev_close (Some h) env m = Some (Inr (), env1, m1) \<Longrightarrow>
     registry_step (env, opens) (env1, opens(h := opens h - 1))"
| unregister: "list_in_list env h \<Longrightarrow> tegrabl_blockdev_unregister_device (Some h) env m = Some (Inr (), env1, m1) \<Longrightarrow>
     registry_step (env, opens) (env1, opens)"

definition refcounts_exact :: "'m registry \<Rightarrow> bool" where
  "refcounts_exact s \<longleftrightarrow> (case s of (env, opens) \<Rightarrow>
     (\<forall>h d. devices env h = Some d \<longrightarrow> unat (ref d) = (if list_in_list env h then 1 else 0) + opens h) \<and>
     (\<forall>h. list_in_list env h \<or> 0 < opens h \<longrightarrow> devices env h \<noteq> None) \<and>
     (case bdevs env of None \<Rightarrow> True
      | Some hs \<Rightarrow> distinct hs \<and> inj_on (\<lambda>h. device_id (the (devices env h))) (set hs)))"

lemma refcounts_exactI:
  assumes "\<And>h d. devices env h = Some d \<Longrightarrow> unat (ref d) = (if list_in_list env h then 1 else 0) + opens h"
    and "\<And>h. list_in_list env h \<or> 0 < opens h \<Longrightarrow> devices env h \<noteq> None"
    and "\<And>hs. bdevs env = Some hs \<Longrightarrow> distinct hs \<and> inj_on (\<lambda>h. device_id (the (devices env h))) (set hs)"
  shows "refcounts_exact (env, opens)"
  using assms unfolding refcounts_exact_def by (auto split: option.splits)

lemma refcounts_exactD:
  assumes "refcounts_exact (env, opens)"
  shows "devices env h = Some d \<Longrightarrow> unat (ref d) = (if list_in_list env h then 1 else 0) + opens h"
    and "list_in_list env h \<Longrightarrow> devices env h \<noteq> None" "0 < opens h \<Longrightarrow> devices env h \<noteq> None"
    and "bdevs env = Some hs \<Longrightarrow> distinct hs" "bdevs env = Some hs \<Longrightarrow> inj_on (\<lambda>h. device_id (the (devices env h))) (set hs)"
  using assms unfolding refcounts_exact_def by (auto split: option.splits)

lemma inj_on_upd_same_id:
  assumes "inj_on (\<lambda>h. device_id (the (st h))) A" "st h = Some d" "device_id d1 = device_id d"
  shows "inj_on (\<lambda>x. device_id (the ((st(h \<mapsto> d1)) x))) A"
proof -
  have "(\<lambda>x. device_id (the ((st(h \<mapsto> d1)) x))) = (\<lambda>x. device_id (the (st x)))"
    using assms(2,3) by (auto simp: fun_eq_iff)
  with assms(1) show ?thesis by simp
qed

text \<open>The two scans of the list.\<close>

lemma duplicate_scan_False:
  "duplicate_scan i hs st = Some False \<Longrightarrow> h \<in> set hs \<Longrightarrow> \<exists>d. st h = Some d \<and> device_id d \<noteq> i"
  by (induction hs) (auto split: option.splits if_splits)

lemma open_scan_Some:
  "open_scan i hs st = Some (Some h) \<Longrightarrow> h \<in> set hs \<and> (\<exists>d. st h = Some d \<and> device_id d = i \<and> ref d > 0)"
  by (induction hs) (auto split: option.splits if_splits simp: word_gt_0)

lemma inc_ref_id [simp]: "device_id (bdev_inc_ref d) = device_id d"
  by (simp add: bdev_inc_ref_def)

lemma list_in_list_devices [simp]: "list_in_list (env\<lparr>devices := st\<rparr>) h = list_in_list env h"
  by (simp add: list_in_list_def)

text \<open>The effect of dropping a reference.\<close>

lemma dec_ref_cases:
  assumes "bdev_dec_ref h env m = Some (r, env1, m1)" "devices env h = Some d"
  shows "ref d = 1 \<Longrightarrow> \<not> list_in_list env h \<Longrightarrow> env1 = env\<lparr>devices := (devices env)(h := None)\<rparr>"
    and "ref d > 1 \<Longrightarrow> env1 = env\<lparr>devices := (devices env)(h \<mapsto> d\<lparr>ref := ref d - 1\<rparr>)\<rparr>"
proof -
  show "ref d = 1 \<Longrightarrow> \<not> list_in_list env h \<Longrightarrow> env1 = env\<lparr>devices := (devices env)(h := None)\<rparr>"
    using assms by (simp add: bdev_dec_ref_def Let_def)
  assume "ref d > 1"
  then have "ref d > 0" "ref d \<noteq> 1" by (auto simp: word_less_nat_alt)
  then show "env1 = env\<lparr>devices := (devices env)(h \<mapsto> d\<lparr>ref := ref d - 1\<rparr>)\<rparr>"
    using assms by (simp add: bdev_dec_ref_def Let_def)
qed

lemma unat_inc: "unat (x :: u32) + 1 < 2 ^ 32 \<Longrightarrow> unat (x + 1) = unat x + 1"
  by (subst unat_add_lem [THEN iffD1]) simp_all

lemma unat_dec: "(x :: u32) \<noteq> 0 \<Longrightarrow> unat (x - 1) = unat x - 1"
  by (simp add: unat_minus_one)

lemma init_keeps: "refcounts_exact (env, opens) \<Longrightarrow> tegrabl_blockdev_init ok env = (r, env1) \<Longrightarrow> refcounts_exact (env1, opens)"
  by (auto simp: tegrabl_blockdev_init_def refcounts_exact_def list_in_list_def split: if_splits)

lemma create_keeps:
  assumes inv: "refcounts_exact (env, opens)" and h: "devices env h = None" and d: "ref d = 0"
  shows "refcounts_exact (env\<lparr>devices := (devices env)(h \<mapsto> d)\<rparr>, opens)"
proof (rule refcounts_exactI)
  have nh: "\<not> list_in_list env h" "opens h = 0"
    using refcounts_exactD(2,3) [OF inv, of h] h by auto
  fix x e
  assume "devices (env\<lparr>devices := (devices env)(h \<mapsto> d)\<rparr>) x = Some e"
  then show "unat (ref e) = (if list_in_list (env\<lparr>devices := (devices env)(h \<mapsto> d)\<rparr>) x then 1 else 0) + opens x"
    using refcounts_exactD(1) [OF inv, of x e] nh d by (auto split: if_splits)
next
  fix x
  assume "list_in_list (env\<lparr>devices := (devices env)(h \<mapsto> d)\<rparr>) x \<or> 0 < opens x"
  then show "devices (env\<lparr>devices := (devices env)(h \<mapsto> d)\<rparr>) x \<noteq> None"
    using refcounts_exactD(2,3) [OF inv, of x] by auto
next
  fix hs
  assume "bdevs (env\<lparr>devices := (devices env)(h \<mapsto> d)\<rparr>) = Some hs"
  then have hs: "bdevs env = Some hs" by simp
  have "h \<notin> set hs" using refcounts_exactD(2) [OF inv, of h] h hs by (auto simp: list_in_list_def)
  moreover have "inj_on (\<lambda>x. device_id (the (devices env x))) (set hs)" by (rule refcounts_exactD(5) [OF inv hs])
  ultimately show "distinct hs \<and> inj_on (\<lambda>x. device_id (the (devices (env\<lparr>devices := (devices env)(h \<mapsto> d)\<rparr>) x))) (set hs)"
    using refcounts_exactD(4) [OF inv hs] by (auto simp: inj_on_def)
qed

text \<open>Changing the count of one device, its list membership and its handles together.\<close>

lemma recount:
  assumes inv: "refcounts_exact (env, opens)" and h: "devices env h = Some d"
    and n: "unat n = (if list_in_list env h then 1 else 0) + k"
  shows "refcounts_exact (env\<lparr>devices := (devices env)(h \<mapsto> d\<lparr>ref := n\<rparr>)\<rparr>, opens(h := k))"
proof (rule refcounts_exactI)
  let ?env = "env\<lparr>devices := (devices env)(h \<mapsto> d\<lparr>ref := n\<rparr>)\<rparr>"
  fix x e
  assume "devices ?env x = Some e"
  then show "unat (ref e) = (if list_in_list ?env x then 1 else 0) + (opens(h := k)) x"
    using refcounts_exactD(1) [OF inv, of x e] n by (auto split: if_splits)
next
  let ?env = "env\<lparr>devices := (devices env)(h \<mapsto> d\<lparr>ref := n\<rparr>)\<rparr>"
  fix x
  assume "list_in_list ?env x \<or> 0 < (opens(h := k)) x"
  then show "devices ?env x \<noteq> None"
    using refcounts_exactD(2,3) [OF inv, of x] by (auto split: if_splits)
next
  let ?env = "env\<lparr>devices := (devices env)(h \<mapsto> d\<lparr>ref := n\<rparr>)\<rparr>"
  fix hs
  assume "bdevs ?env = Some hs"
  then have "bdevs env = Some hs" by simp
  then show "distinct hs \<and> inj_on (\<lambda>x. device_id (the (devices ?env x))) (set hs)"
    using refcounts_exactD(4,5) [OF inv] inj_on_upd_same_id [of "devices env" "set hs" h d "d\<lparr>ref := n\<rparr>"] h by simp
qed

lemma forget:
  assumes inv: "refcounts_exact (env, opens)" and h: "\<not> list_in_list env h"
  shows "refcounts_exact (env\<lparr>devices := (devices env)(h := None)\<rparr>, opens(h := 0))"
proof -
  have "inj_on (\<lambda>x. device_id (the (((devices env)(h := None)) x))) (set hs)" if hs: "bdevs env = Some hs" for hs
  proof -
    have "h \<notin> set hs" using h hs by (simp add: list_in_list_def)
    with refcounts_exactD(5) [OF inv hs] show ?thesis by (auto simp: inj_on_def)
  qed
  with h show ?thesis
    using refcounts_exactD(1-4) [OF inv] by (intro refcounts_exactI) (auto split: if_splits)
qed

lemma enlist:
  assumes inv: "refcounts_exact (env, opens)" and h: "\<not> list_in_list env h" "opens h = Suc k" "devices env h = Some d"
    and hs: "bdevs env = Some hs" and fresh: "\<And>x. x \<in> set hs \<Longrightarrow> device_id (the (devices env x)) \<noteq> device_id d"
  shows "refcounts_exact (env\<lparr>bdevs := Some (hs @ [h])\<rparr>, opens(h := k))"
proof (rule refcounts_exactI)
  have mem: "list_in_list (env\<lparr>bdevs := Some (hs @ [h])\<rparr>) x \<longleftrightarrow> x = h \<or> list_in_list env x" for x
    using hs by (auto simp: list_in_list_def)
  fix x e
  assume "devices (env\<lparr>bdevs := Some (hs @ [h])\<rparr>) x = Some e"
  then show "unat (ref e) = (if list_in_list (env\<lparr>bdevs := Some (hs @ [h])\<rparr>) x then 1 else 0) + (opens(h := k)) x"
    using refcounts_exactD(1) [OF inv, of x e] h(1,2) unfolding mem by auto
next
  fix x
  assume "list_in_list (env\<lparr>bdevs := Some (hs @ [h])\<rparr>) x \<or> 0 < (opens(h := k)) x"
  then have "x = h \<or> list_in_list env x \<or> 0 < opens x" using hs by (auto simp: list_in_list_def split: if_splits)
  then show "devices (env\<lparr>bdevs := Some (hs @ [h])\<rparr>) x \<noteq> None"
    using refcounts_exactD(2,3) [OF inv, of x] h(3) by auto
next
  fix hs'
  assume "bdevs (env\<lparr>bdevs := Some (hs @ [h])\<rparr>) = Some hs'"
  then have hs': "hs' = hs @ [h]" by simp
  have "h \<notin> set hs" using h(1) hs by (simp add: list_in_list_def)
  moreover have "device_id d \<notin> (\<lambda>x. device_id (the (devices env x))) ` set hs" using fresh by force
  ultimately show "distinct hs' \<and> inj_on (\<lambda>x. device_id (the (devices (env\<lparr>bdevs := Some (hs @ [h])\<rparr>) x))) (set hs')"
    using refcounts_exactD(4,5) [OF inv hs] h(3) by (simp add: hs')
qed

lemma delist:
  assumes inv: "refcounts_exact (env, opens)" and h: "list_in_list env h"
  shows "refcounts_exact (env\<lparr>bdevs := map_option (remove1 h) (bdevs env)\<rparr>, opens(h := opens h + 1))"
proof -
  obtain hs where hs: "bdevs env = Some hs" "h \<in> set hs" "distinct hs"
    using h refcounts_exactD(4) [OF inv] by (auto simp: list_in_list_def split: option.splits)
  have mem: "list_in_list (env\<lparr>bdevs := map_option (remove1 h) (bdevs env)\<rparr>) x \<longleftrightarrow> x \<noteq> h \<and> list_in_list env x" for x
    using hs by (auto simp: list_in_list_def)
  have inj: "inj_on (\<lambda>x. device_id (the (devices env x))) (set hs - {h})"
    using refcounts_exactD(5) [OF inv hs(1)] by (rule inj_on_diff)
  show ?thesis
    using refcounts_exactD(1-3) [OF inv] h hs inj by (intro refcounts_exactI) (auto simp: mem [unfolded hs(1), simplified] split: if_splits)
qed

lemma drop_ref:
  assumes inv: "refcounts_exact (env, opens)" and k: "opens h = Suc k"
    and dec: "bdev_dec_ref h env m = Some (r, env1, m1)"
  shows "refcounts_exact (env1, opens(h := k))"
proof -
  obtain d where d: "devices env h = Some d"
    using refcounts_exactD(3) [OF inv, of h] k by auto
  note cnt = refcounts_exactD(1) [OF inv d]
  then have nz: "ref d \<noteq> 0" using k by auto
  show ?thesis
  proof (cases "ref d = 1")
    case True
    then have nl: "\<not> list_in_list env h" and "k = 0" using cnt k by (auto split: if_splits)
    then show ?thesis using forget [OF inv nl] dec_ref_cases(1) [OF dec d True nl] by simp
  next
    case False
    with nz have "unat (ref d) \<noteq> 0" "unat (ref d) \<noteq> 1" by (simp_all add: word_unat_eq_iff)
    then have "ref d > 1" by (simp add: word_less_nat_alt)
    moreover have "unat (ref d - 1) = (if list_in_list env h then 1 else 0) + k"
      using cnt k nz by (simp add: unat_dec)
    ultimately show ?thesis using recount [OF inv d] dec_ref_cases(2) [OF dec d] by simp
  qed
qed

lemma registered_fresh:
  assumes inv: "refcounts_exact (env, opens)" and d: "devices env h = Some d" "ref d = 0"
  shows "\<not> list_in_list env h" "opens h = 0" "refcounts_exact (env\<lparr>devices := (devices env)(h \<mapsto> bdev_inc_ref d)\<rparr>, opens(h := 1))"
proof -
  show nl: "\<not> list_in_list env h" "opens h = 0"
    using refcounts_exactD(1) [OF inv d(1)] d(2) by (auto split: if_splits)
  show "refcounts_exact (env\<lparr>devices := (devices env)(h \<mapsto> bdev_inc_ref d)\<rparr>, opens(h := 1))"
    using recount [OF inv d(1), of 1 1] nl d(2) by (simp add: bdev_inc_ref_def)
qed

lemma register_keeps:
  assumes inv: "refcounts_exact (env, opens)" and d: "devices env h = Some d" "ref d = 0"
    and reg: "tegrabl_blockdev_register_device (Some h) env = Some (r, env1)"
  shows "refcounts_exact (env1, case r of Inr _ \<Rightarrow> opens | Inl _ \<Rightarrow> opens(h := 1))"
proof -
  let ?env = "env\<lparr>devices := (devices env)(h \<mapsto> bdev_inc_ref d)\<rparr>"
  note fr = registered_fresh [OF inv d]
  from reg d obtain hs dup where hs: "bdevs env = Some hs" and dup: "duplicate_scan (device_id d) hs (devices ?env) = Some dup"
    and r: "(r, env1) = (if dup then (Inl (bdev_error 0 ERR_ALREADY_EXISTS), ?env) else (Inr (), ?env\<lparr>bdevs := Some (hs @ [h])\<rparr>))"
    by (auto simp: tegrabl_blockdev_register_device_def Let_def split: option.splits bool.splits)
  show ?thesis
  proof (cases dup)
    case True
    with r fr(3) show ?thesis by simp
  next
    case False
    then have dupF: "duplicate_scan (device_id d) hs (devices ?env) = Some False" using dup by simp
    have "refcounts_exact (?env\<lparr>bdevs := Some (hs @ [h])\<rparr>, (opens(h := 1))(h := 0))"
    proof (rule enlist [OF fr(3), where d = "bdev_inc_ref d"])
      fix x
      assume "x \<in> set hs"
      then show "device_id (the (devices ?env x)) \<noteq> device_id (bdev_inc_ref d)"
        using duplicate_scan_False [OF dupF] by force
    qed (use fr hs in simp_all)
    moreover have "(opens(h := 1))(h := 0) = opens" using fr(2) by auto
    ultimately show ?thesis using r False by simp
  qed
qed

lemma open_keeps:
  assumes inv: "refcounts_exact (env, opens)" and k: "opens h < 2 ^ 32 - 2"
    and op: "tegrabl_blockdev_open st inst env = Some (Some h, env1)"
  shows "refcounts_exact (env1, opens(h := opens h + 1))"
proof -
  obtain hs d where d: "devices env h = Some d" "bdevs env = Some hs" "h \<in> set hs"
    and e: "env1 = env\<lparr>devices := (devices env)(h \<mapsto> d\<lparr>ref := ref d + 1\<rparr>)\<rparr>"
    using op by (auto simp: tegrabl_blockdev_open_def bdev_inc_ref_def dest!: open_scan_Some split: if_splits option.splits)
  have l: "list_in_list env h" using d by (simp add: list_in_list_def)
  have "unat (ref d + 1) = (if list_in_list env h then 1 else 0) + (opens h + 1)"
    using refcounts_exactD(1) [OF inv d(1)] l k by (subst unat_inc) simp_all
  from recount [OF inv d(1) this] e show ?thesis by simp
qed

lemma close_keeps:
  assumes "refcounts_exact (env, opens)" "0 < opens h" "tegrabl_blockdev_close (Some h) env m = Some (Inr (), env1, m1)"
  shows "refcounts_exact (env1, opens(h := opens h - 1))"
proof -
  obtain k where "opens h = Suc k" using assms(2) gr0_implies_Suc by blast
  with assms(1,3) show ?thesis
    by (auto simp: tegrabl_blockdev_close_def intro: drop_ref split: option.splits)
qed

lemma unregister_keeps:
  assumes "refcounts_exact (env, opens)" "list_in_list env h"
    "tegrabl_blockdev_unregister_device (Some h) env m = Some (Inr (), env1, m1)"
  shows "refcounts_exact (env1, opens)"
proof -
  let ?env = "env\<lparr>bdevs := map_option (remove1 h) (bdevs env)\<rparr>"
  obtain r where "bdev_dec_ref h ?env m = Some (r, env1, m1)"
    using assms(3) by (auto simp: tegrabl_blockdev_unregister_device_def split: if_splits option.splits)
  from drop_ref [OF delist [OF assms(1,2)] _ this, of "opens h"] show ?thesis by simp
qed

lemma registry_step_keeps: "registry_step s t \<Longrightarrow> refcounts_exact s \<Longrightarrow> refcounts_exact t"
proof (induction rule: registry_step.induct)
  case (create env h d0 dev_id k blocks d opens)
  then show ?case by (intro create_keeps) (auto simp: tegrabl_blockdev_initialize_bdev_def)
next
  case (register env h d env1 opens)
  then show ?case using register_keeps by fastforce
next
  case (rejected env h d e env1 opens)
  then show ?case using register_keeps by fastforce
qed (blast intro: init_keeps open_keeps close_keeps unregister_keeps)+

definition no_devices :: "u32 \<Rightarrow> 'm registry" where
  "no_devices x = (\<lparr>bdevs = None, devices = Map.empty, xfer_id = x\<rparr>, \<lambda>_. 0)"

lemma registry_invariant: "registry_step\<^sup>*\<^sup>* (no_devices x) s \<Longrightarrow> refcounts_exact s"
proof (induction rule: rtranclp_induct)
  case base
  show ?case by (simp add: no_devices_def refcounts_exact_def list_in_list_def)
qed (rule registry_step_keeps)

lemma open_scan_finds:
  assumes "h \<in> set hs" "st h = Some d" "distinct hs" "inj_on (\<lambda>x. device_id (the (st x))) (set hs)"
    and "\<And>x. x \<in> set hs \<Longrightarrow> \<exists>e. st x = Some e \<and> ref e \<noteq> 0"
  shows "open_scan (device_id d) hs st = Some (Some h)"
  using assms
proof (induction hs)
  case (Cons x hs)
  obtain e where e: "st x = Some e" "ref e \<noteq> 0" using Cons.prems(5) [of x] by auto
  show ?case
  proof (cases "x = h")
    case False
    then have "h \<in> set hs" using Cons.prems(1) by simp
    moreover from this have "device_id e \<noteq> device_id d"
      using inj_onD [OF Cons.prems(4), of x h] Cons.prems(2) e(1) False by auto
    ultimately show ?thesis using Cons.IH Cons.prems(2-5) e by simp
  qed (use Cons.prems e in simp)
qed simp


section \<open>Properties\<close>

text \<open>
  (C10) In every state reached from power-on by the operations of the layer, the reference count of a device is one for
  its place on the list plus the handles clients hold, and neither a listed device nor one with a handle has been freed.
\<close>
theorem registry_refcounts:
  assumes "registry_step\<^sup>*\<^sup>* (no_devices x) (env, opens)"
  shows "(\<forall>h d. devices env h = Some d \<longrightarrow> unat (ref d) = (if list_in_list env h then 1 else 0) + opens h) \<and>
    (\<forall>h. list_in_list env h \<or> 0 < opens h \<longrightarrow> devices env h \<noteq> None)"
  using refcounts_exactD(1-3) [OF registry_invariant [OF assms]] by blast

text \<open>
  In every such state, opening the storage type and instance of a registered device returns that device and takes
  one reference; the scan never stops early and never faults.
\<close>
theorem registered_device_opens:
  assumes "registry_step\<^sup>*\<^sup>* (no_devices x) (env, opens)" "list_in_list env h" "devices env h = Some d"
    and "device_id d = TEGRABL_BLOCK_DEVICE_ID storage_type instance_no" "storage_type < 10"
  shows "tegrabl_blockdev_open storage_type instance_no env =
    Some (Some h, env\<lparr>devices := (devices env)(h \<mapsto> bdev_inc_ref d)\<rparr>)"
proof -
  note inv = registry_invariant [OF assms(1)]
  obtain hs where hs: "bdevs env = Some hs" "h \<in> set hs"
    using assms(2) by (auto simp: list_in_list_def split: option.splits)
  have "\<exists>e. devices env y = Some e \<and> ref e \<noteq> 0" if "y \<in> set hs" for y
  proof -
    have "list_in_list env y" using that hs by (simp add: list_in_list_def)
    then show ?thesis using refcounts_exactD(1,2) [OF inv, of y] by fastforce
  qed
  from open_scan_finds [OF hs(2) assms(3) refcounts_exactD(4,5) [OF inv hs(1)] this]
  have "open_scan (TEGRABL_BLOCK_DEVICE_ID storage_type instance_no) hs (devices env) = Some (Some h)"
    by (simp add: assms(4))
  with assms(3,5) hs(1) show ?thesis by (simp add: tegrabl_blockdev_open_def linorder_not_le)
qed

definition demo_dev :: "nat tegrabl_bdev" where
  "demo_dev = \<lparr>ref = 0, device_id = 0x40000, dev_size = 2048, block_size_log2 = 9, block_count = 4, published = False, buf_align_size = 4,
     read_block = None, write_block = None, erase_blocks = None, xfer_hook = None, xfer_wait_hook = None,
     ioctl_hook = None, close_hook = None\<rparr>"

definition demo_env :: "nat blockdev_env" where
  "demo_env = \<lparr>bdevs = Some [1], devices = [1 \<mapsto> demo_dev\<lparr>ref := 1\<rparr>], xfer_id = 0\<rparr>"

lemma demo_reachable: "registry_step\<^sup>*\<^sup>* (no_devices 0) (demo_env, \<lambda>_. 0)"
proof -
  have "registry_step (no_devices 0) (\<lparr>bdevs = Some [], devices = Map.empty, xfer_id = 0\<rparr> :: nat blockdev_env, \<lambda>_. 0)"
    unfolding no_devices_def by (rule registry_step.init [of True]) (simp add: tegrabl_blockdev_init_def)
  moreover have "registry_step (\<lparr>bdevs = Some [], devices = Map.empty, xfer_id = 0\<rparr> :: nat blockdev_env, \<lambda>_. 0)
      (\<lparr>bdevs = Some [], devices = [1 \<mapsto> demo_dev], xfer_id = 0\<rparr>, \<lambda>_. 0)"
    using registry_step.create [of "\<lparr>bdevs = Some [], devices = Map.empty, xfer_id = 0\<rparr> :: nat blockdev_env" 1 demo_dev
        "0x40000" 9 4 demo_dev "\<lambda>_. 0"]
    by (simp add: tegrabl_blockdev_initialize_bdev_def demo_dev_def push_bit_eq_mult)
  moreover have "registry_step (\<lparr>bdevs = Some [], devices = [1 \<mapsto> demo_dev], xfer_id = 0\<rparr> :: nat blockdev_env, \<lambda>_. 0)
      (demo_env, \<lambda>_. 0)"
    by (rule registry_step.register [of _ 1 demo_dev])
      (simp_all add: tegrabl_blockdev_register_device_def demo_env_def demo_dev_def bdev_inc_ref_def)
  ultimately show ?thesis by (blast intro: converse_rtranclp_into_rtranclp)
qed

text \<open>A SATA device registered after initialisation.\<close>
theorem registry_refcounts_witness: "unat (ref (the (devices demo_env 1))) = 1"
  using registry_refcounts [OF demo_reachable] by (simp add: demo_env_def list_in_list_def)

theorem registered_device_opens_witness:
  "tegrabl_blockdev_open 4 0 demo_env = Some (Some 1, demo_env\<lparr>devices := [1 \<mapsto> demo_dev\<lparr>ref := 2\<rparr>]\<rparr>)"
  using registered_device_opens [OF demo_reachable, of 1 "demo_dev\<lparr>ref := 1\<rparr>" 4 0]
  by (simp add: demo_env_def demo_dev_def list_in_list_def TEGRABL_BLOCK_DEVICE_ID_def bdev_inc_ref_def push_bit_eq_mult)

end
