(* ===== verification/Cboot_Slots.thy ===== *)
theory Cboot_Slots
  imports Cboot_Error Cboot_String
begin

text \<open>
  A/B boot slots (\<^verbatim>\<open>lib/a_b_boot/tegrabl_a_b_boot_control.c\<close>, \<^verbatim>\<open>tegrabl_a_b_partition_naming.c\<close> and their
  header): the slot meta data (SMD), the boot chain scratch register that carries it across boot stages, slot
  selection, the retry and priority policies, and partition naming. Loading and storing the SMD is in
  \<open>Cboot_Smd\<close>.

  The array \<^verbatim>\<open>slot_info\<close> is a function of the index: indices from \<^verbatim>\<open>MAX_SLOTS\<close> on stand for the memory behind
  the array, which the code reads when \<^verbatim>\<open>num_slots\<close> is larger than the array. The scratch register
  (\<^verbatim>\<open>tegrabl_get_boot_slot_reg\<close>, \<^verbatim>\<open>tegrabl_set_boot_slot_reg\<close>) is the state of the functions that access it.
  The register macros compute in 64 bits and are assigned to 32-bit variables; the bit operations and left
  shifts used commute with that truncation, so the model computes in 32 bits.
\<close>

record boot_slot_info =
  priority :: u8
  suffix :: string
  retry_count :: u8
  boot_successful :: u8

record slot_meta_data =
  magic :: u32
  version :: u16
  num_slots :: u16
  slot_info :: "nat \<Rightarrow> boot_slot_info"
  smd_crc32 :: u32

abbreviation (input) BOOT_CHAIN_MAGIC :: u32 where "BOOT_CHAIN_MAGIC \<equiv> 0x43424E00"
abbreviation (input) BOOT_CHAIN_SUFFIX_A :: string where "BOOT_CHAIN_SUFFIX_A \<equiv> ''_a''"
abbreviation (input) BOOT_CHAIN_SUFFIX_B :: string where "BOOT_CHAIN_SUFFIX_B \<equiv> ''_b''"
abbreviation (input) BOOT_CHAIN_SUFFIX_LEN :: nat where "BOOT_CHAIN_SUFFIX_LEN \<equiv> 2"
abbreviation (input) BOOT_CHAIN_VERSION_CRC32 :: u16 where "BOOT_CHAIN_VERSION_CRC32 \<equiv> 2"
abbreviation (input) BOOT_CHAIN_VERSION :: u16 where "BOOT_CHAIN_VERSION \<equiv> 3"
abbreviation (input) BOOT_CHAIN_VERSION_MASK :: u16 where "BOOT_CHAIN_VERSION_MASK \<equiv> 0xFF"
abbreviation (input) SLOT_RETRY_COUNT_DEFAULT :: u8 where "SLOT_RETRY_COUNT_DEFAULT \<equiv> 7"
abbreviation (input) SLOT_PRIORITY_DEFAULT :: u8 where "SLOT_PRIORITY_DEFAULT \<equiv> 15"
abbreviation (input) BOOT_SLOT_A :: u32 where "BOOT_SLOT_A \<equiv> 0"
abbreviation (input) BOOT_SLOT_B :: u32 where "BOOT_SLOT_B \<equiv> 1"
abbreviation (input) MAX_SLOTS :: u32 where "MAX_SLOTS \<equiv> 2"
abbreviation (input) BOOT_CHAIN_REG_MAGIC :: u32 where "BOOT_CHAIN_REG_MAGIC \<equiv> 0xCAFE"
abbreviation (input) BC_FLAG_REDUNDANCY_BOOT :: u8 where "BC_FLAG_REDUNDANCY_BOOT \<equiv> 1"
abbreviation (input) BC_FLAG_OTA_ON :: u8 where "BC_FLAG_OTA_ON \<equiv> 3"

definition BOOTCTRL_SUPPORT_REDUNDANCY :: "u16 \<Rightarrow> bool" where
  "BOOTCTRL_SUPPORT_REDUNDANCY ver \<longleftrightarrow> ver AND push_bit 8 1 \<noteq> 0"

definition BOOTCTRL_SUPPORT_REDUNDANCY_USER :: "u16 \<Rightarrow> bool" where
  "BOOTCTRL_SUPPORT_REDUNDANCY_USER ver \<longleftrightarrow> ver AND push_bit 9 1 \<noteq> 0"

definition ab_error :: "u8 \<Rightarrow> u32 \<Rightarrow> tegrabl_error_t" where
  "ab_error aux reason = tegrabl_error_value MOD_AB_BOOTCTRL aux reason"

lemma ab_error_not_ok [simp]: "ab_error a ERR_INVALID \<noteq> 0" "ab_error a ERR_NOT_FOUND \<noteq> 0"
    "ab_error a ERR_VERIFY_FAILED \<noteq> 0" "ab_error a ERR_NO_MEMORY \<noteq> 0"
  by (simp_all add: ab_error_def)


section \<open>The boot chain scratch register\<close>

definition BOOT_CHAIN_REG_MAGIC_SET :: "u32 \<Rightarrow> u32" where
  "BOOT_CHAIN_REG_MAGIC_SET reg = (reg AND NOT 0x0000FFFF) OR BOOT_CHAIN_REG_MAGIC"

definition BOOT_CHAIN_REG_MAGIC_GET :: "u32 \<Rightarrow> u32" where
  "BOOT_CHAIN_REG_MAGIC_GET reg = reg AND 0x0000FFFF"

definition BOOT_CHAIN_REG_SLOT_NUM_SET :: "u32 \<Rightarrow> u32 \<Rightarrow> u32" where
  "BOOT_CHAIN_REG_SLOT_NUM_SET slot reg = (reg AND NOT (push_bit 16 0x07)) OR push_bit 16 (slot AND 0x07)"

definition BOOT_CHAIN_REG_SLOT_NUM_GET :: "u32 \<Rightarrow> u32" where
  "BOOT_CHAIN_REG_SLOT_NUM_GET reg = drop_bit 16 reg AND 0x07"

definition BOOT_CHAIN_REG_MAX_SLOTS_SET :: "u16 \<Rightarrow> u32 \<Rightarrow> u32" where
  "BOOT_CHAIN_REG_MAX_SLOTS_SET max_slots reg =
     (reg AND NOT (push_bit 19 0x07)) OR push_bit 19 (ucast max_slots AND 0x07)"

definition BOOT_CHAIN_REG_MAX_SLOTS_GET :: "u32 \<Rightarrow> u32" where
  "BOOT_CHAIN_REG_MAX_SLOTS_GET reg = drop_bit 19 reg AND 0x07"

definition BOOT_CHAIN_REG_B_RETRY_COUNT_SET :: "u8 \<Rightarrow> u32 \<Rightarrow> u32" where
  "BOOT_CHAIN_REG_B_RETRY_COUNT_SET count reg =
     (reg AND NOT (push_bit 22 0x0F)) OR push_bit 22 (ucast count AND 0x0F)"

definition BOOT_CHAIN_REG_B_RETRY_COUNT_GET :: "u32 \<Rightarrow> u32" where
  "BOOT_CHAIN_REG_B_RETRY_COUNT_GET reg = drop_bit 22 reg AND 0x0F"

definition BOOT_CHAIN_REG_A_RETRY_COUNT_SET :: "u8 \<Rightarrow> u32 \<Rightarrow> u32" where
  "BOOT_CHAIN_REG_A_RETRY_COUNT_SET count reg =
     (reg AND NOT (push_bit 26 0x0F)) OR push_bit 26 (ucast count AND 0x0F)"

definition BOOT_CHAIN_REG_A_RETRY_COUNT_GET :: "u32 \<Rightarrow> u32" where
  "BOOT_CHAIN_REG_A_RETRY_COUNT_GET reg = drop_bit 26 reg AND 0x0F"

definition BOOT_CHAIN_REG_UPDATE_FLAG_SET :: "u8 \<Rightarrow> u32 \<Rightarrow> u32" where
  "BOOT_CHAIN_REG_UPDATE_FLAG_SET flag reg =
     (reg AND NOT (push_bit 30 0x03)) OR push_bit 30 (ucast flag AND 0x03)"

definition BOOT_CHAIN_REG_UPDATE_FLAG_GET :: "u32 \<Rightarrow> u32" where
  "BOOT_CHAIN_REG_UPDATE_FLAG_GET reg = drop_bit 30 reg AND 0x03"


text \<open>Every field of the register can be read back and no setter touches another field.\<close>

lemma reg_masks:
  "(0x0000FFFF :: u32) = mask 16" "(0x07 :: u32) = mask 3" "(0x0F :: u32) = mask 4" "(0x03 :: u32) = mask 2"
  by (simp_all add: mask_eq_exp_minus_1)

lemmas reg_defs = BOOT_CHAIN_REG_MAGIC_SET_def BOOT_CHAIN_REG_MAGIC_GET_def BOOT_CHAIN_REG_SLOT_NUM_SET_def
  BOOT_CHAIN_REG_SLOT_NUM_GET_def BOOT_CHAIN_REG_MAX_SLOTS_SET_def BOOT_CHAIN_REG_MAX_SLOTS_GET_def
  BOOT_CHAIN_REG_B_RETRY_COUNT_SET_def BOOT_CHAIN_REG_B_RETRY_COUNT_GET_def
  BOOT_CHAIN_REG_A_RETRY_COUNT_SET_def BOOT_CHAIN_REG_A_RETRY_COUNT_GET_def
  BOOT_CHAIN_REG_UPDATE_FLAG_SET_def BOOT_CHAIN_REG_UPDATE_FLAG_GET_def

lemma magic_bits: "bit (0xCAFE :: int) n \<Longrightarrow> n < 16"
proof -
  have "(0xCAFE :: int) = take_bit 16 0xCAFE" by simp
  then show "bit (0xCAFE :: int) n \<Longrightarrow> n < 16" by (metis bit_take_bit_iff)
qed

lemma reg_magic_set [field_simps_c]:
  "BOOT_CHAIN_REG_MAGIC_GET (BOOT_CHAIN_REG_MAGIC_SET r) = BOOT_CHAIN_REG_MAGIC"
  "BOOT_CHAIN_REG_SLOT_NUM_GET (BOOT_CHAIN_REG_MAGIC_SET r) = BOOT_CHAIN_REG_SLOT_NUM_GET r"
  "BOOT_CHAIN_REG_MAX_SLOTS_GET (BOOT_CHAIN_REG_MAGIC_SET r) = BOOT_CHAIN_REG_MAX_SLOTS_GET r"
  "BOOT_CHAIN_REG_B_RETRY_COUNT_GET (BOOT_CHAIN_REG_MAGIC_SET r) = BOOT_CHAIN_REG_B_RETRY_COUNT_GET r"
  "BOOT_CHAIN_REG_A_RETRY_COUNT_GET (BOOT_CHAIN_REG_MAGIC_SET r) = BOOT_CHAIN_REG_A_RETRY_COUNT_GET r"
  "BOOT_CHAIN_REG_UPDATE_FLAG_GET (BOOT_CHAIN_REG_MAGIC_SET r) = BOOT_CHAIN_REG_UPDATE_FLAG_GET r"
  unfolding reg_defs reg_masks
  by (rule bit_eqI; auto simp: bit_simps dest: magic_bits bit_imp_le_length)+

lemma reg_slot_num_set [field_simps_c]:
  "BOOT_CHAIN_REG_MAGIC_GET (BOOT_CHAIN_REG_SLOT_NUM_SET slot r) = BOOT_CHAIN_REG_MAGIC_GET r"
  "BOOT_CHAIN_REG_SLOT_NUM_GET (BOOT_CHAIN_REG_SLOT_NUM_SET slot r) = slot AND 0x07"
  "BOOT_CHAIN_REG_MAX_SLOTS_GET (BOOT_CHAIN_REG_SLOT_NUM_SET slot r) = BOOT_CHAIN_REG_MAX_SLOTS_GET r"
  "BOOT_CHAIN_REG_B_RETRY_COUNT_GET (BOOT_CHAIN_REG_SLOT_NUM_SET slot r) = BOOT_CHAIN_REG_B_RETRY_COUNT_GET r"
  "BOOT_CHAIN_REG_A_RETRY_COUNT_GET (BOOT_CHAIN_REG_SLOT_NUM_SET slot r) = BOOT_CHAIN_REG_A_RETRY_COUNT_GET r"
  "BOOT_CHAIN_REG_UPDATE_FLAG_GET (BOOT_CHAIN_REG_SLOT_NUM_SET slot r) = BOOT_CHAIN_REG_UPDATE_FLAG_GET r"
  unfolding reg_defs reg_masks
  by (rule bit_eqI; auto simp: bit_simps dest: bit_imp_le_length)+

lemma reg_max_slots_set [field_simps_c]:
  "BOOT_CHAIN_REG_MAGIC_GET (BOOT_CHAIN_REG_MAX_SLOTS_SET m r) = BOOT_CHAIN_REG_MAGIC_GET r"
  "BOOT_CHAIN_REG_SLOT_NUM_GET (BOOT_CHAIN_REG_MAX_SLOTS_SET m r) = BOOT_CHAIN_REG_SLOT_NUM_GET r"
  "BOOT_CHAIN_REG_MAX_SLOTS_GET (BOOT_CHAIN_REG_MAX_SLOTS_SET m r) = ucast m AND 0x07"
  "BOOT_CHAIN_REG_B_RETRY_COUNT_GET (BOOT_CHAIN_REG_MAX_SLOTS_SET m r) = BOOT_CHAIN_REG_B_RETRY_COUNT_GET r"
  "BOOT_CHAIN_REG_A_RETRY_COUNT_GET (BOOT_CHAIN_REG_MAX_SLOTS_SET m r) = BOOT_CHAIN_REG_A_RETRY_COUNT_GET r"
  "BOOT_CHAIN_REG_UPDATE_FLAG_GET (BOOT_CHAIN_REG_MAX_SLOTS_SET m r) = BOOT_CHAIN_REG_UPDATE_FLAG_GET r"
  unfolding reg_defs reg_masks
  by (rule bit_eqI; auto simp: bit_simps dest: bit_imp_le_length)+

lemma reg_b_retry_count_set [field_simps_c]:
  "BOOT_CHAIN_REG_MAGIC_GET (BOOT_CHAIN_REG_B_RETRY_COUNT_SET c r) = BOOT_CHAIN_REG_MAGIC_GET r"
  "BOOT_CHAIN_REG_SLOT_NUM_GET (BOOT_CHAIN_REG_B_RETRY_COUNT_SET c r) = BOOT_CHAIN_REG_SLOT_NUM_GET r"
  "BOOT_CHAIN_REG_MAX_SLOTS_GET (BOOT_CHAIN_REG_B_RETRY_COUNT_SET c r) = BOOT_CHAIN_REG_MAX_SLOTS_GET r"
  "BOOT_CHAIN_REG_B_RETRY_COUNT_GET (BOOT_CHAIN_REG_B_RETRY_COUNT_SET c r) = ucast c AND 0x0F"
  "BOOT_CHAIN_REG_A_RETRY_COUNT_GET (BOOT_CHAIN_REG_B_RETRY_COUNT_SET c r) = BOOT_CHAIN_REG_A_RETRY_COUNT_GET r"
  "BOOT_CHAIN_REG_UPDATE_FLAG_GET (BOOT_CHAIN_REG_B_RETRY_COUNT_SET c r) = BOOT_CHAIN_REG_UPDATE_FLAG_GET r"
  unfolding reg_defs reg_masks
  by (rule bit_eqI; auto simp: bit_simps dest: bit_imp_le_length)+

lemma reg_a_retry_count_set [field_simps_c]:
  "BOOT_CHAIN_REG_MAGIC_GET (BOOT_CHAIN_REG_A_RETRY_COUNT_SET c r) = BOOT_CHAIN_REG_MAGIC_GET r"
  "BOOT_CHAIN_REG_SLOT_NUM_GET (BOOT_CHAIN_REG_A_RETRY_COUNT_SET c r) = BOOT_CHAIN_REG_SLOT_NUM_GET r"
  "BOOT_CHAIN_REG_MAX_SLOTS_GET (BOOT_CHAIN_REG_A_RETRY_COUNT_SET c r) = BOOT_CHAIN_REG_MAX_SLOTS_GET r"
  "BOOT_CHAIN_REG_B_RETRY_COUNT_GET (BOOT_CHAIN_REG_A_RETRY_COUNT_SET c r) = BOOT_CHAIN_REG_B_RETRY_COUNT_GET r"
  "BOOT_CHAIN_REG_A_RETRY_COUNT_GET (BOOT_CHAIN_REG_A_RETRY_COUNT_SET c r) = ucast c AND 0x0F"
  "BOOT_CHAIN_REG_UPDATE_FLAG_GET (BOOT_CHAIN_REG_A_RETRY_COUNT_SET c r) = BOOT_CHAIN_REG_UPDATE_FLAG_GET r"
  unfolding reg_defs reg_masks
  by (rule bit_eqI; auto simp: bit_simps dest: bit_imp_le_length)+

lemma reg_update_flag_set [field_simps_c]:
  "BOOT_CHAIN_REG_MAGIC_GET (BOOT_CHAIN_REG_UPDATE_FLAG_SET f r) = BOOT_CHAIN_REG_MAGIC_GET r"
  "BOOT_CHAIN_REG_SLOT_NUM_GET (BOOT_CHAIN_REG_UPDATE_FLAG_SET f r) = BOOT_CHAIN_REG_SLOT_NUM_GET r"
  "BOOT_CHAIN_REG_MAX_SLOTS_GET (BOOT_CHAIN_REG_UPDATE_FLAG_SET f r) = BOOT_CHAIN_REG_MAX_SLOTS_GET r"
  "BOOT_CHAIN_REG_B_RETRY_COUNT_GET (BOOT_CHAIN_REG_UPDATE_FLAG_SET f r) = BOOT_CHAIN_REG_B_RETRY_COUNT_GET r"
  "BOOT_CHAIN_REG_A_RETRY_COUNT_GET (BOOT_CHAIN_REG_UPDATE_FLAG_SET f r) = BOOT_CHAIN_REG_A_RETRY_COUNT_GET r"
  "BOOT_CHAIN_REG_UPDATE_FLAG_GET (BOOT_CHAIN_REG_UPDATE_FLAG_SET f r) = ucast f AND 0x03"
  unfolding reg_defs reg_masks
  by (rule bit_eqI; auto simp: bit_simps dest: bit_imp_le_length)+


section \<open>Slot meta data operations\<close>

definition tegrabl_a_b_get_version :: "slot_meta_data \<Rightarrow> u16" where
  "tegrabl_a_b_get_version smd = version smd"

definition tegrabl_a_b_init :: "slot_meta_data \<Rightarrow> slot_meta_data" where
  "tegrabl_a_b_init smd =
     (let si = (slot_info smd)
            (0 := \<lparr>priority = 15, suffix = BOOT_CHAIN_SUFFIX_A, retry_count = 7, boot_successful = 1\<rparr>,
             1 := \<lparr>priority = 0, suffix = BOOT_CHAIN_SUFFIX_B, retry_count = 0, boot_successful = 0\<rparr>)
      in smd\<lparr>slot_info := si, magic := BOOT_CHAIN_MAGIC, version := BOOT_CHAIN_VERSION, num_slots := 1\<rparr>)"

definition tegrabl_a_b_get_max_num_slots :: "slot_meta_data \<Rightarrow> u16" where
  "tegrabl_a_b_get_max_num_slots smd = num_slots smd"

definition tegrabl_a_b_is_valid :: "u32 \<Rightarrow> slot_meta_data option \<Rightarrow> bool" where
  "tegrabl_a_b_is_valid reg smd =
     (case smd of
        None \<Rightarrow> BOOT_CHAIN_REG_MAGIC_GET reg = BOOT_CHAIN_REG_MAGIC \<and> BOOT_CHAIN_REG_MAX_SLOTS_GET reg > 1
      | Some smd_info \<Rightarrow> magic smd_info = BOOT_CHAIN_MAGIC \<and> num_slots smd_info > 1)"

text \<open>The output parameter \<open>active_slot\<close> is the second result; \<open>None\<close> means it has not been written.\<close>

definition boot_chain_get_bootslot_from_reg :: "u32 \<Rightarrow> tegrabl_error_t \<times> u32 option" where
  "boot_chain_get_bootslot_from_reg reg =
     (if \<not> tegrabl_a_b_is_valid reg None then (ab_error 0 ERR_NOT_FOUND, Some BOOT_SLOT_A)
      else (TEGRABL_NO_ERROR, Some (BOOT_CHAIN_REG_SLOT_NUM_GET reg)))"

text \<open>The selection loop: \<open>k\<close> iterations are left, starting at index \<open>i\<close>.\<close>

fun bootslot_loop :: "(nat \<Rightarrow> boot_slot_info) \<Rightarrow> nat \<Rightarrow> nat \<Rightarrow> u8 \<Rightarrow> nat \<Rightarrow> u8 \<times> nat" where
  "bootslot_loop si 0 i max_priority slot = (max_priority, slot)"
| "bootslot_loop si (Suc k) i max_priority slot =
     (if retry_count (si i) \<noteq> 0 \<and> priority (si i) \<noteq> 0 \<and> max_priority < priority (si i)
      then bootslot_loop si k (i + 1) (priority (si i)) i
      else bootslot_loop si k (i + 1) max_priority slot)"

definition boot_chain_get_bootslot_from_smd :: "slot_meta_data \<Rightarrow> tegrabl_error_t \<times> u32 option" where
  "boot_chain_get_bootslot_from_smd bootctrl =
     (if magic bootctrl \<noteq> BOOT_CHAIN_MAGIC then (ab_error 0 ERR_INVALID, None)
      else case bootslot_loop (slot_info bootctrl) (unat (num_slots bootctrl)) 0 0 0 of (max_priority, slot) \<Rightarrow>
        if max_priority = 0 then (ab_error 1 ERR_INVALID, None)
        else (TEGRABL_NO_ERROR, Some (of_nat slot)))"

definition tegrabl_a_b_get_active_slot ::
  "u32 \<Rightarrow> slot_meta_data option \<Rightarrow> tegrabl_error_t \<times> u32 option" where
  "tegrabl_a_b_get_active_slot reg smd =
     (case smd of None \<Rightarrow> boot_chain_get_bootslot_from_reg reg
      | Some s \<Rightarrow> boot_chain_get_bootslot_from_smd s)"

definition tegrabl_a_b_set_retry_count_reg :: "u32 \<Rightarrow> u8 \<Rightarrow> u32 \<Rightarrow> u32" where
  "tegrabl_a_b_set_retry_count_reg slot rc reg =
     (if slot = BOOT_SLOT_A then BOOT_CHAIN_REG_A_RETRY_COUNT_SET rc reg
      else if slot = BOOT_SLOT_B then BOOT_CHAIN_REG_B_RETRY_COUNT_SET rc reg
      else reg)"

definition tegrabl_a_b_get_retry_count_reg :: "u32 \<Rightarrow> u32 \<Rightarrow> u8" where
  "tegrabl_a_b_get_retry_count_reg slot reg =
     (if slot = BOOT_SLOT_A then ucast (BOOT_CHAIN_REG_A_RETRY_COUNT_GET reg)
      else if slot = BOOT_SLOT_B then ucast (BOOT_CHAIN_REG_B_RETRY_COUNT_GET reg)
      else 0)"

abbreviation update_slot :: "nat \<Rightarrow> (boot_slot_info \<Rightarrow> boot_slot_info) \<Rightarrow> slot_meta_data \<Rightarrow> slot_meta_data" where
  "update_slot i f smd \<equiv> smd\<lparr>slot_info := (slot_info smd)(i := f (slot_info smd i))\<rparr>"

datatype copy_direction = FROM_SMD_TO_REG | FROM_REG_TO_SMD

definition tegrabl_a_b_copy_retry_count ::
  "slot_meta_data \<Rightarrow> u32 \<Rightarrow> copy_direction \<Rightarrow> slot_meta_data \<times> u32" where
  "tegrabl_a_b_copy_retry_count smd reg direct =
     (case direct of
        FROM_REG_TO_SMD \<Rightarrow>
          let smd1 = update_slot 0 (\<lambda>s. s\<lparr>retry_count := ucast (BOOT_CHAIN_REG_A_RETRY_COUNT_GET reg)\<rparr>) smd;
              smd2 = update_slot 1 (\<lambda>s. s\<lparr>retry_count := ucast (BOOT_CHAIN_REG_B_RETRY_COUNT_GET reg)\<rparr>) smd1
          in (smd2, reg)
      | FROM_SMD_TO_REG \<Rightarrow>
          let reg1 = BOOT_CHAIN_REG_A_RETRY_COUNT_SET (retry_count (slot_info smd 0)) reg;
              reg2 = BOOT_CHAIN_REG_B_RETRY_COUNT_SET (retry_count (slot_info smd 1)) reg1
          in (smd, reg2))"

definition tegrabl_a_b_save_boot_slot_reg :: "slot_meta_data \<Rightarrow> u32 \<Rightarrow> u32 \<Rightarrow> u32" where
  "tegrabl_a_b_save_boot_slot_reg smd slot reg =
     (let reg1 = BOOT_CHAIN_REG_SLOT_NUM_SET slot reg;
          reg2 = BOOT_CHAIN_REG_MAX_SLOTS_SET (tegrabl_a_b_get_max_num_slots smd) reg1;
          reg3 = snd (tegrabl_a_b_copy_retry_count smd reg2 FROM_SMD_TO_REG)
      in if boot_successful (slot_info smd (unat slot)) = 0
         then BOOT_CHAIN_REG_UPDATE_FLAG_SET BC_FLAG_OTA_ON reg3
         else if BOOTCTRL_SUPPORT_REDUNDANCY (version smd)
         then BOOT_CHAIN_REG_UPDATE_FLAG_SET BC_FLAG_REDUNDANCY_BOOT reg3
         else reg3)"

definition tegrabl_a_b_init_boot_slot_reg :: "slot_meta_data option \<Rightarrow> u32 \<Rightarrow> tegrabl_error_t \<times> u32" where
  "tegrabl_a_b_init_boot_slot_reg smd reg =
     (if BOOT_CHAIN_REG_MAGIC_GET reg = BOOT_CHAIN_REG_MAGIC then (TEGRABL_NO_ERROR, reg)
      else
        let reg1 = BOOT_CHAIN_REG_MAGIC_SET 0
        in case tegrabl_a_b_get_active_slot reg1 smd of (err, slot) \<Rightarrow>
             if err \<noteq> TEGRABL_NO_ERROR then (err, reg1)
             else case (smd, slot) of
                    (Some s, Some sl) \<Rightarrow> (err, tegrabl_a_b_save_boot_slot_reg s sl reg1)
                  | _ \<Rightarrow> (err, reg1))"

text \<open>The decrement is an 8-bit one: the assertion in front of it is compiled out.\<close>

definition tegrabl_a_b_check_and_update_retry_count ::
  "slot_meta_data \<Rightarrow> u32 \<Rightarrow> tegrabl_error_t \<times> slot_meta_data" where
  "tegrabl_a_b_check_and_update_retry_count smd slot =
     (TEGRABL_NO_ERROR,
      if BOOTCTRL_SUPPORT_REDUNDANCY (version smd) \<or> boot_successful (slot_info smd (unat slot)) = 0
      then update_slot (unat slot) (\<lambda>s. s\<lparr>retry_count := retry_count s - 1\<rparr>) smd
      else smd)"

text \<open>The suffix is the C string left in the caller's buffer.\<close>

definition tegrabl_a_b_get_bootslot_suffix :: "u32 \<Rightarrow> bool \<Rightarrow> tegrabl_error_t \<times> string option" where
  "tegrabl_a_b_get_bootslot_suffix reg full_suffix =
     (case tegrabl_a_b_get_active_slot reg None of (err, slot) \<Rightarrow>
        if err \<noteq> TEGRABL_NO_ERROR \<and> TEGRABL_ERROR_REASON err \<noteq> ucast ERR_NOT_FOUND
        then (ab_error 0 ERR_INVALID, None)
        else if \<not> full_suffix \<and> slot = Some BOOT_SLOT_A then (TEGRABL_NO_ERROR, Some [])
        else if slot = Some BOOT_SLOT_A
        then (TEGRABL_NO_ERROR, Some (strncpy BOOT_CHAIN_SUFFIX_A BOOT_CHAIN_SUFFIX_LEN))
        else (TEGRABL_NO_ERROR, Some (strncpy BOOT_CHAIN_SUFFIX_B BOOT_CHAIN_SUFFIX_LEN)))"

definition tegrabl_a_b_set_bootslot_suffix :: "u32 \<Rightarrow> string \<Rightarrow> bool \<Rightarrow> string" where
  "tegrabl_a_b_set_bootslot_suffix slot part full_suffix =
     (if \<not> full_suffix \<and> slot = BOOT_SLOT_A then part
      else strcat part (if slot = BOOT_SLOT_A then BOOT_CHAIN_SUFFIX_A else BOOT_CHAIN_SUFFIX_B))"

definition tegrabl_a_b_get_slot_via_suffix :: "string \<Rightarrow> tegrabl_error_t \<times> u32 option" where
  "tegrabl_a_b_get_slot_via_suffix suf =
     (if char_at suf = NUL \<or> strcmp suf BOOT_CHAIN_SUFFIX_A = 0 then (TEGRABL_NO_ERROR, Some BOOT_SLOT_A)
      else if strcmp suf BOOT_CHAIN_SUFFIX_B = 0 then (TEGRABL_NO_ERROR, Some BOOT_SLOT_B)
      else (ab_error 0 ERR_INVALID, None))"

section \<open>Guarded accessors\<close>

text \<open>A null \<open>smd_addr\<close> is \<open>None\<close>; an output that is not written is \<open>None\<close>.\<close>

definition tegrabl_a_b_get_slot_num :: "slot_meta_data option \<Rightarrow> tegrabl_error_t \<times> u8 option" where
  "tegrabl_a_b_get_slot_num smd_addr =
     (case smd_addr of None \<Rightarrow> (ab_error 0 ERR_INVALID, None)
      | Some smd \<Rightarrow> (TEGRABL_NO_ERROR, Some (ucast (num_slots smd))))"

definition slot_field ::
  "(boot_slot_info \<Rightarrow> u8) \<Rightarrow> slot_meta_data option \<Rightarrow> u32 \<Rightarrow> tegrabl_error_t \<times> u8 option" where
  "slot_field field smd_addr slot =
     (case smd_addr of None \<Rightarrow> (ab_error 0 ERR_INVALID, None)
      | Some smd \<Rightarrow>
          if slot \<ge> MAX_SLOTS then (ab_error 0 ERR_INVALID, None)
          else (TEGRABL_NO_ERROR, Some (field (slot_info smd (unat slot)))))"

definition tegrabl_a_b_get_successful :: "slot_meta_data option \<Rightarrow> u32 \<Rightarrow> tegrabl_error_t \<times> u8 option" where
  "tegrabl_a_b_get_successful smd_addr slot = slot_field boot_successful smd_addr slot"

definition tegrabl_a_b_get_retry_count :: "slot_meta_data option \<Rightarrow> u32 \<Rightarrow> tegrabl_error_t \<times> u8 option" where
  "tegrabl_a_b_get_retry_count smd_addr slot = slot_field retry_count smd_addr slot"

definition tegrabl_a_b_get_priority :: "slot_meta_data option \<Rightarrow> u32 \<Rightarrow> tegrabl_error_t \<times> u8 option" where
  "tegrabl_a_b_get_priority smd_addr slot = slot_field priority smd_addr slot"

definition tegrabl_a_b_is_unbootable :: "slot_meta_data option \<Rightarrow> u32 \<Rightarrow> tegrabl_error_t \<times> bool option" where
  "tegrabl_a_b_is_unbootable smd_addr slot =
     (if smd_addr = None \<or> slot \<ge> MAX_SLOTS then (ab_error 0 ERR_INVALID, None)
      else case tegrabl_a_b_get_priority smd_addr slot of (e1, p) \<Rightarrow>
        if e1 \<noteq> TEGRABL_NO_ERROR then (tegrabl_err_set_highest_module e1 MOD_AB_BOOTCTRL, None)
        else case tegrabl_a_b_get_retry_count smd_addr slot of (e2, r) \<Rightarrow>
          if e2 \<noteq> TEGRABL_NO_ERROR then (tegrabl_err_set_highest_module e2 MOD_AB_BOOTCTRL, None)
          else (e2, Some (p = Some 0 \<or> r = Some 0)))"

definition set_slot_field ::
  "(boot_slot_info \<Rightarrow> boot_slot_info) \<Rightarrow> slot_meta_data option \<Rightarrow> u32 \<Rightarrow> tegrabl_error_t \<times> slot_meta_data option" where
  "set_slot_field upd smd_addr slot =
     (case smd_addr of None \<Rightarrow> (ab_error 0 ERR_INVALID, None)
      | Some smd \<Rightarrow>
          if slot \<ge> MAX_SLOTS then (ab_error 0 ERR_INVALID, Some smd)
          else (TEGRABL_NO_ERROR, Some (update_slot (unat slot) upd smd)))"

definition tegrabl_a_b_set_successful ::
  "slot_meta_data option \<Rightarrow> u32 \<Rightarrow> u8 \<Rightarrow> tegrabl_error_t \<times> slot_meta_data option" where
  "tegrabl_a_b_set_successful smd_addr slot successful =
     set_slot_field (\<lambda>s. s\<lparr>boot_successful := successful\<rparr>) smd_addr slot"

definition tegrabl_a_b_set_retry_count ::
  "slot_meta_data option \<Rightarrow> u32 \<Rightarrow> u8 \<Rightarrow> tegrabl_error_t \<times> slot_meta_data option" where
  "tegrabl_a_b_set_retry_count smd_addr slot rc = set_slot_field (\<lambda>s. s\<lparr>retry_count := rc\<rparr>) smd_addr slot"

definition tegrabl_a_b_set_priority ::
  "slot_meta_data option \<Rightarrow> u32 \<Rightarrow> u8 \<Rightarrow> tegrabl_error_t \<times> slot_meta_data option" where
  "tegrabl_a_b_set_priority smd_addr slot prio = set_slot_field (\<lambda>s. s\<lparr>priority := prio\<rparr>) smd_addr slot"

fun lower_priorities :: "nat \<Rightarrow> nat \<Rightarrow> slot_meta_data \<Rightarrow> slot_meta_data" where
  "lower_priorities 0 i smd = smd"
| "lower_priorities (Suc k) i smd =
     lower_priorities k (i + 1)
       (if priority (slot_info smd i) > 1 then update_slot i (\<lambda>s. s\<lparr>priority := priority s - 1\<rparr>) smd else smd)"

definition tegrabl_a_b_set_active_slot ::
  "slot_meta_data option \<Rightarrow> u32 \<Rightarrow> tegrabl_error_t \<times> slot_meta_data option" where
  "tegrabl_a_b_set_active_slot smd_addr slot_id =
     (case smd_addr of None \<Rightarrow> (ab_error 0 ERR_INVALID, None)
      | Some smd \<Rightarrow>
          if slot_id \<ge> MAX_SLOTS then (ab_error 0 ERR_INVALID, Some smd)
          else
            case tegrabl_a_b_set_priority (Some (lower_priorities 2 0 smd)) slot_id SLOT_PRIORITY_DEFAULT of (e1, s1) \<Rightarrow>
            if e1 \<noteq> TEGRABL_NO_ERROR then (tegrabl_err_set_highest_module e1 MOD_AB_BOOTCTRL, s1)
            else case tegrabl_a_b_set_retry_count s1 slot_id SLOT_RETRY_COUNT_DEFAULT of (e2, s2) \<Rightarrow>
            if e2 \<noteq> TEGRABL_NO_ERROR then (tegrabl_err_set_highest_module e2 MOD_AB_BOOTCTRL, s2)
            else case tegrabl_a_b_set_successful s2 slot_id 0 of (e3, s3) \<Rightarrow>
            if e3 \<noteq> TEGRABL_NO_ERROR then (tegrabl_err_set_highest_module e3 MOD_AB_BOOTCTRL, s3)
            else (e3, s3))"


section \<open>Redundancy policy\<close>

text \<open>The C expression \<open>!current_slot\<close>.\<close>

abbreviation other_slot :: "u32 \<Rightarrow> u32" where
  "other_slot slot \<equiv> (if slot = 0 then 1 else 0)"

text \<open>Results: the error, \<open>update_smd\<close>, the register and the meta data.\<close>

definition check_non_user_redundancy_status ::
  "u32 \<Rightarrow> slot_meta_data \<Rightarrow> u32 \<Rightarrow> tegrabl_error_t \<times> bool \<times> u32" where
  "check_non_user_redundancy_status reg smd sr =
     (case tegrabl_a_b_get_active_slot sr (Some smd) of (error, smd_slot) \<Rightarrow>
        if error \<noteq> TEGRABL_NO_ERROR then (error, False, sr)
        else let current_slot = BOOT_CHAIN_REG_SLOT_NUM_GET reg
             in if Some current_slot = smd_slot then (error, False, sr)
                else let rc = tegrabl_a_b_get_retry_count_reg current_slot reg + 1
                     in (error, True, tegrabl_a_b_set_retry_count_reg current_slot rc sr))"

definition put_priority :: "slot_meta_data \<Rightarrow> u32 \<Rightarrow> u8 \<Rightarrow> slot_meta_data" where
  "put_priority smd slot prio = the (snd (tegrabl_a_b_set_priority (Some smd) slot prio))"

definition rotate_slots_priority :: "slot_meta_data \<Rightarrow> u32 \<Rightarrow> u8 \<Rightarrow> u8 \<Rightarrow> slot_meta_data" where
  "rotate_slots_priority smd current_slot slot1_priority slot2_priority =
     (if current_slot = 0 then
        if slot1_priority > slot2_priority then put_priority smd current_slot (slot1_priority - 1)
        else if slot2_priority < SLOT_PRIORITY_DEFAULT then
          put_priority smd (other_slot current_slot) (slot2_priority + 1)
        else put_priority smd current_slot (slot2_priority - 1)
      else if unat slot1_priority = unat slot2_priority + 1 then
        if slot2_priority > 1 then put_priority smd (other_slot current_slot) (slot2_priority - 1)
        else put_priority smd current_slot (slot1_priority + 1)
      else put_priority (put_priority smd (other_slot current_slot) SLOT_PRIORITY_DEFAULT)
             current_slot (SLOT_PRIORITY_DEFAULT - 1))"

definition check_user_redundancy_status ::
  "u32 \<Rightarrow> slot_meta_data \<Rightarrow> u32 \<Rightarrow> tegrabl_error_t \<times> bool \<times> u32 \<times> slot_meta_data" where
  "check_user_redundancy_status reg smd sr =
     (let current_slot = BOOT_CHAIN_REG_SLOT_NUM_GET reg;
          rc = tegrabl_a_b_get_retry_count_reg current_slot reg + 1;
          sr' = tegrabl_a_b_set_retry_count_reg current_slot rc sr
      in case tegrabl_a_b_get_priority (Some smd) current_slot of (e1, p1) \<Rightarrow>
         if e1 \<noteq> TEGRABL_NO_ERROR then (e1, False, sr', smd)
         else case tegrabl_a_b_get_priority (Some smd) (other_slot current_slot) of (e2, p2) \<Rightarrow>
         if e2 \<noteq> TEGRABL_NO_ERROR then (e2, False, sr', smd)
         else let slot1_priority = the p1; slot2_priority = the p2
              in (e2, True, sr',
                  if tegrabl_a_b_get_retry_count_reg (other_slot current_slot) sr' \<noteq> 0 \<and>
                     slot1_priority \<noteq> 0 \<and> slot2_priority \<noteq> 0
                  then rotate_slots_priority smd current_slot slot1_priority slot2_priority
                  else smd))"

definition check_redundancy_status ::
  "u32 \<Rightarrow> slot_meta_data \<Rightarrow> u32 \<Rightarrow> tegrabl_error_t \<times> bool \<times> u32 \<times> slot_meta_data" where
  "check_redundancy_status reg smd sr =
     (if \<not> BOOTCTRL_SUPPORT_REDUNDANCY_USER (tegrabl_a_b_get_version smd)
      then case check_non_user_redundancy_status reg smd sr of (e, u, sr') \<Rightarrow> (e, u, sr', smd)
      else check_user_redundancy_status reg smd sr)"


section \<open>Partition names\<close>

definition tegrabl_a_b_match_part_name :: "string \<Rightarrow> string \<Rightarrow> bool" where
  "tegrabl_a_b_match_part_name part_name full_part_name =
     (let len = unat (ucast (strlen part_name) :: u32)
      in if strncmp part_name full_part_name len \<noteq> 0 then False
         else let suf = drop len full_part_name
              in of_nat len = strlen full_part_name \<or> strcmp suf BOOT_CHAIN_SUFFIX_A = 0)"

definition tegrabl_a_b_match_part_name_with_suffix :: "string \<Rightarrow> string \<Rightarrow> bool" where
  "tegrabl_a_b_match_part_name_with_suffix part_name full_part_name =
     (let name_length = (ucast (strlen full_part_name) :: u32)
      in if strncmp part_name full_part_name (unat (strlen part_name)) = 0
         then let suf = drop (unat (strlen part_name)) full_part_name
              in ucast name_length = strlen part_name \<or> strcmp BOOT_CHAIN_SUFFIX_A suf = 0 \<or>
                 strcmp BOOT_CHAIN_SUFFIX_B suf = 0
         else False)"

text \<open>
  For a name shorter than the suffix the code reads in front of the string; the model covers names of at
  least two characters.
\<close>

definition tegrabl_a_b_get_part_suffix :: "string \<Rightarrow> string" where
  "tegrabl_a_b_get_part_suffix part =
     (if strcmp (drop (unat (strlen part - 2)) part) BOOT_CHAIN_SUFFIX_B = 0
      then BOOT_CHAIN_SUFFIX_B else BOOT_CHAIN_SUFFIX_A)"


section \<open>Slot selection\<close>

definition bootable :: "boot_slot_info \<Rightarrow> bool" where
  "bootable s \<longleftrightarrow> retry_count s \<noteq> 0 \<and> priority s \<noteq> 0"

text \<open>What the selection loop knows after the slots below \<open>i\<close>.\<close>

definition selection_inv :: "(nat \<Rightarrow> boot_slot_info) \<Rightarrow> nat \<Rightarrow> u8 \<Rightarrow> nat \<Rightarrow> bool" where
  "selection_inv si i mp slot \<longleftrightarrow>
     (\<forall>j < i. bootable (si j) \<longrightarrow> priority (si j) \<le> mp) \<and>
     (mp \<noteq> 0 \<longrightarrow> slot < i \<and> bootable (si slot) \<and> mp = priority (si slot) \<and>
        (\<forall>j < slot. bootable (si j) \<longrightarrow> priority (si j) < mp))"

lemma bootslot_loop_inv:
  "selection_inv si i mp slot \<Longrightarrow> bootslot_loop si k i mp slot = (mp', slot') \<Longrightarrow>
     selection_inv si (i + k) mp' slot'"
proof (induction k arbitrary: i mp slot)
  case (Suc k)
  show ?case
  proof (cases "bootable (si i) \<and> mp < priority (si i)")
    case True
    have "selection_inv si (i + 1) (priority (si i)) i"
      using Suc.prems(1) True by (fastforce simp: selection_inv_def less_Suc_eq bootable_def)
    with True show ?thesis using Suc.IH Suc.prems(2) by (fastforce simp: bootable_def)
  next
    case False
    have "selection_inv si (i + 1) mp slot"
      using Suc.prems(1) False by (auto simp: selection_inv_def less_Suc_eq not_less word_gt_0)
    moreover have "bootslot_loop si k (i + 1) mp slot = (mp', slot')"
      using False Suc.prems(2) by (auto simp: bootable_def)
    ultimately show ?thesis using Suc.IH by fastforce
  qed
qed simp

lemma selection_result:
  "case bootslot_loop (slot_info smd) (unat (num_slots smd)) 0 0 0 of
     (mp, slot) \<Rightarrow> selection_inv (slot_info smd) (unat (num_slots smd)) mp slot"
  using bootslot_loop_inv [of "slot_info smd" 0 0 0 "unat (num_slots smd)"]
  by (auto simp: selection_inv_def split: prod.splits)

lemma active_slot_bound:
  "tegrabl_a_b_get_active_slot reg (Some smd) = (0, Some s) \<Longrightarrow> \<exists>i < unat (num_slots smd). s = of_nat i"
  using selection_result [of smd]
  by (auto simp: tegrabl_a_b_get_active_slot_def boot_chain_get_bootslot_from_smd_def selection_inv_def
      split: prod.splits if_splits)

text \<open>
  (C33) Slot selection picks a bootable slot (retries left, priority non-zero) of the highest priority, the one
  with the lowest index among equals; it fails exactly when no slot is bootable.
\<close>
theorem active_slot_is_best_bootable:
  assumes "magic smd = BOOT_CHAIN_MAGIC"
  shows "case tegrabl_a_b_get_active_slot reg (Some smd) of
     (err, None) \<Rightarrow> err \<noteq> TEGRABL_NO_ERROR \<and> (\<forall>j < unat (num_slots smd). \<not> bootable (slot_info smd j))
   | (err, Some s) \<Rightarrow> err = TEGRABL_NO_ERROR \<and> (\<exists>i < unat (num_slots smd). s = of_nat i \<and> bootable (slot_info smd i) \<and>
        (\<forall>j < unat (num_slots smd). bootable (slot_info smd j) \<longrightarrow> priority (slot_info smd j) \<le> priority (slot_info smd i)) \<and>
        (\<forall>j < i. bootable (slot_info smd j) \<longrightarrow> priority (slot_info smd j) < priority (slot_info smd i)))"
  using selection_result [of smd]
  by (auto simp: tegrabl_a_b_get_active_slot_def boot_chain_get_bootslot_from_smd_def selection_inv_def
      bootable_def assms split: prod.splits)

lemma bootslot_loop_2 [simp]: "bootslot_loop si 2 i mp slot = bootslot_loop si (Suc (Suc 0)) i mp slot"
  by (simp only: numeral_2_eq_2)

abbreviation demo_slot :: "u8 \<Rightarrow> u8 \<Rightarrow> boot_slot_info" where
  "demo_slot p r \<equiv> \<lparr>priority = p, suffix = ''_a'', retry_count = r, boot_successful = 1\<rparr>"

definition demo_smd :: "u8 \<Rightarrow> u8 \<Rightarrow> slot_meta_data" where
  "demo_smd p q = \<lparr>magic = BOOT_CHAIN_MAGIC, version = 0x303, num_slots = 2,
     slot_info = (\<lambda>i. if i = 0 then demo_slot p 7 else demo_slot q 7), smd_crc32 = 0\<rparr>"

theorem active_slot_is_best_bootable_witness:
  "tegrabl_a_b_get_active_slot 0 (Some (demo_smd 14 15)) = (0, Some 1)"
  using active_slot_is_best_bootable [of "demo_smd 14 15" 0]
  by (simp add: demo_smd_def tegrabl_a_b_get_active_slot_def boot_chain_get_bootslot_from_smd_def)

section \<open>Handing over through the register\<close>

lemma save_boot_slot_reg_fields [field_simps_c]:
  "BOOT_CHAIN_REG_MAGIC_GET (tegrabl_a_b_save_boot_slot_reg smd slot reg) = BOOT_CHAIN_REG_MAGIC_GET reg"
  "BOOT_CHAIN_REG_SLOT_NUM_GET (tegrabl_a_b_save_boot_slot_reg smd slot reg) = slot AND 0x07"
  "BOOT_CHAIN_REG_MAX_SLOTS_GET (tegrabl_a_b_save_boot_slot_reg smd slot reg) = ucast (num_slots smd) AND 0x07"
  "BOOT_CHAIN_REG_A_RETRY_COUNT_GET (tegrabl_a_b_save_boot_slot_reg smd slot reg) =
     ucast (retry_count (slot_info smd 0)) AND 0x0F"
  "BOOT_CHAIN_REG_B_RETRY_COUNT_GET (tegrabl_a_b_save_boot_slot_reg smd slot reg) =
     ucast (retry_count (slot_info smd 1)) AND 0x0F"
  by (simp_all add: tegrabl_a_b_save_boot_slot_reg_def tegrabl_a_b_copy_retry_count_def Let_def
      tegrabl_a_b_get_max_num_slots_def field_simps_c)

lemma unat_and_mask32:
  "unat (x AND 0x07 :: u32) = unat x mod 8" "unat (x AND 0x0F :: u32) = unat x mod 16"
  unfolding reg_masks
  by (simp_all only: take_bit_eq_mask [symmetric] unsigned_take_bit_eq) (simp_all add: take_bit_eq_mod)

lemma and_07_small: "unat (x :: u32) < 8 \<Longrightarrow> x AND 0x07 = x"
  by (simp add: word_unat_eq_iff unat_and_mask32)

text \<open>
  (C34) The register initialised from the meta data carries the selected slot to the next boot stage: reading
  the active slot from the register alone gives the slot chosen from the meta data, and the register records
  the number of slots and the retry counts.
\<close>
theorem init_boot_slot_reg_hands_over:
  assumes "BOOT_CHAIN_REG_MAGIC_GET reg \<noteq> BOOT_CHAIN_REG_MAGIC"
    and "1 < num_slots smd" "num_slots smd \<le> 7" "magic smd = BOOT_CHAIN_MAGIC"
    and "tegrabl_a_b_init_boot_slot_reg (Some smd) reg = (TEGRABL_NO_ERROR, reg')"
  shows "tegrabl_a_b_get_active_slot reg' None = tegrabl_a_b_get_active_slot reg (Some smd) \<and>
     BOOT_CHAIN_REG_MAX_SLOTS_GET reg' = ucast (num_slots smd) \<and>
     unat (tegrabl_a_b_get_retry_count_reg 0 reg') = unat (retry_count (slot_info smd 0)) mod 16 \<and>
     unat (tegrabl_a_b_get_retry_count_reg 1 reg') = unat (retry_count (slot_info smd 1)) mod 16"
proof -
  obtain s where sel: "tegrabl_a_b_get_active_slot reg (Some smd) = (0, Some s)"
    and reg': "reg' = tegrabl_a_b_save_boot_slot_reg smd s (BOOT_CHAIN_REG_MAGIC_SET 0)"
    using assms(1,5)
    by (auto simp: tegrabl_a_b_init_boot_slot_reg_def tegrabl_a_b_get_active_slot_def
        boot_chain_get_bootslot_from_smd_def Let_def split: if_splits prod.splits option.splits)
  have n: "unat (num_slots smd) \<le> 7" "1 < unat (num_slots smd)"
    using assms(2,3) by (simp_all add: word_le_nat_alt word_less_nat_alt)
  have un: "unat (ucast (num_slots smd) :: u32) = unat (num_slots smd)"
    by (simp add: unsigned_ucast_eq take_bit_nat_eq_self_iff) (use n in simp)
  obtain i where i: "i < unat (num_slots smd)" "s = of_nat i"
    using active_slot_bound [OF sel] by auto
  have "unat s < 8" using i n by simp
  have u8: "unat (ucast (x AND 0x0F) :: u8) = unat x mod 16" for x :: u32
    by (simp add: unsigned_ucast_eq unat_and_mask32 take_bit_nat_eq_self_iff)
  have u32: "unat (ucast (c :: u8) :: u32) = unat c" for c
    by (simp add: unsigned_ucast_eq take_bit_nat_eq_self_iff) (use unsigned_less [of c, where 'a = nat] in simp)
  have sel': "boot_chain_get_bootslot_from_smd smd = (0, Some s)"
    using sel by (simp add: tegrabl_a_b_get_active_slot_def)
  show ?thesis
    using n i \<open>unat s < 8\<close> assms(2)
    by (simp add: sel' tegrabl_a_b_get_active_slot_def boot_chain_get_bootslot_from_reg_def tegrabl_a_b_is_valid_def
        reg' field_simps_c and_07_small un word_less_nat_alt tegrabl_a_b_get_retry_count_reg_def u8 u32)
qed

theorem init_boot_slot_reg_hands_over_witness:
  "\<exists>reg'. tegrabl_a_b_init_boot_slot_reg (Some (demo_smd 14 15)) 0 = (TEGRABL_NO_ERROR, reg') \<and>
     tegrabl_a_b_get_active_slot reg' None = (TEGRABL_NO_ERROR, Some 1)"
proof -
  have a: "tegrabl_a_b_get_active_slot r (Some (demo_smd 14 15)) = (0, Some 1)" for r
    by (simp add: demo_smd_def tegrabl_a_b_get_active_slot_def boot_chain_get_bootslot_from_smd_def)
  have m: "BOOT_CHAIN_REG_MAGIC_GET 0 \<noteq> BOOT_CHAIN_REG_MAGIC" by (simp add: BOOT_CHAIN_REG_MAGIC_GET_def)
  obtain reg' where r: "tegrabl_a_b_init_boot_slot_reg (Some (demo_smd 14 15)) 0 = (0, reg')"
    using m by (simp add: tegrabl_a_b_init_boot_slot_reg_def a)
  show ?thesis
    using init_boot_slot_reg_hands_over [OF m _ _ _ r] r a by (simp add: demo_smd_def)
qed

section \<open>Choosing a slot\<close>

lemma update_slot_frame [frame_simps]:
  "magic (update_slot i f smd) = magic smd" "version (update_slot i f smd) = version smd"
  "num_slots (update_slot i f smd) = num_slots smd" "smd_crc32 (update_slot i f smd) = smd_crc32 smd"
  by simp_all

lemma lower_priorities_2:
  "lower_priorities 2 0 smd = lower_priorities (Suc (Suc 0)) 0 smd"
  by (simp only: numeral_2_eq_2)

lemma slot_cases: "slot < (2 :: u32) \<Longrightarrow> slot = 0 \<or> slot = 1"
  by (auto simp: word_less_nat_alt word_unat_eq_iff)

lemma active_slot_two:
  assumes "magic smd = BOOT_CHAIN_MAGIC" "num_slots smd = 2"
  shows "tegrabl_a_b_get_active_slot reg (Some smd) =
     (let a = slot_info smd 0; b = slot_info smd 1
      in if bootable a \<and> (bootable b \<longrightarrow> priority b \<le> priority a) then (TEGRABL_NO_ERROR, Some 0)
         else if bootable b then (TEGRABL_NO_ERROR, Some 1)
         else (ab_error 1 ERR_INVALID, None))"
proof -
  have "(0 :: u8) < p \<longleftrightarrow> p \<noteq> 0" for p by (auto simp: word_gt_0)
  then show ?thesis
    using assms
    by (simp add: tegrabl_a_b_get_active_slot_def boot_chain_get_bootslot_from_smd_def bootable_def Let_def linorder_not_le [symmetric])
qed

definition lowered :: "boot_slot_info \<Rightarrow> boot_slot_info" where
  "lowered s = (if priority s > 1 then s\<lparr>priority := priority s - 1\<rparr> else s)"

lemma lowered_priority: "priority s \<le> 15 \<Longrightarrow> priority (lowered s) < 15"
  by (auto simp: lowered_def word_less_nat_alt word_le_nat_alt unat_sub)

lemma lower_priorities_slots:
  "slot_info (lower_priorities 2 0 smd) = (slot_info smd)(0 := lowered (slot_info smd 0), 1 := lowered (slot_info smd 1))"
  "magic (lower_priorities 2 0 smd) = magic smd" "num_slots (lower_priorities 2 0 smd) = num_slots smd"
  by (auto simp: lower_priorities_2 lowered_def fun_eq_iff)

lemma set_active_slot_result:
  assumes "slot < MAX_SLOTS"
  shows "\<exists>smd'. tegrabl_a_b_set_active_slot (Some smd) slot = (TEGRABL_NO_ERROR, Some smd') \<and>
     magic smd' = magic smd \<and> num_slots smd' = num_slots smd \<and>
     slot_info smd' = (slot_info smd)
       (0 := lowered (slot_info smd 0), 1 := lowered (slot_info smd 1),
        unat slot := (slot_info smd (unat slot))\<lparr>priority := 15, retry_count := 7, boot_successful := 0\<rparr>)"
proof -
  have "(lowered s)\<lparr>priority := 15, retry_count := 7, boot_successful := 0\<rparr> =
     s\<lparr>priority := 15, retry_count := 7, boot_successful := 0\<rparr>" for s
    by (simp add: lowered_def)
  moreover have "\<not> (2 :: u32) \<le> 1" by (simp add: word_le_nat_alt)
  ultimately show ?thesis
    using slot_cases [OF assms]
    by (auto simp: tegrabl_a_b_set_active_slot_def tegrabl_a_b_set_priority_def
        tegrabl_a_b_set_retry_count_def tegrabl_a_b_set_successful_def set_slot_field_def lower_priorities_slots)
qed

text \<open>
  (C35) After \<open>tegrabl_a_b_set_active_slot\<close> the requested slot is the one selected, with fresh retry count and
  cleared success flag, as long as the other slot's priority is in the documented range.
\<close>
theorem set_active_slot_selected:
  assumes "magic smd = BOOT_CHAIN_MAGIC" "num_slots smd = 2" "slot < MAX_SLOTS"
    and "priority (slot_info smd 0) \<le> 15" "priority (slot_info smd 1) \<le> 15"
  shows "\<exists>smd'. tegrabl_a_b_set_active_slot (Some smd) slot = (TEGRABL_NO_ERROR, Some smd') \<and>
     tegrabl_a_b_get_active_slot reg (Some smd') = (TEGRABL_NO_ERROR, Some slot) \<and>
     retry_count (slot_info smd' (unat slot)) = SLOT_RETRY_COUNT_DEFAULT \<and>
     boot_successful (slot_info smd' (unat slot)) = 0"
proof -
  obtain smd' where r: "tegrabl_a_b_set_active_slot (Some smd) slot = (TEGRABL_NO_ERROR, Some smd')"
     "magic smd' = BOOT_CHAIN_MAGIC" "num_slots smd' = 2"
     "slot_info smd' = (slot_info smd)
       (0 := lowered (slot_info smd 0), 1 := lowered (slot_info smd 1),
        unat slot := (slot_info smd (unat slot))\<lparr>priority := 15, retry_count := 7, boot_successful := 0\<rparr>)"
    using set_active_slot_result [OF assms(3), of smd] assms(1,2) by auto
  have p: "priority (lowered (slot_info smd 0)) < 15" "priority (lowered (slot_info smd 1)) < 15"
    using lowered_priority assms(4,5) by blast+
  from slot_cases [OF assms(3)] have "tegrabl_a_b_get_active_slot reg (Some smd') = (TEGRABL_NO_ERROR, Some slot)"
    unfolding active_slot_two [OF r(2,3)] r(4)
    by (rule disjE) (use p [THEN less_imp_le] p [THEN linorder_not_le [THEN iffD2]] in \<open>simp_all add: bootable_def Let_def\<close>)
  with r show ?thesis by simp
qed

theorem set_active_slot_selected_witness:
  "\<exists>smd'. tegrabl_a_b_set_active_slot (Some (demo_smd 15 14)) 1 = (TEGRABL_NO_ERROR, Some smd') \<and>
     tegrabl_a_b_get_active_slot 0 (Some smd') = (TEGRABL_NO_ERROR, Some 1)"
  using set_active_slot_selected [of "demo_smd 15 14" 1 0] by (auto simp: demo_smd_def)


section \<open>Partition names of a slot\<close>

lemma strlen_plain:
  "NUL \<notin> set s \<Longrightarrow> length s < 2 ^ 31 \<Longrightarrow> strlen s = of_nat (length s)"
  by (simp add: strlen_cstr)

lemma strncmp_prefix:
  "NUL \<notin> set p \<Longrightarrow> NUL \<notin> set f \<Longrightarrow> strncmp p f (length p) = 0 \<longleftrightarrow> take (length p) f = p"
  by (auto simp: strncmp_zero)

lemma strcmp_plain: "NUL \<notin> set s \<Longrightarrow> NUL \<notin> set t \<Longrightarrow> strcmp s t = 0 \<longleftrightarrow> s = t"
  by (simp add: strcmp_zero)

lemma take_drop_iff: "take (length p) f = p \<and> drop (length p) f = s \<longleftrightarrow> f = p @ s"
  by (metis append_eq_conv_conj)

text \<open>
  Partition names: a name matches a table entry of the same name or of the name with the suffix of slot A;
  the suffix-aware match also accepts the suffix of slot B, and nothing else matches.
\<close>
theorem part_name_matching:
  assumes "NUL \<notin> set p" "NUL \<notin> set f" "length p < 2 ^ 31" "length f < 2 ^ 31"
  shows "(tegrabl_a_b_match_part_name p f \<longleftrightarrow> f = p \<or> f = p @ ''_a'') \<and>
     (tegrabl_a_b_match_part_name_with_suffix p f \<longleftrightarrow> f = p \<or> f = p @ ''_a'' \<or> f = p @ ''_b'')"
proof -
  have len: "unat (ucast (strlen p) :: u32) = length p" "unat (strlen p) = length p"
    "(of_nat (length p) = strlen f) = (length p = length f)"
    "(ucast (ucast (strlen f) :: u32) = strlen p) = (length p = length f)"
    using assms(3,4) by (auto simp: strlen_plain assms(1,2) unat_ucast_u32 ucast_ucast_u32 word_unat_eq_iff)
  have d: "NUL \<notin> set (drop n f)" for n using assms(2) by (meson in_set_dropD)
  have eq: "take (length p) f = p \<Longrightarrow> length p = length f \<longleftrightarrow> f = p" by auto
  have suf: "strcmp (drop n f) ''_a'' = 0 \<longleftrightarrow> drop n f = ''_a''" "strcmp ''_a'' (drop n f) = 0 \<longleftrightarrow> drop n f = ''_a''"
    "strcmp ''_b'' (drop n f) = 0 \<longleftrightarrow> drop n f = ''_b''" for n
    using d [of n] by (auto simp: strcmp_plain)
  show ?thesis
    using eq take_drop_iff [of p f]
    by (auto simp: tegrabl_a_b_match_part_name_def tegrabl_a_b_match_part_name_with_suffix_def Let_def len
        strncmp_prefix [OF assms(1,2)] suf)
qed

theorem part_name_matching_witness:
  "tegrabl_a_b_match_part_name ''kernel'' ''kernel_a'' \<and> \<not> tegrabl_a_b_match_part_name ''kernel'' ''kernel_b'' \<and>
   tegrabl_a_b_match_part_name_with_suffix ''kernel'' ''kernel_b''"
  using part_name_matching [of "''kernel''" "''kernel_a''"] part_name_matching [of "''kernel''" "''kernel_b''"] by simp

text \<open>Suffixes translate back to slots.\<close>

lemma slot_via_suffix:
  "tegrabl_a_b_get_slot_via_suffix '''' = (TEGRABL_NO_ERROR, Some BOOT_SLOT_A)"
  "tegrabl_a_b_get_slot_via_suffix BOOT_CHAIN_SUFFIX_A = (TEGRABL_NO_ERROR, Some BOOT_SLOT_A)"
  "tegrabl_a_b_get_slot_via_suffix BOOT_CHAIN_SUFFIX_B = (TEGRABL_NO_ERROR, Some BOOT_SLOT_B)"
  by (simp_all add: tegrabl_a_b_get_slot_via_suffix_def strcmp_plain)

end
