(* ===== verification/Cboot_Partition.thy ===== *)
theory Cboot_Partition
  imports Cboot_Gpt Cboot_Registry Cboot_Slots
begin

text \<open>
  The partition manager, \<^verbatim>\<open>common/lib/partition_manager/tegrabl_partition_manager.c\<close>: the list of published storage
  devices, lookup of a partition by name or type, and reading, writing, seeking and erasing within an open
  partition. A pointer to a device is its address in the environment of \<open>Cboot_Blockdev\<close>, 0 the null pointer; an
  operation that follows a pointer to nothing is \<open>None\<close>.
\<close>

section \<open>State\<close>

record storage_info =
  si_bdev :: u64
  si_partitions :: "tegrabl_partition_info list"

record tegrabl_partition =
  partition_info :: "tegrabl_partition_info option"
  part_bdev :: u64
  part_offset :: u64

record 'm partition_env =
  blockdevs :: "'m blockdev_env"
  storage_list :: "storage_info list option"

definition zero_partition :: tegrabl_partition where
  "zero_partition = \<lparr>partition_info = None, part_bdev = 0, part_offset = 0\<rparr>"

definition part_error :: "u8 \<Rightarrow> u32 \<Rightarrow> tegrabl_error_t" where
  "part_error aux reason = tegrabl_error_value MOD_PARTITION_MANAGER aux reason"


section \<open>Lookup\<close>

text \<open>Without the NVPT reader both branches are errors.\<close>

definition tegrabl_partition_pt_has_3_levels :: "bool option \<Rightarrow> bool result" where
  "tegrabl_partition_pt_has_3_levels info =
     (case info of None \<Rightarrow> Inl (part_error 0 ERR_BAD_PARAMETER) | Some _ \<Rightarrow> Inl (part_error 0 ERR_NOT_SUPPORTED))"

definition match_partition_name :: "string \<Rightarrow> string \<Rightarrow> bool" where
  "match_partition_name partition_name name = tegrabl_a_b_match_part_name partition_name name"

definition handle_on :: "tegrabl_partition_info \<Rightarrow> u64 \<Rightarrow> tegrabl_partition" where
  "handle_on info bdev = \<lparr>partition_info = Some info, part_bdev = bdev, part_offset = 0\<rparr>"

fun lookup_bdev_loop :: "string \<Rightarrow> u64 \<Rightarrow> storage_info list \<Rightarrow> (tegrabl_partition_info \<times> u64) option" where
  "lookup_bdev_loop name bdev [] = None"
| "lookup_bdev_loop name bdev (e # es) =
     (if si_bdev e \<noteq> bdev then lookup_bdev_loop name bdev es
      else case find (\<lambda>p. strcmp (part_name p) name = 0) (si_partitions e) of
             Some p \<Rightarrow> Some (p, si_bdev e)
           | None \<Rightarrow> lookup_bdev_loop name bdev es)"

definition tegrabl_partition_lookup_bdev ::
  "string option \<Rightarrow> tegrabl_partition option \<Rightarrow> u64 \<Rightarrow> 'm partition_env \<Rightarrow> unit result \<times> tegrabl_partition option" where
  "tegrabl_partition_lookup_bdev partition_name part bdev env =
     (case (partition_name, part) of
        (Some name, Some p) \<Rightarrow>
          if bdev = 0 then (Inl (part_error 20 ERR_INVALID), part)
          else (case storage_list env of None \<Rightarrow> (Inl (part_error 23 ERR_NOT_INITIALIZED), part)
            | Some es \<Rightarrow> (case lookup_bdev_loop name bdev es of
                  None \<Rightarrow> (Inl (part_error 22 ERR_NOT_FOUND), Some zero_partition)
                | Some (info, d) \<Rightarrow> (Inr (), Some (handle_on info d))))
      | _ \<Rightarrow> (Inl (part_error 20 ERR_INVALID), part))"

text \<open>
  Lookup by partition type. When the device has no partition of the type the code falls back to the first
  partition, but takes the device from the loop variable, which then points at the list head: that path, and the
  path without a list, follow pointers to nothing.
\<close>

fun guid_loop :: "string \<Rightarrow> u64 \<Rightarrow> storage_info list \<Rightarrow> (tegrabl_partition_info \<times> u64) option" where
  "guid_loop guid bdev [] = None"
| "guid_loop guid bdev (e # es) =
     (if si_bdev e \<noteq> bdev then guid_loop guid bdev es
      else case find (\<lambda>p. strncasecmp False (part_ptype_guid p) guid 36 = 0) (si_partitions e) of
             Some p \<Rightarrow> Some (p, si_bdev e)
           | None \<Rightarrow> guid_loop guid bdev es)"

definition tegrabl_partition_boot_guid_lookup_bdev ::
  "string \<Rightarrow> tegrabl_partition option \<Rightarrow> u64 \<Rightarrow> 'm partition_env \<Rightarrow> (unit result \<times> tegrabl_partition option) option" where
  "tegrabl_partition_boot_guid_lookup_bdev pt_type_guid part bdev env =
     (case part of None \<Rightarrow> Some (Inl (part_error 21 ERR_INVALID), part)
      | Some p \<Rightarrow>
          if bdev = 0 then Some (Inl (part_error 21 ERR_INVALID), part)
          else case storage_list env of None \<Rightarrow> None
          | Some es \<Rightarrow>
              (case guid_loop pt_type_guid bdev es of
                 Some (info, d) \<Rightarrow> Some (Inr (), Some (handle_on info d))
               | None \<Rightarrow>
                   if \<forall>e \<in> set es. si_bdev e \<noteq> bdev
                   then Some (Inl (part_error 24 ERR_NOT_FOUND), Some zero_partition)
                   else None))"

fun open_loop :: "string \<Rightarrow> storage_info list \<Rightarrow> (tegrabl_partition_info \<times> u64) option" where
  "open_loop name [] = None"
| "open_loop name (e # es) =
     (case find (\<lambda>p. match_partition_name (part_name p) name) (si_partitions e) of
        Some p \<Rightarrow> Some (p, si_bdev e)
      | None \<Rightarrow> open_loop name es)"

definition tegrabl_partition_open ::
  "string option \<Rightarrow> tegrabl_partition option \<Rightarrow> 'm partition_env \<Rightarrow> unit result \<times> tegrabl_partition option" where
  "tegrabl_partition_open partition_name part env =
     (case (partition_name, part) of
        (Some name, Some p) \<Rightarrow>
          (case storage_list env of None \<Rightarrow> (Inl (part_error 23 ERR_NOT_INITIALIZED), part)
           | Some es \<Rightarrow> (case open_loop name es of
                 None \<Rightarrow> (Inl (part_error 0 ERR_NOT_FOUND), Some zero_partition)
               | Some (info, d) \<Rightarrow> (Inr (), Some (handle_on info d))))
      | _ \<Rightarrow> (Inl (part_error 19 ERR_INVALID), part))"

definition tegrabl_partition_size :: "tegrabl_partition option \<Rightarrow> u64" where
  "tegrabl_partition_size part =
     (case part of None \<Rightarrow> 0
      | Some p \<Rightarrow> (case partition_info p of None \<Rightarrow> 0 | Some info \<Rightarrow> total_size info))"

definition tegrabl_partition_close :: "tegrabl_partition option \<Rightarrow> tegrabl_partition option" where
  "tegrabl_partition_close part = map_option (\<lambda>_. zero_partition) part"

definition tegrabl_partition_start_in_block :: "tegrabl_partition option \<Rightarrow> u32 result" where
  "tegrabl_partition_start_in_block part =
     (case part of None \<Rightarrow> Inl (part_error 3 ERR_INVALID)
      | Some p \<Rightarrow> (case partition_info p of None \<Rightarrow> Inl (part_error 4 ERR_NOT_INITIALIZED)
                   | Some info \<Rightarrow> Inr (ucast (start_sector info))))"


section \<open>Transfers\<close>

definition part_device :: "'m partition_env \<Rightarrow> tegrabl_partition \<Rightarrow> 'm tegrabl_bdev option" where
  "part_device env p = devices (blockdevs env) (part_bdev p)"

definition tegrabl_partition_erase ::
  "tegrabl_partition option \<Rightarrow> bool \<Rightarrow> 'm partition_env \<Rightarrow> 'm \<Rightarrow> (unit result \<times> 'm) option" where
  "tegrabl_partition_erase part secure env m =
     (case part of None \<Rightarrow> Some (Inl (part_error 1 ERR_INVALID), m)
      | Some p \<Rightarrow>
          (case partition_info p of None \<Rightarrow> Some (Inl (part_error 2 ERR_NOT_INITIALIZED), m)
           | Some info \<Rightarrow>
               if part_bdev p = 0 then Some (Inl (part_error 2 ERR_NOT_INITIALIZED), m)
               else map_option (\<lambda>d. highest MOD_PARTITION_MANAGER
                      (tegrabl_blockdev_erase (Some d) (ucast (start_sector info)) (ucast (num_sectors info)) secure m))
                    (part_device env p)))"

text \<open>The offset advances after a write even when the write failed.\<close>

definition tegrabl_partition_write ::
  "(u64 \<Rightarrow> u64) \<Rightarrow> tegrabl_partition option \<Rightarrow> u64 \<Rightarrow> bytes \<Rightarrow> u64 \<Rightarrow> 'm partition_env \<Rightarrow> 'm \<Rightarrow>
   (unit result \<times> tegrabl_partition option \<times> 'm) option" where
  "tegrabl_partition_write alloc part buf data num_bytes env m =
     (case part of None \<Rightarrow> Some (Inl (part_error 2 ERR_INVALID), part, m)
      | Some p \<Rightarrow>
          if buf = 0 \<or> num_bytes = 0 then Some (Inl (part_error 2 ERR_INVALID), part, m)
          else case partition_info p of None \<Rightarrow> Some (Inl (part_error 3 ERR_NOT_INITIALIZED), part, m)
          | Some info \<Rightarrow>
              if part_bdev p = 0 then Some (Inl (part_error 3 ERR_NOT_INITIALIZED), part, m)
              else if total_size info < num_bytes + part_offset p then Some (Inl (part_error 0 ERR_OVERFLOW), part, m)
              else (case part_device env p of None \<Rightarrow> None
                | Some d \<Rightarrow>
                    let offset = part_offset p + push_bit (block_size_log2 d) (start_sector info);
                        (r, m1) = highest MOD_PARTITION_MANAGER
                                    (tegrabl_blockdev_write alloc (Some d) buf data offset num_bytes m)
                    in Some (r, Some (p\<lparr>part_offset := part_offset p + num_bytes\<rparr>), m1)))"

definition tegrabl_partition_read ::
  "(u64 \<Rightarrow> u64) \<Rightarrow> tegrabl_partition option \<Rightarrow> u64 \<Rightarrow> u64 \<Rightarrow> 'm partition_env \<Rightarrow> 'm \<Rightarrow>
   (bytes result \<times> tegrabl_partition option \<times> 'm) option" where
  "tegrabl_partition_read alloc part buf num_bytes env m =
     (case part of None \<Rightarrow> Some (Inl (part_error 4 ERR_INVALID), part, m)
      | Some p \<Rightarrow>
          if buf = 0 \<or> num_bytes = 0 then Some (Inl (part_error 4 ERR_INVALID), part, m)
          else case partition_info p of None \<Rightarrow> Some (Inl (part_error 4 ERR_NOT_INITIALIZED), part, m)
          | Some info \<Rightarrow>
              if part_bdev p = 0 then Some (Inl (part_error 4 ERR_NOT_INITIALIZED), part, m)
              else if total_size info < num_bytes + part_offset p then Some (Inl (part_error 1 ERR_OVERFLOW), part, m)
              else (case part_device env p of None \<Rightarrow> None
                | Some d \<Rightarrow>
                    let offset = part_offset p + push_bit (block_size_log2 d) (start_sector info)
                    in case highest MOD_PARTITION_MANAGER (tegrabl_blockdev_read alloc (Some d) buf offset num_bytes m) of
                         (Inl e, m1) \<Rightarrow> Some (Inl e, part, m1)
                       | (Inr x, m1) \<Rightarrow> Some (Inr x, Some (p\<lparr>part_offset := part_offset p + num_bytes\<rparr>), m1)))"

text \<open>Seeking, with the offset a signed 64-bit number; \<open>origin\<close> is 0 for the start, 1 for the position, 2 for the end.\<close>

definition tegrabl_partition_seek ::
  "tegrabl_partition option \<Rightarrow> u64 \<Rightarrow> u32 \<Rightarrow> unit result \<times> tegrabl_partition option" where
  "tegrabl_partition_seek part offset origin =
     (case part of None \<Rightarrow> (Inl (part_error 5 ERR_INVALID), part)
      | Some p \<Rightarrow>
          (case partition_info p of None \<Rightarrow> (Inl (part_error 5 ERR_NOT_INITIALIZED), part)
           | Some info \<Rightarrow>
               if part_bdev p = 0 then (Inl (part_error 5 ERR_NOT_INITIALIZED), part)
               else if origin > 2 then (Inl (part_error 6 ERR_INVALID), part)
               else let base = (if origin = 0 then 0 else if origin = 1 then part_offset p else total_size info);
                        new_offset = base + offset
                    in if sint new_offset < 0 then (Inl (part_error 0 ERR_UNDERFLOW), part)
                       else if total_size info < new_offset then (Inl (part_error 2 ERR_OVERFLOW), part)
                       else (Inr (), Some (p\<lparr>part_offset := new_offset\<rparr>))))"

definition tegrabl_partition_tell :: "tegrabl_partition option \<Rightarrow> int" where
  "tegrabl_partition_tell part =
     (case part of None \<Rightarrow> - 1
      | Some p \<Rightarrow> if partition_info p = None \<or> part_bdev p = 0 then - 1 else sint (part_offset p))"

text \<open>
  The asynchronous transfers differ in their error numbers only: the write also starts a read transfer
  (\<^verbatim>\<open>TEGRABL_BLOCKDEV_READ\<close>, 2). \<open>xfer_ok\<close> says whether the descriptor was allocated; its other fields are \<open>x\<close>.
\<close>

definition partition_async ::
  "u8 \<Rightarrow> u8 \<Rightarrow> tegrabl_partition option \<Rightarrow> u64 \<Rightarrow> u64 \<Rightarrow> u64 \<Rightarrow> xfer_info option \<Rightarrow> 'm partition_env \<Rightarrow> 'm \<Rightarrow>
   (xfer_info result \<times> 'm partition_env \<times> 'm) option" where
  "partition_async aux type part buf start num xfer env m =
     (case part of None \<Rightarrow> Some (Inl (part_error aux ERR_INVALID), env, m)
      | Some p \<Rightarrow>
          if buf = 0 \<or> num = 0 then Some (Inl (part_error aux ERR_INVALID), env, m)
          else case partition_info p of None \<Rightarrow> Some (Inl (part_error (aux + 1) ERR_INVALID), env, m)
          | Some info \<Rightarrow>
              if part_bdev p = 0 then Some (Inl (part_error (aux + 1) ERR_INVALID), env, m)
              else if num_sectors info < start + num then Some (Inl (part_error (aux + 2) ERR_INVALID), env, m)
              else case xfer of None \<Rightarrow> Some (Inl (part_error (aux + 3) ERR_INVALID), env, m)
              | Some x \<Rightarrow>
                  map_option (\<lambda>(r, b, m1). (r, env\<lparr>blockdevs := b\<rparr>, m1))
                    (tegrabl_blockdev_xfer
                       (Some (x\<lparr>xfer_dev := part_bdev p, xfer_buf := buf, xfer_type := type, is_non_blocking := True,
                                start_block := ucast (start_sector info + start), xfer_count := ucast num\<rparr>))
                       (blockdevs env) m))"

definition tegrabl_partition_async_read ::
  "tegrabl_partition option \<Rightarrow> u64 \<Rightarrow> u64 \<Rightarrow> u64 \<Rightarrow> xfer_info option \<Rightarrow> 'm partition_env \<Rightarrow> 'm \<Rightarrow>
   (xfer_info result \<times> 'm partition_env \<times> 'm) option" where
  "tegrabl_partition_async_read = partition_async 7 2"

definition tegrabl_partition_async_write ::
  "tegrabl_partition option \<Rightarrow> u64 \<Rightarrow> u64 \<Rightarrow> u64 \<Rightarrow> xfer_info option \<Rightarrow> 'm partition_env \<Rightarrow> 'm \<Rightarrow>
   (xfer_info result \<times> 'm partition_env \<times> 'm) option" where
  "tegrabl_partition_async_write = partition_async 11 2"


section \<open>Publishing\<close>

text \<open>The table of publishers; this build has the GPT reader only.\<close>

type_synonym 'm publisher = "'m tegrabl_bdev option \<Rightarrow> off_t \<Rightarrow> 'm \<Rightarrow> tegrabl_partition_info list result \<times> 'm"

definition publish_partition :: "(u64 \<Rightarrow> u64) \<Rightarrow> (u64 \<Rightarrow> bool) \<Rightarrow> 'm publisher list" where
  "publish_partition alloc malloc_ok = [tegrabl_gpt_publish alloc malloc_ok]"

fun try_publishers ::
  "'m publisher list \<Rightarrow> 'm tegrabl_bdev \<Rightarrow> off_t \<Rightarrow> 'm \<Rightarrow> tegrabl_partition_info list option \<times> 'm" where
  "try_publishers [] dev offset m = (None, m)"
| "try_publishers (f # fs) dev offset m =
     (case f (Some dev) offset m of
        (Inr ps, m1) \<Rightarrow> (Some ps, m1)
      | (Inl _, m1) \<Rightarrow> try_publishers fs dev offset m1)"

definition set_published :: "u64 \<Rightarrow> bool \<Rightarrow> 'm partition_env \<Rightarrow> 'm partition_env" where
  "set_published h flag env =
     env\<lparr>blockdevs := (blockdevs env)\<lparr>devices := (devices (blockdevs env))
           (h := map_option (published_update (\<lambda>_. flag)) (devices (blockdevs env) h))\<rparr>\<rparr>"

definition tegrabl_partition_publish ::
  "(u64 \<Rightarrow> u64) \<Rightarrow> (u64 \<Rightarrow> bool) \<Rightarrow> u64 \<Rightarrow> off_t \<Rightarrow> 'm partition_env \<Rightarrow> 'm \<Rightarrow> (unit result \<times> 'm partition_env \<times> 'm) option" where
  "tegrabl_partition_publish alloc malloc_ok h offset env m =
     (if h = 0 then Some (Inl (part_error 15 ERR_INVALID), env, m)
      else case devices (blockdevs env) h of None \<Rightarrow> None
      | Some dev \<Rightarrow>
          if published dev then Some (Inr (), env, m)
          else case try_publishers (publish_partition alloc malloc_ok) dev offset m of
            (None, m1) \<Rightarrow> Some (Inl (part_error 0 ERR_NOT_SUPPORTED), set_published h False env, m1)
          | (Some ps, m1) \<Rightarrow>
              if \<not> malloc_ok 40 then Some (Inl (part_error 0 ERR_NO_MEMORY), env, m1)
              else case storage_list env of None \<Rightarrow> None
              | Some es \<Rightarrow> Some (Inr (), set_published h True
                    (env\<lparr>storage_list := Some (\<lparr>si_bdev = h, si_partitions = ps\<rparr> # es)\<rparr>), m1))"

fun unpublish_loop :: "u32 \<Rightarrow> storage_info list \<Rightarrow> 'm blockdev_env \<Rightarrow> storage_info list option" where
  "unpublish_loop dev_id [] b = Some []"
| "unpublish_loop dev_id (e # es) b =
     (case devices b (si_bdev e) of None \<Rightarrow> None
      | Some d \<Rightarrow> if device_id d = dev_id then Some es else map_option ((#) e) (unpublish_loop dev_id es b))"

definition tegrabl_partitions_unpublish :: "u64 \<Rightarrow> 'm partition_env \<Rightarrow> (unit result \<times> 'm partition_env) option" where
  "tegrabl_partitions_unpublish h env =
     (if h = 0 then Some (Inl (part_error 16 ERR_INVALID), env)
      else case devices (blockdevs env) h of None \<Rightarrow> None
      | Some dev \<Rightarrow>
          if \<not> published dev then Some (Inr (), env)
          else case storage_list env of None \<Rightarrow> Some (Inl (part_error 0 ERR_NOT_INITIALIZED), env)
          | Some es \<Rightarrow> map_option (\<lambda>es'. (Inr (), set_published h False (env\<lparr>storage_list := Some es'\<rparr>)))
                          (unpublish_loop (device_id dev) es (blockdevs env)))"

text \<open>
  The loop of \<^verbatim>\<open>tegrabl_partition_manager_init\<close> over the registered devices. It asks for the device after the current
  one until there is none; the fuel bounds the number of devices visited, \<open>None\<close> is running out of it or a fault.
\<close>

fun publish_devices ::
  "nat \<Rightarrow> (u64 \<Rightarrow> u64) \<Rightarrow> (u64 \<Rightarrow> bool) \<Rightarrow> u64 option \<Rightarrow> 'm partition_env \<Rightarrow> 'm \<Rightarrow> ('m partition_env \<times> 'm) option" where
  "publish_devices 0 alloc malloc_ok cur env m = None"
| "publish_devices (Suc n) alloc malloc_ok cur env m =
     (case tegrabl_blockdev_next_device cur (blockdevs env) of
        None \<Rightarrow> None
      | Some None \<Rightarrow> Some (env, m)
      | Some (Some h) \<Rightarrow>
          if tegrabl_blockdev_get_storage_type (devices (blockdevs env) h) \<noteq> 2
          then (case tegrabl_partition_publish alloc malloc_ok h 0 env m of None \<Rightarrow> None
                | Some (_, env1, m1) \<Rightarrow> publish_devices n alloc malloc_ok (Some h) env1 m1)
          else publish_devices n alloc malloc_ok (Some h) env m)"

definition tegrabl_partition_manager_init ::
  "nat \<Rightarrow> (u64 \<Rightarrow> u64) \<Rightarrow> (u64 \<Rightarrow> bool) \<Rightarrow> 'm partition_env \<Rightarrow> 'm \<Rightarrow> (unit result \<times> 'm partition_env \<times> 'm) option" where
  "tegrabl_partition_manager_init fuel alloc malloc_ok env m =
     (if \<not> malloc_ok 16 then Some (Inl (part_error 1 ERR_NO_MEMORY), env\<lparr>storage_list := None\<rparr>, m)
      else map_option (\<lambda>(env1, m1). (Inr (), env1, m1))
             (publish_devices fuel alloc malloc_ok None (env\<lparr>storage_list := Some []\<rparr>) m))"

text \<open>The argument of the flush request is the device itself; its contents are not looked at, here the empty list.\<close>

fun flush_devices :: "nat \<Rightarrow> u64 option \<Rightarrow> 'm blockdev_env \<Rightarrow> 'm \<Rightarrow> 'm option" where
  "flush_devices 0 cur b m = None"
| "flush_devices (Suc n) cur b m =
     (case tegrabl_blockdev_next_device cur b of
        None \<Rightarrow> None
      | Some None \<Rightarrow> Some m
      | Some (Some h) \<Rightarrow>
          (case tegrabl_blockdev_ioctl (devices b h) 4 (Some []) m of None \<Rightarrow> None
           | Some (_, m1) \<Rightarrow> flush_devices n (Some h) b m1))"

definition tegrabl_partition_manager_flush_cache :: "nat \<Rightarrow> 'm blockdev_env \<Rightarrow> 'm \<Rightarrow> 'm option" where
  "tegrabl_partition_manager_flush_cache fuel b m = flush_devices fuel None b m"


lemma sint_small: "unat (x :: u64) < 2 ^ 63 \<Longrightarrow> sint x = int (unat x)"
proof -
  assume "unat x < 2 ^ 63"
  then have "int (unat x) < int (2 ^ 63)" by (simp only: of_nat_less_iff)
  moreover have u: "uint x = int (unat x)" by simp
  ultimately have "uint x < 2 ^ 63" by (simp only: of_nat_power of_nat_numeral)
  moreover have "- (2 ^ 63) \<le> uint x" by (rule order_trans [OF _ unsigned_greater_eq]) simp
  ultimately have "signed_take_bit 63 (uint x) = uint x" by (intro signed_take_bit_int_eq_self)
  then show ?thesis unfolding sint_uint u by simp
qed

section \<open>Partitions as byte stores\<close>

text \<open>
  A handle on a partition that lies on its device: what \<^verbatim>\<open>tegrabl_partition_open\<close> returns for a published device. The
  bytes of the partition are a slice of the medium.
\<close>

definition part_range :: "'m tegrabl_bdev \<Rightarrow> tegrabl_partition_info \<Rightarrow> bool" where
  "part_range d info \<longleftrightarrow> unat (start_sector info) + unat (num_sectors info) \<le> unat (block_count d) \<and>
     total_size info = push_bit (block_size_log2 d) (num_sectors info)"

definition part_base :: "'m tegrabl_bdev \<Rightarrow> tegrabl_partition_info \<Rightarrow> nat" where
  "part_base d info = unat (start_sector info) * 2 ^ block_size_log2 d"

definition part_bytes :: "'m tegrabl_bdev \<Rightarrow> tegrabl_partition_info \<Rightarrow> bytes \<Rightarrow> bytes" where
  "part_bytes d info xs = take (unat (total_size info)) (drop (part_base d info) xs)"

lemma slice_patch_at:
  assumes "p + length x \<le> n" "b + n \<le> length xs"
  shows "take n (drop b (patch_at (b + p) x xs)) = patch_at p x (take n (drop b xs))"
proof -
  have "drop b (patch_at (b + p) x xs) = take p (drop b xs) @ x @ drop (b + p + length x) xs"
    using assms by (simp add: patch_at_def drop_take)
  moreover have "take (n - p - length x) (drop (b + p + length x) xs) = drop (p + length x) (take n (drop b xs))"
    using assms(1) by (simp add: drop_take add.commute add.left_commute diff_diff_left)
  ultimately show ?thesis using assms by (simp add: patch_at_def min_absorb1)
qed

lemma outside_patch_at:
  assumes "b \<le> p" "p + length x \<le> b + n" "b + n \<le> length xs"
  shows "take b (patch_at p x xs) = take b xs" "drop (b + n) (patch_at p x xs) = drop (b + n) xs"
  using assms by (simp_all add: patch_at_def min_absorb1 min_absorb2 add.commute)

locale partition_handle = block_client dev contents alloc buf
  for dev :: "'m tegrabl_bdev" and contents :: "'m \<Rightarrow> bytes" and alloc :: "u64 \<Rightarrow> u64" and buf :: u64 +
  fixes env :: "'m partition_env" and part :: tegrabl_partition and info :: tegrabl_partition_info
  assumes handle: "partition_info part = Some info" "part_bdev part \<noteq> 0" "part_device env part = Some dev"
    and range: "part_range dev info"
begin

abbreviation "pbase \<equiv> part_base dev info"
abbreviation "psize \<equiv> unat (total_size info)"

lemma size_eq: "psize = unat (num_sectors info) * B"
  and on_device: "pbase + psize \<le> N * B"
  and unat_base: "unat (push_bit K (start_sector info)) = pbase"
proof -
  have "(unat (start_sector info) + unat (num_sectors info)) * B \<le> N * B"
    using range by (intro mult_le_mono1) (simp add: part_range_def)
  then have le: "unat (start_sector info) * B + unat (num_sectors info) * B \<le> N * B" by (simp add: add_mult_distrib)
  then have lt: "unat (start_sector info) * B < 2 ^ 64" "unat (num_sectors info) * B < 2 ^ 64" using size_bound by linarith+
  show s: "psize = unat (num_sectors info) * B" using range lt by (simp add: part_range_def unat_push_bit64)
  show "pbase + psize \<le> N * B" using le unfolding s by (simp add: part_base_def)
  show "unat (push_bit K (start_sector info)) = pbase" using lt by (simp add: unat_push_bit64 part_base_def)
qed

lemma size_lt: "pbase + psize < 2 ^ 64" using on_device size_bound by linarith

lemma accepted:
  assumes "unat o' + unat n \<le> psize"
  shows "\<not> total_size info < n + o'" "unat (o' + push_bit K (start_sector info)) = pbase + unat o'"
proof -
  have "unat (n + o') = unat o' + unat n"
    using assms unat_lt64 [of "total_size info"] by (subst unat_add_lem [THEN iffD1]) simp_all
  with assms show "\<not> total_size info < n + o'" by (simp add: word_less_nat_alt)
  show "unat (o' + push_bit K (start_sector info)) = pbase + unat o'"
    using assms size_lt by (subst unat_add_lem [THEN iffD1]) (simp_all add: unat_base)
qed

lemma read_ok:
  assumes "0 < n" "unat (part_offset part) + unat n \<le> psize"
  shows "tegrabl_partition_read alloc (Some part) buf n env m =
    Some (Inr (take (unat n) (drop (unat (part_offset part)) (part_bytes dev info (contents m)))),
          Some (part\<lparr>part_offset := part_offset part + n\<rparr>), m)"
proof -
  let ?o = "part_offset part + push_bit K (start_sector info)"
  note acc = accepted [OF assms(2)]
  have "tegrabl_blockdev_read alloc (Some dev) buf (of_nat (unat ?o)) (of_nat (unat n)) m =
      (Inr (take (unat n) (drop (unat ?o) (contents m))), m)"
    using assms on_device by (intro client_read) (simp_all add: acc(2) unat_gt_0 word_gt_0)
  then have rd: "tegrabl_blockdev_read alloc (Some dev) buf ?o n m =
      (Inr (take (unat n) (drop (pbase + unat (part_offset part)) (contents m))), m)"
    unfolding of_nat_unat ucast_id by (simp only: acc(2))
  have "take (unat n) (drop (unat (part_offset part)) (part_bytes dev info (contents m))) =
      take (unat n) (drop (pbase + unat (part_offset part)) (contents m))"
    using assms(2) by (simp add: part_bytes_def drop_take min_absorb1 add.commute)
  moreover have "buf \<noteq> 0" "n \<noteq> 0" using buffer(1) assms(1) by auto
  ultimately show ?thesis
    using handle acc(1) by (simp add: tegrabl_partition_read_def Let_def rd)
qed

lemma write_ok:
  assumes "0 < n" "unat (part_offset part) + unat n \<le> psize" "length data = unat n"
  shows "\<exists>m'. tegrabl_partition_write alloc (Some part) buf data n env m =
      Some (Inr (), Some (part\<lparr>part_offset := part_offset part + n\<rparr>), m') \<and>
    contents m' = patch_at (pbase + unat (part_offset part)) data (contents m)"
proof -
  let ?o = "part_offset part + push_bit K (start_sector info)"
  note acc = accepted [OF assms(2)]
  have "\<exists>m'. tegrabl_blockdev_write alloc (Some dev) buf data (of_nat (unat ?o)) (of_nat (length data)) m = (Inr (), m') \<and>
      contents m' = patch_at (unat ?o) data (contents m)"
    using assms on_device by (intro client_write) (auto simp: acc(2) word_less_nat_alt)
  then obtain m' where "tegrabl_blockdev_write alloc (Some dev) buf data ?o n m = (Inr (), m')"
      "contents m' = patch_at (pbase + unat (part_offset part)) data (contents m)"
    unfolding assms(3) of_nat_unat ucast_id unfolding acc(2) by blast
  moreover have "buf \<noteq> 0" "n \<noteq> 0" using buffer(1) assms(1) by auto
  ultimately show ?thesis
    using handle acc(1) by (simp add: tegrabl_partition_write_def Let_def)
qed

text \<open>Whatever the position, the handle reads and writes a slice of the medium.\<close>

lemma at_offset: "partition_handle dev contents alloc buf env (part\<lparr>part_offset := o'\<rparr>) info"
  by unfold_locales (use handle range in \<open>simp_all add: part_device_def\<close>)

end

definition part_read_at ::
  "(u64 \<Rightarrow> u64) \<Rightarrow> tegrabl_partition \<Rightarrow> u64 \<Rightarrow> 'm partition_env \<Rightarrow> nat \<Rightarrow> nat \<Rightarrow> 'm \<Rightarrow> bytes result \<times> 'm" where
  "part_read_at alloc part buf env p l m =
     (case tegrabl_partition_seek (Some part) (of_nat p) 0 of
        (Inl e, _) \<Rightarrow> (Inl e, m)
      | (Inr _, part1) \<Rightarrow> (case tegrabl_partition_read alloc part1 buf (of_nat l) env m of
            Some (r, _, m1) \<Rightarrow> (r, m1) | None \<Rightarrow> (Inl 0, m)))"

definition part_write_at ::
  "(u64 \<Rightarrow> u64) \<Rightarrow> tegrabl_partition \<Rightarrow> u64 \<Rightarrow> 'm partition_env \<Rightarrow> nat \<Rightarrow> bytes \<Rightarrow> 'm \<Rightarrow> unit result \<times> 'm" where
  "part_write_at alloc part buf env p d m =
     (case tegrabl_partition_seek (Some part) (of_nat p) 0 of
        (Inl e, _) \<Rightarrow> (Inl e, m)
      | (Inr _, part1) \<Rightarrow> (case tegrabl_partition_write alloc part1 buf d (of_nat (length d)) env m of
            Some (r, _, m1) \<Rightarrow> (r, m1) | None \<Rightarrow> (Inl 0, m)))"

lemma seek_set:
  assumes "partition_info part = Some info" "part_bdev part \<noteq> 0" "unat o' \<le> unat (total_size info)" "unat o' < 2 ^ 63"
  shows "tegrabl_partition_seek (Some part) o' 0 = (Inr (), Some (part\<lparr>part_offset := o'\<rparr>))"
proof -
  have "0 \<le> sint o'" using assms(4) by (simp add: sint_small)
  with assms show ?thesis by (simp add: tegrabl_partition_seek_def Let_def word_less_nat_alt)
qed


context partition_handle
begin

lemma offset_word: "p \<le> psize \<Longrightarrow> unat (of_nat p :: u64) = p" "p \<le> psize \<Longrightarrow> unat (of_nat p :: u64) < 2 ^ 63"
proof -
  assume "p \<le> psize"
  moreover have "N * B \<le> (2 ^ 32 - 1) * 2 ^ 31" using N_lt B_le by (intro mult_le_mono) simp_all
  ultimately have "p < 2 ^ 63" using on_device by simp
  then show "unat (of_nat p :: u64) = p" "unat (of_nat p :: u64) < 2 ^ 63" by simp_all
qed

lemma seek_to: "p \<le> psize \<Longrightarrow> tegrabl_partition_seek (Some part) (of_nat p) 0 = (Inr (), Some (part\<lparr>part_offset := of_nat p\<rparr>))"
  using offset_word by (intro seek_set [OF handle(1,2)]) simp_all

lemma read_at:
  assumes "0 < l" "p + l \<le> psize"
  shows "part_read_at alloc part buf env p l m = (Inr (take l (drop p (part_bytes dev info (contents m)))), m)"
proof -
  have u: "unat (of_nat p :: u64) = p" "unat (of_nat l :: u64) = l" using assms offset_word(1) by simp_all
  then have "0 < (of_nat l :: u64)" using assms(1) by (simp add: word_less_nat_alt)
  then show ?thesis
    using partition_handle.read_ok [OF at_offset [of "of_nat p"], of "of_nat l" m] assms seek_to [of p] u
    by (simp add: part_read_at_def)
qed

lemma write_at:
  assumes "d \<noteq> []" "p + length d \<le> psize"
  shows "\<exists>m'. part_write_at alloc part buf env p d m = (Inr (), m') \<and>
    part_bytes dev info (contents m') = patch_at p d (part_bytes dev info (contents m)) \<and>
    take pbase (contents m') = take pbase (contents m) \<and> drop (pbase + psize) (contents m') = drop (pbase + psize) (contents m)"
proof -
  have u: "unat (of_nat p :: u64) = p" "unat (of_nat (length d) :: u64) = length d" using assms offset_word(1) by simp_all
  then have "0 < (of_nat (length d) :: u64)" using assms(1) by (simp add: word_less_nat_alt)
  then obtain m' where m': "tegrabl_partition_write alloc (Some (part\<lparr>part_offset := of_nat p\<rparr>)) buf d (of_nat (length d)) env m =
       Some (Inr (), Some (part\<lparr>part_offset := of_nat p + of_nat (length d)\<rparr>), m')" "contents m' = patch_at (pbase + p) d (contents m)"
    using partition_handle.write_ok [OF at_offset [of "of_nat p"], of "of_nat (length d)" d m] assms u by auto
  have le: "pbase + psize \<le> length (contents m)" using on_device by (simp add: contents_length)
  have "part_bytes dev info (contents m') = patch_at p d (part_bytes dev info (contents m))"
    unfolding m'(2) part_bytes_def by (rule slice_patch_at [OF assms(2) le])
  moreover have "take pbase (contents m') = take pbase (contents m)" "drop (pbase + psize) (contents m') = drop (pbase + psize) (contents m)"
    unfolding m'(2) using assms(2) le by (simp_all add: outside_patch_at)
  moreover have "part_write_at alloc part buf env p d m = (Inr (), m')"
    using m'(1) assms(2) seek_to [of p] by (simp add: part_write_at_def)
  ultimately show ?thesis by blast
qed

end

sublocale partition_handle \<subseteq> slice: byte_store
  "part_read_at alloc part buf env" "part_write_at alloc part buf env"
  "\<lambda>m. part_bytes dev info (contents m)" "unat (total_size info)"
proof unfold_locales
  fix m
  show "length (part_bytes dev info (contents m)) = psize"
    using on_device by (simp add: part_bytes_def contents_length)
next
  fix l p m
  assume "0 < l" "p + l \<le> psize"
  then show "part_read_at alloc part buf env p l m = (Inr (take l (drop p (part_bytes dev info (contents m)))), m)" by (rule read_at)
next
  fix d :: bytes and p m
  assume "d \<noteq> []" "p + length d \<le> psize"
  then show "\<exists>m'. part_write_at alloc part buf env p d m = (Inr (), m') \<and>
      part_bytes dev info (contents m') = patch_at p d (part_bytes dev info (contents m))"
    using write_at by blast
qed

context partition_handle
begin

lemmas part_read_back = slice.read_after_write and part_elsewhere = slice.write_elsewhere

end

lemma partition_handle_intro:
  assumes "driver_ok dev contents" "alloc_ok alloc dev" "buf \<noteq> 0" "unat buf + unat (dev_size dev) < 2 ^ 64"
    and "partition_info part = Some info" "part_bdev part \<noteq> 0" "part_device env part = Some dev" "part_range dev info"
  shows "partition_handle dev contents alloc buf env part info"
proof -
  have bd: "block_device dev contents alloc" using assms(1,2) by unfold_locales
  show ?thesis
    using bd assms(3-8) block_device.unat_dev_size [OF bd]
    by (simp add: partition_handle_def partition_handle_axioms_def block_client_def block_client_axioms_def)
qed


section \<open>Properties\<close>

text \<open>
  Reading from an open partition returns the bytes of the partition at the current position, which are the bytes of
  the medium behind its first sector, and moves the position behind them.
\<close>
theorem partition_read_exact:
  assumes "driver_ok dev contents" "alloc_ok alloc dev" "buf \<noteq> 0" "unat buf + unat (dev_size dev) < 2 ^ 64"
    and "partition_info part = Some info" "part_bdev part \<noteq> 0" "part_device env part = Some dev" "part_range dev info"
    and "0 < n" "unat (part_offset part) + unat n \<le> unat (total_size info)"
  shows "tegrabl_partition_read alloc (Some part) buf n env m =
    Some (Inr (take (unat n) (drop (unat (start_sector info) * 2 ^ block_size_log2 dev + unat (part_offset part)) (contents m))),
          Some (part\<lparr>part_offset := part_offset part + n\<rparr>), m)"
  using partition_handle.read_ok [OF partition_handle_intro [OF assms(1-8)] assms(9,10), of m] assms(10)
  by (simp add: part_bytes_def part_base_def drop_take min_absorb1 add.commute)

text \<open>
  (C4) A write through a partition handle stays within the partition: the addressed bytes of the partition change, every
  byte of the medium before and behind the partition is as before.
\<close>
theorem partition_write_isolated:
  assumes "driver_ok dev contents" "alloc_ok alloc dev" "buf \<noteq> 0" "unat buf + unat (dev_size dev) < 2 ^ 64"
    and "partition_info part = Some info" "part_bdev part \<noteq> 0" "part_device env part = Some dev" "part_range dev info"
    and "data \<noteq> []" "p + length data \<le> unat (total_size info)"
  shows "let base = unat (start_sector info) * 2 ^ block_size_log2 dev;
             (r, m') = part_write_at alloc part buf env p data m
         in r = Inr () \<and> part_bytes dev info (contents m') = patch_at p data (part_bytes dev info (contents m)) \<and>
            take base (contents m') = take base (contents m) \<and>
            drop (base + unat (total_size info)) (contents m') = drop (base + unat (total_size info)) (contents m)"
  using partition_handle.write_at [OF partition_handle_intro [OF assms(1-8)] assms(9,10), of m]
  by (auto simp: part_base_def)

text \<open>
  (C19) A partition is a byte store: what is written at a position is read back there, and reads of other positions are not
  affected.
\<close>
theorem partition_read_back:
  assumes "driver_ok dev contents" "alloc_ok alloc dev" "buf \<noteq> 0" "unat buf + unat (dev_size dev) < 2 ^ 64"
    and "partition_info part = Some info" "part_bdev part \<noteq> 0" "part_device env part = Some dev" "part_range dev info"
    and "data \<noteq> []" "p + length data \<le> unat (total_size info)"
    and "0 < l" "q + l \<le> unat (total_size info)" "q + l \<le> p \<or> p + length data \<le> q"
  shows "fst (bindE (part_write_at alloc part buf env p data m) (\<lambda>_. part_read_at alloc part buf env p (length data))) = Inr data \<and>
    fst (bindE (part_write_at alloc part buf env p data m) (\<lambda>_. part_read_at alloc part buf env q l)) = fst (part_read_at alloc part buf env q l m)"
  using partition_handle.part_read_back [OF partition_handle_intro [OF assms(1-8)] assms(9,10), of m]
    partition_handle.part_elsewhere [OF partition_handle_intro [OF assms(1-8)] assms(9-13), of m]
  by simp



text \<open>A client that seeks, reads and writes in any order; an operation that faults ends the run.\<close>

datatype handle_op = Seek u64 u32 | Read u64 u64 | Write u64 bytes u64

fun handle_step :: "(u64 \<Rightarrow> u64) \<Rightarrow> 'm partition_env \<Rightarrow> handle_op \<Rightarrow> tegrabl_partition option \<times> 'm \<Rightarrow> (tegrabl_partition option \<times> 'm) option" where
  "handle_step alloc env (Seek off origin) (part, m) = Some (snd (tegrabl_partition_seek part off origin), m)"
| "handle_step alloc env (Read buf n) (part, m) = map_option snd (tegrabl_partition_read alloc part buf n env m)"
| "handle_step alloc env (Write buf d n) (part, m) = map_option snd (tegrabl_partition_write alloc part buf d n env m)"

fun handle_run :: "(u64 \<Rightarrow> u64) \<Rightarrow> 'm partition_env \<Rightarrow> handle_op list \<Rightarrow> tegrabl_partition option \<times> 'm \<Rightarrow> (tegrabl_partition option \<times> 'm) option" where
  "handle_run alloc env [] s = Some s"
| "handle_run alloc env (x # xs) s = Option.bind (handle_step alloc env x s) (handle_run alloc env xs)"

definition within_partition :: "tegrabl_partition_info \<Rightarrow> tegrabl_partition option \<Rightarrow> bool" where
  "within_partition info part \<longleftrightarrow> (\<exists>p. part = Some p \<and> partition_info p = Some info \<and> part_offset p \<le> total_size info)"

lemma handle_step_within:
  assumes "within_partition info (fst s)" "handle_step alloc env x s = Some t"
  shows "within_partition info (fst t)"
proof -
  obtain p m where s: "s = (Some p, m)" "partition_info p = Some info" "part_offset p \<le> total_size info"
    using assms(1) by (cases s) (auto simp: within_partition_def)
  show ?thesis
  proof (cases x)
    case (Seek off origin)
    with assms(2) s show ?thesis
      by (auto simp: within_partition_def tegrabl_partition_seek_def Let_def not_less)
  next
    case (Read buf n)
    with assms(2) s show ?thesis
      by (auto simp: within_partition_def tegrabl_partition_read_def Let_def not_less add.commute
          split: option.splits if_splits sum.splits prod.splits)
  next
    case (Write buf d n)
    with assms(2) s show ?thesis
      by (auto simp: within_partition_def tegrabl_partition_write_def Let_def not_less add.commute
          split: option.splits if_splits prod.splits)
  qed
qed

lemma handle_run_within:
  "within_partition info (fst s) \<Longrightarrow> handle_run alloc env xs s = Some t \<Longrightarrow> within_partition info (fst t)"
proof (induction xs arbitrary: s)
  case (Cons x xs)
  then obtain u where "handle_step alloc env x s = Some u" "handle_run alloc env xs u = Some t"
    by (auto simp: bind_eq_Some_conv)
  with Cons show ?case using handle_step_within by blast
qed simp

text \<open>
  (C38) Whatever a client does with an open partition, in any order and with any arguments, its position never passes the
  end of the partition, and the handle stays on that partition.
\<close>
theorem partition_position_bounded:
  assumes "handle_run alloc env ops (Some (handle_on info h), m) = Some (part, m')"
  shows "\<exists>p. part = Some p \<and> partition_info p = Some info \<and> part_offset p \<le> total_size info"
proof -
  have "within_partition info (fst (Some (handle_on info h), m))" by (simp add: within_partition_def handle_on_def)
  from handle_run_within [OF this assms] show ?thesis by (simp add: within_partition_def)
qed


lemma driver_ok_published: "driver_ok (d\<lparr>published := b\<rparr>) contents = driver_ok d contents"
  by (simp add: driver_ok_def)

lemma alloc_ok_published: "alloc_ok alloc (d\<lparr>published := b\<rparr>) = alloc_ok alloc d"
  by (simp add: alloc_ok_def tegrabl_blockdev_buffer_aligned_def)

lemma info_in_range:
  assumes "first_lba e < last_lba e" "unat (last_lba e) < unat (block_count d)"
  shows "part_range d (gpt_partition_info d' e) \<longleftrightarrow> block_size_log2 d = block_size_log2 d' \<or>
      push_bit (block_size_log2 d') (last_lba e - first_lba e + 1) = push_bit (block_size_log2 d) (last_lba e - first_lba e + 1)"
    and "unat (num_sectors (gpt_partition_info d' e)) = unat (last_lba e) - unat (first_lba e) + 1"
proof -
  have s: "unat (last_lba e - first_lba e) = unat (last_lba e) - unat (first_lba e)"
    using assms(1) by (intro unat_sub) (simp add: less_imp_le)
  show n: "unat (num_sectors (gpt_partition_info d' e)) = unat (last_lba e) - unat (first_lba e) + 1"
    using assms(2) unsigned_less [of "block_count d", where 'a = nat]
    by (simp add: gpt_partition_info_def) (subst unat_add_lem [THEN iffD1]; simp add: s)
  show "part_range d (gpt_partition_info d' e) \<longleftrightarrow> block_size_log2 d = block_size_log2 d' \<or>
      push_bit (block_size_log2 d') (last_lba e - first_lba e + 1) = push_bit (block_size_log2 d) (last_lba e - first_lba e + 1)"
    using assms n by (auto simp: part_range_def gpt_partition_info_def word_less_nat_alt)
qed

lemma publish_device:
  assumes "h \<noteq> 0" "devices (blockdevs env) h = Some dev" "\<not> published dev" "storage_list env = Some sl" "\<And>n. malloc_ok n"
    and "tegrabl_gpt_publish alloc malloc_ok (Some dev) offset m = (Inr ps, m)"
  shows "tegrabl_partition_publish alloc malloc_ok h offset env m =
    Some (Inr (), set_published h True (env\<lparr>storage_list := Some (\<lparr>si_bdev = h, si_partitions = ps\<rparr> # sl)\<rparr>), m)"
  using assms by (simp add: tegrabl_partition_publish_def publish_partition_def)

text \<open>
  (C3) From table to data: publishing a device with a sound table and opening one of its names yields a handle whose reads
  return the sectors that the entry of the table names.
\<close>
theorem publish_open_read:
  assumes "driver_ok dev contents" "gpt_heap_ok alloc dev" "\<And>n. malloc_ok n"
    and "9 \<le> block_size_log2 dev" "block_size_log2 dev \<le> 14" "1 < block_count dev"
    and "h \<noteq> 0" "devices (blockdevs env) h = Some dev" "\<not> published dev" "storage_list env = Some sl"
    and "gpt_sound_copy dev (contents m) 1 es"
    and "find (\<lambda>p. match_partition_name (part_name p) name) (map (gpt_partition_info dev) (filter (\<lambda>e. first_lba e < last_lba e) es)) =
      Some (gpt_partition_info dev e)"
    and "first_lba e < last_lba e" "unat (last_lba e) < unat (block_count dev)"
    and "buf \<noteq> 0" "unat buf + unat (dev_size dev) < 2 ^ 64" "0 < n" "unat n \<le> unat (total_size (gpt_partition_info dev e))"
  shows "\<exists>env1 part. tegrabl_partition_publish alloc malloc_ok h 0 env m = Some (Inr (), env1, m) \<and>
    tegrabl_partition_open (Some name) (Some zero_partition) env1 = (Inr (), Some part) \<and>
    tegrabl_partition_read alloc (Some part) buf n env1 m =
      Some (Inr (take (unat n) (drop (unat (first_lba e) * 2 ^ block_size_log2 dev) (contents m))), Some (part\<lparr>part_offset := n\<rparr>), m)"
proof -
  let ?info = "gpt_partition_info dev e"
  let ?ps = "map (gpt_partition_info dev) (filter (\<lambda>e. first_lba e < last_lba e) es)"
  let ?env1 = "set_published h True (env\<lparr>storage_list := Some (\<lparr>si_bdev = h, si_partitions = ?ps\<rparr> # sl)\<rparr>)"
  let ?d = "dev\<lparr>published := True\<rparr>"
  note gd = gpt_device_intro [OF assms(1,2,4,5)]
  have "tegrabl_gpt_publish alloc malloc_ok (Some dev) 0 m = (Inr ?ps, m)"
    using gpt_device.publish_primary [OF gd assms(11) _ assms(3)] assms(6) by (simp add: used_entry_def [abs_def] word_less_nat_alt)
  then have pub: "tegrabl_partition_publish alloc malloc_ok h 0 env m = Some (Inr (), ?env1, m)"
    by (rule publish_device [OF assms(7-10,3)])
  have op: "tegrabl_partition_open (Some name) (Some zero_partition) ?env1 = (Inr (), Some (handle_on ?info h))"
    using assms(12) by (simp add: tegrabl_partition_open_def set_published_def)
  have dev: "part_device ?env1 (handle_on ?info h) = Some ?d"
    using assms(8) by (simp add: part_device_def handle_on_def set_published_def)
  have "alloc_ok alloc dev" using assms(2) by (auto simp: alloc_ok_def gpt_heap_ok_def)
  then have ph: "partition_handle ?d contents alloc buf ?env1 (handle_on ?info h) ?info"
    using assms(1,7,15,16) dev info_in_range(1) [OF assms(13), of ?d dev] assms(14)
    by (intro partition_handle_intro) (simp_all add: driver_ok_published alloc_ok_published handle_on_def)
  have "tegrabl_partition_read alloc (Some (handle_on ?info h)) buf n ?env1 m =
      Some (Inr (take (unat n) (drop (unat (first_lba e) * 2 ^ block_size_log2 dev) (contents m))), Some ((handle_on ?info h)\<lparr>part_offset := n\<rparr>), m)"
    using partition_handle.read_ok [OF ph assms(17), of m] assms(18)
    by (simp add: part_bytes_def part_base_def handle_on_def min_absorb1 gpt_partition_info_def [of dev e])
  with pub op show ?thesis by blast
qed

text \<open>The devices after the current one, and that the loops of the manager visit them all.\<close>

lemma list_next_append: "distinct (xs @ x # ys) \<Longrightarrow> list_next (xs @ x # ys) x = (case ys of [] \<Rightarrow> None | y # _ \<Rightarrow> Some y)"
  by (induction xs x rule: list_next.induct) (auto split: list.splits)


text \<open>The published flag of a device and the list of storage devices agree.\<close>

definition storage_consistent :: "'m partition_env \<Rightarrow> bool" where
  "storage_consistent env \<longleftrightarrow> (\<exists>sl. storage_list env = Some sl \<and> distinct (map si_bdev sl) \<and>
     (\<forall>h d. devices (blockdevs env) h = Some d \<longrightarrow> (published d \<longleftrightarrow> h \<in> si_bdev ` set sl)) \<and>
     (\<forall>h \<in> si_bdev ` set sl. devices (blockdevs env) h \<noteq> None))"

definition same_devices :: "'m partition_env \<Rightarrow> 'm partition_env \<Rightarrow> bool" where
  "same_devices env env1 \<longleftrightarrow> bdevs (blockdevs env1) = bdevs (blockdevs env) \<and>
     dom (devices (blockdevs env1)) = dom (devices (blockdevs env))"

lemma set_published_same: "same_devices env (set_published h b env)"
  by (auto simp: same_devices_def set_published_def)

lemma set_published_consistent:
  assumes "storage_consistent env" "devices (blockdevs env) h = Some d" "published d = b"
  shows "storage_consistent (set_published h b env)"
proof -
  have "d\<lparr>published := b\<rparr> = d" using assms(3) by simp
  with assms(2) have "(devices (blockdevs env))(h := map_option (published_update (\<lambda>_. b)) (devices (blockdevs env) h)) = devices (blockdevs env)"
    by auto
  with assms(1) show ?thesis unfolding storage_consistent_def set_published_def by simp
qed

lemma publish_consistent:
  assumes "storage_consistent env" "h \<noteq> 0" "devices (blockdevs env) h = Some d"
  shows "\<exists>r env1 m1. tegrabl_partition_publish alloc malloc_ok h offset env m = Some (r, env1, m1) \<and>
    storage_consistent env1 \<and> same_devices env env1"
proof (cases "published d")
  case True
  with assms show ?thesis by (simp add: tegrabl_partition_publish_def same_devices_def)
next
  case False
  from assms(1) obtain sl where c: "storage_list env = Some sl" "distinct (map si_bdev sl)"
      "\<forall>h d. devices (blockdevs env) h = Some d \<longrightarrow> (published d \<longleftrightarrow> h \<in> si_bdev ` set sl)"
      "\<forall>h \<in> si_bdev ` set sl. devices (blockdevs env) h \<noteq> None"
    unfolding storage_consistent_def by (elim exE conjE)
  note sl = c(1,2) c(3) [rule_format] c(4) [rule_format]
  obtain r m1 where t: "try_publishers (publish_partition alloc malloc_ok) d offset m = (r, m1)" by (cases "try_publishers (publish_partition alloc malloc_ok) d offset m")
  show ?thesis
  proof (cases r)
    case None
    then show ?thesis
      using assms False t set_published_consistent [OF assms(1,3)] set_published_same [of env h False]
      by (simp add: tegrabl_partition_publish_def)
  next
    case (Some ps)
    let ?env = "set_published h True (env\<lparr>storage_list := Some (\<lparr>si_bdev = h, si_partitions = ps\<rparr> # sl)\<rparr>)"
    have new: "h \<notin> si_bdev ` set sl" using sl(3) [OF assms(3)] False by simp
    have devs: "devices (blockdevs ?env) = (devices (blockdevs env))(h \<mapsto> d\<lparr>published := True\<rparr>)"
      and list: "storage_list ?env = Some (\<lparr>si_bdev = h, si_partitions = ps\<rparr> # sl)"
      using assms(3) by (simp_all add: set_published_def)
    have "storage_consistent ?env"
      unfolding storage_consistent_def list devs using sl(2-4) new by (intro exI [of _ "\<lparr>si_bdev = h, si_partitions = ps\<rparr> # sl"]) simp
    moreover have "same_devices env ?env" using assms(3) by (auto simp: same_devices_def set_published_def)
    moreover have "same_devices env env" by (simp add: same_devices_def)
    ultimately show ?thesis
      using assms False t Some sl(1) by (cases "malloc_ok 40") (simp_all add: tegrabl_partition_publish_def)
  qed
qed

lemma next_device_in:
  assumes "bdevs b = Some hs" "hs = xs @ ys" "distinct hs" "set hs \<subseteq> dom (devices b)"
    and "cur = (if xs = [] then None else Some (last xs))"
  shows "tegrabl_blockdev_next_device cur b = Some (case ys of [] \<Rightarrow> None | y # _ \<Rightarrow> Some y)"
proof (cases xs rule: rev_cases)
  case Nil
  with assms show ?thesis by (simp add: tegrabl_blockdev_next_device_def)
next
  case (snoc zs z)
  then have "list_next hs z = (case ys of [] \<Rightarrow> None | y # _ \<Rightarrow> Some y)"
    using list_next_append [of zs z ys] assms(2,3) by simp
  moreover have "devices b z \<noteq> None" using assms(2,4) snoc by auto
  ultimately show ?thesis using assms snoc by (simp add: tegrabl_blockdev_next_device_def)
qed

lemma publish_devices_total:
  assumes "storage_consistent env" "bdevs (blockdevs env) = Some hs" "hs = xs @ ys" "distinct hs"
    and "set hs \<subseteq> dom (devices (blockdevs env))" "0 \<notin> set hs" "cur = (if xs = [] then None else Some (last xs))" "length ys < n"
  shows "\<exists>env1 m1. publish_devices n alloc malloc_ok cur env m = Some (env1, m1) \<and> storage_consistent env1 \<and> same_devices env env1"
  using assms
proof (induction n arbitrary: env xs ys cur m)
  case (Suc n)
  note nxt = next_device_in [OF Suc.prems(2-5,7)]
  show ?case
  proof (cases ys)
    case Nil
    with nxt Suc.prems(1) show ?thesis by (simp add: same_devices_def)
  next
    case (Cons y zs)
    then have y: "y \<in> set hs" using Suc.prems(3) by simp
    then obtain d where d: "devices (blockdevs env) y = Some d" using Suc.prems(5) by auto
    obtain r env1 m1 where p: "tegrabl_partition_publish alloc malloc_ok y 0 env m = Some (r, env1, m1)"
        "storage_consistent env1" "same_devices env env1"
      using publish_consistent [OF Suc.prems(1) _ d] y Suc.prems(6) by metis
    have rec: "\<exists>env2 m2. publish_devices n alloc malloc_ok (Some y) e m' = Some (env2, m2) \<and> storage_consistent env2 \<and> same_devices e env2"
      if "storage_consistent e" "same_devices env e" for e m'
      by (rule Suc.IH [where xs = "xs @ [y]" and ys = zs]) (use that Suc.prems Cons in \<open>auto simp: same_devices_def\<close>)
    show ?thesis
      using rec [OF p(2,3), of m1] rec [OF Suc.prems(1), of m] p(1,3) nxt Cons
      by (auto simp: same_devices_def)
  qed
qed simp



section \<open>The partition of the demo disk\<close>

definition demo_part_env :: "bytes sata_state partition_env" where
  "demo_part_env = \<lparr>blockdevs = \<lparr>bdevs = Some [1], devices = [1 \<mapsto> gpt_demo_dev], xfer_id = 0\<rparr>, storage_list = Some []\<rparr>"

abbreviation demo_info :: tegrabl_partition_info where
  "demo_info \<equiv> gpt_partition_info gpt_demo_dev demo_entry"

abbreviation demo_medium :: "bytes sata_state" where
  "demo_medium \<equiv> \<lparr>init_done = True, disk = demo_image (encode_header demo_header)\<rparr>"

lemma demo_info_range: "start_sector demo_info = 34" "total_size demo_info = 1024" "part_range gpt_demo_dev demo_info"
  by (simp_all add: gpt_partition_info_def demo_entry_def part_range_def demo_geometry push_bit_eq_mult)

lemma gpt_demo_size: "dev_size gpt_demo_dev = 18944" "published gpt_demo_dev = False"
  by (simp_all add: gpt_demo_dev_def sata_user_dev_def sata_fill_hooks_def zero_bdev_def demo_ctx_def push_bit_eq_mult)

lemma demo_alloc: "alloc_ok (\<lambda>_. 0x1000) gpt_demo_dev"
  using demo_heap by (simp add: alloc_ok_def gpt_heap_ok_def)

lemma demo_handle:
  "partition_info (handle_on demo_info 1) = Some demo_info" "part_bdev (handle_on demo_info 1) \<noteq> 0"
  "part_offset (handle_on demo_info 1) = 0" "part_device demo_part_env (handle_on demo_info 1) = Some gpt_demo_dev"
  by (simp_all add: handle_on_def part_device_def demo_part_env_def)

lemma demo_data: "take 512 (drop 17408 (demo_sectors 37 (disk demo_medium))) = replicate 512 7"
  using length_table [OF demo_wf(1)] length_encode_header [OF demo_wf(3)]
  by (simp add: demo_image_contents) (simp add: demo_image_def demo_wf)

interpretation demo_part: partition_handle gpt_demo_dev "demo_sectors 37 \<circ> disk" "\<lambda>_. 0x1000" "0x2000" demo_part_env
  "handle_on demo_info 1" demo_info
  by (rule partition_handle_intro) (simp_all add: demo_driver demo_alloc gpt_demo_size demo_handle demo_info_range)

theorem partition_read_exact_witness:
  "tegrabl_partition_read (\<lambda>_. 0x1000) (Some (handle_on demo_info 1)) 0x2000 512 demo_part_env demo_medium =
     Some (Inr (replicate 512 7), Some ((handle_on demo_info 1)\<lparr>part_offset := 512\<rparr>), demo_medium)"
  using partition_read_exact [OF demo_driver demo_alloc, of "0x2000" "handle_on demo_info 1" demo_info demo_part_env 512 demo_medium]
    demo_data
  by (simp add: gpt_demo_size demo_handle demo_info_range demo_geometry)

theorem partition_write_isolated_witness:
  "let (r, m') = part_write_at (\<lambda>_. 0x1000) (handle_on demo_info 1) 0x2000 demo_part_env 100 [1, 2, 3] demo_medium
   in r = Inr () \<and> take 17408 (demo_sectors 37 (disk m')) = take 17408 (demo_sectors 37 (disk demo_medium))"
  using partition_write_isolated [OF demo_driver demo_alloc, of "0x2000" "handle_on demo_info 1" demo_info demo_part_env "[1, 2, 3]" 100 demo_medium]
  by (simp add: gpt_demo_size demo_handle demo_info_range demo_geometry Let_def split: prod.splits)

theorem partition_read_back_witness:
  "fst (bindE (part_write_at (\<lambda>_. 0x1000) (handle_on demo_info 1) 0x2000 demo_part_env 100 [1, 2, 3] demo_medium)
     (\<lambda>_. part_read_at (\<lambda>_. 0x1000) (handle_on demo_info 1) 0x2000 demo_part_env 100 3)) = Inr [1, 2, 3]"
  using partition_read_back [OF demo_driver demo_alloc, of "0x2000" "handle_on demo_info 1" demo_info demo_part_env "[1, 2, 3]" 100 50 0 demo_medium]
  by (simp add: gpt_demo_size demo_handle demo_info_range numeral_3_eq_3)


theorem partition_position_bounded_witness:
  "\<exists>p. snd (tegrabl_partition_seek (Some (handle_on demo_info 1)) 1024 0) = Some p \<and> partition_info p = Some demo_info \<and>
     part_offset p \<le> total_size demo_info"
  using partition_position_bounded [of "\<lambda>_. 0x1000" demo_part_env "[Seek 1024 0]" demo_info 1 demo_medium] by simp

theorem publish_open_read_witness:
  "\<exists>env1 part. tegrabl_partition_publish (\<lambda>_. 0x1000) (\<lambda>_. True) 1 0 demo_part_env demo_medium = Some (Inr (), env1, demo_medium) \<and>
     tegrabl_partition_open (Some ''APP'') (Some zero_partition) env1 = (Inr (), Some part) \<and>
     tegrabl_partition_read (\<lambda>_. 0x1000) (Some part) 0x2000 512 env1 demo_medium =
       Some (Inr (replicate 512 7), Some (part\<lparr>part_offset := 512\<rparr>), demo_medium)"
proof -
  have name: "match_partition_name (part_name demo_info) ''APP''"
    by (simp only: gpt_partition_info_def demo_entry_def tegrabl_partition_info.simps tegrabl_gpt_entry.simps) code_simp
  have "gpt_sound_copy gpt_demo_dev ((demo_sectors 37 \<circ> disk) demo_medium) 1 demo_table"
    using demo_copies(1) length_encode_header [OF demo_wf(3)] by (simp add: demo_image_contents)
  then show ?thesis
    using publish_open_read [OF demo_driver demo_heap, of "\<lambda>_. True" 1 demo_part_env "[]" demo_medium demo_table "''APP''" demo_entry "0x2000" 512]
      name demo_data
    by (simp add: demo_geometry gpt_demo_size demo_used demo_info_range) (simp add: demo_part_env_def demo_entry_def)
qed


end
