(* ===== verification/Cboot_Redundancy.thy ===== *)
theory Cboot_Redundancy
  imports Cboot_Slots
begin

text \<open>
  The redundancy policy of \<^verbatim>\<open>tegrabl_a_b_boot_control.c\<close> as a state machine over boot attempts: the priority
  rotation of \<open>rotate_slots_priority\<close> refines a policy on pairs of numbers, a failed boot costs no retry, each
  boot chain gets two tries in turn, and none is starved.
\<close>

section \<open>The two-tries policy\<close>

text \<open>
  With redundancy for the payload, each boot that reaches the bootloader gives its retry back and rotates the
  priorities; if the payload then fails, the next boot selects again. \<open>boot_attempt\<close> composes one such round:
  selection, the retry decrement and the register of the first stage, then the redundancy check and the write
  back of the retry counts (the sequence of \<^verbatim>\<open>tegrabl_a_b_update_smd\<close>, lines 952 to 981).
\<close>

definition selected_slot :: "slot_meta_data \<Rightarrow> u32" where
  "selected_slot smd = the (snd (tegrabl_a_b_get_active_slot 0 (Some smd)))"

definition boot_attempt :: "slot_meta_data \<Rightarrow> slot_meta_data" where
  "boot_attempt smd =
     (let slot = selected_slot smd;
          smd1 = snd (tegrabl_a_b_check_and_update_retry_count smd slot);
          reg = tegrabl_a_b_save_boot_slot_reg smd1 slot (BOOT_CHAIN_REG_MAGIC_SET 0)
      in case check_redundancy_status reg smd1 reg of (e, upd, sr, smd2) \<Rightarrow>
           fst (tegrabl_a_b_copy_retry_count smd2 sr FROM_REG_TO_SMD))"

definition slot_in_range :: "boot_slot_info \<Rightarrow> bool" where
  "slot_in_range s \<longleftrightarrow> 1 \<le> unat (priority s) \<and> unat (priority s) \<le> 15 \<and>
     1 \<le> unat (retry_count s) \<and> unat (retry_count s) \<le> 15"

definition smd_ok :: "slot_meta_data \<Rightarrow> bool" where
  "smd_ok smd \<longleftrightarrow> magic smd = BOOT_CHAIN_MAGIC \<and> num_slots smd = 2 \<and>
     BOOTCTRL_SUPPORT_REDUNDANCY (version smd) \<and> BOOTCTRL_SUPPORT_REDUNDANCY_USER (version smd) \<and>
     slot_in_range (slot_info smd 0) \<and> slot_in_range (slot_info smd 1)"

text \<open>The policy on plain numbers: the priorities of slot A and slot B.\<close>

definition pick :: "nat \<times> nat \<Rightarrow> nat" where
  "pick = (\<lambda>(a, b). if b \<le> a then 0 else 1)"

definition rotate_policy :: "nat \<times> nat \<Rightarrow> nat \<times> nat" where
  "rotate_policy = (\<lambda>(a, b).
     if b \<le> a then (if b < a then (a - 1, b) else if b < 15 then (a, b + 1) else (14, b))
     else if b = a + 1 then (if 1 < a then (a - 1, b) else (a, b + 1))
     else (15, 14))"

definition priorities :: "slot_meta_data \<Rightarrow> nat \<times> nat" where
  "priorities smd = (unat (priority (slot_info smd 0)), unat (priority (slot_info smd 1)))"

definition with_priorities :: "slot_meta_data \<Rightarrow> nat \<times> nat \<Rightarrow> slot_meta_data" where
  "with_priorities smd = (\<lambda>(a, b).
     update_slot 1 (\<lambda>s. s\<lparr>priority := of_nat b\<rparr>) (update_slot 0 (\<lambda>s. s\<lparr>priority := of_nat a\<rparr>) smd))"

lemma u8_nonzero: "1 \<le> unat (x :: u8) \<Longrightarrow> x \<noteq> 0"
  by auto

lemma smd_okD:
  assumes "smd_ok smd"
  shows "magic smd = BOOT_CHAIN_MAGIC" "num_slots smd = 2" "bootable (slot_info smd 0)" "bootable (slot_info smd 1)"
    "BOOTCTRL_SUPPORT_REDUNDANCY (version smd)" "BOOTCTRL_SUPPORT_REDUNDANCY_USER (version smd)"
  using assms by (auto simp: smd_ok_def slot_in_range_def bootable_def)

lemma selected_slot_pick:
  assumes "smd_ok smd"
  shows "selected_slot smd = of_nat (pick (priorities smd))"
    and "tegrabl_a_b_get_active_slot reg (Some smd) = (TEGRABL_NO_ERROR, Some (selected_slot smd))"
  using smd_okD [OF assms]
  by (simp_all add: selected_slot_def active_slot_two pick_def priorities_def word_le_nat_alt Let_def)

text \<open>The retry count of the current slot survives: decremented, carried by the register, restored.\<close>

lemma unat_low_nibble: "unat (ucast ((ucast (r :: u8) :: u32) AND 0x0F) :: u8) = unat r mod 16"
  by (simp add: unsigned_ucast_eq unat_and_mask32 take_bit_eq_mod mod_mod_cancel)

lemma retry_keep: "unat (r :: u8) \<le> 15 \<Longrightarrow> (ucast ((ucast r :: u32) AND 0x0F) :: u8) = r"
  by (simp add: word_unat_eq_iff unat_low_nibble)

lemma retry_roundtrip:
  assumes "1 \<le> unat (r :: u8)" "unat r \<le> 15"
  shows "(ucast ((ucast ((ucast ((ucast (r - 1) :: u32) AND 0x0F) :: u8) + 1) :: u32) AND 0x0F) :: u8) = r"
proof -
  have "unat (r - 1) \<le> 15" using assms by (subst unat_sub) (simp_all add: word_le_nat_alt)
  then show ?thesis using assms(2) by (simp add: retry_keep)
qed

lemma put_priority_eq:
  "put_priority smd 0 p = update_slot 0 (\<lambda>s. s\<lparr>priority := p\<rparr>) smd"
  "put_priority smd 1 p = update_slot 1 (\<lambda>s. s\<lparr>priority := p\<rparr>) smd"
  by (simp_all add: put_priority_def tegrabl_a_b_set_priority_def set_slot_field_def word_le_nat_alt)

lemma rotate_slots_priority_cases:
  "rotate_slots_priority smd 0 p q =
     (if q < p then update_slot 0 (\<lambda>s. s\<lparr>priority := p - 1\<rparr>) smd
      else if q < 15 then update_slot 1 (\<lambda>s. s\<lparr>priority := q + 1\<rparr>) smd
      else update_slot 0 (\<lambda>s. s\<lparr>priority := q - 1\<rparr>) smd)"
  "rotate_slots_priority smd 1 p q =
     (if unat p = unat q + 1
      then if 1 < q then update_slot 0 (\<lambda>s. s\<lparr>priority := q - 1\<rparr>) smd
           else update_slot 1 (\<lambda>s. s\<lparr>priority := p + 1\<rparr>) smd
      else with_priorities smd (15, 14))"
  by (simp_all add: rotate_slots_priority_def put_priority_eq with_priorities_def del: One_nat_def)

lemma with_priorities_one:
  "with_priorities smd (x, unat (priority (slot_info smd 1))) = update_slot 0 (\<lambda>s. s\<lparr>priority := of_nat x\<rparr>) smd"
  "with_priorities smd (unat (priority (slot_info smd 0)), y) = update_slot 1 (\<lambda>s. s\<lparr>priority := of_nat y\<rparr>) smd"
  by (simp_all add: with_priorities_def fun_upd_twist)

lemma rotate_slots_priority_rotate:
  fixes smd :: slot_meta_data
  defines "a \<equiv> priority (slot_info smd 0)" and "b \<equiv> priority (slot_info smd 1)"
  assumes r: "1 \<le> unat a" "unat a \<le> 15" "1 \<le> unat b" "unat b \<le> 15"
  shows "b \<le> a \<Longrightarrow> rotate_slots_priority smd 0 a b = with_priorities smd (rotate_policy (unat a, unat b))"
    and "\<not> b \<le> a \<Longrightarrow> rotate_slots_priority smd 1 b a = with_priorities smd (rotate_policy (unat a, unat b))"
proof -
  have m: "of_nat (unat x - 1) = x - 1" if "1 \<le> unat x" for x :: u8
    using that by (simp add: of_nat_diff)
  have one: "with_priorities smd (x, unat b) = update_slot 0 (\<lambda>s. s\<lparr>priority := of_nat x\<rparr>) smd"
    "with_priorities smd (unat a, y) = update_slot 1 (\<lambda>s. s\<lparr>priority := of_nat y\<rparr>) smd" for x y
    by (simp_all only: a_def b_def with_priorities_one)
  show "rotate_slots_priority smd 0 a b = with_priorities smd (rotate_policy (unat a, unat b))" if le: "b \<le> a"
  proof -
    have le': "unat b \<le> unat a" using le by (simp add: word_le_nat_alt)
    consider "unat b < unat a" | "unat b = unat a" "unat b < 15" | "unat b = unat a" "unat b = 15"
      using le' r by linarith
    then show ?thesis
    proof cases
      case 2
      then have "b = a" by (simp add: word_unat_eq_iff)
      with 2 one(2) [of "unat a + 1"] show ?thesis
        by (simp add: rotate_slots_priority_cases rotate_policy_def word_less_nat_alt del: One_nat_def)
    next
      case 3
      then have "b - 1 = 14" by (simp add: word_unat_eq_iff unat_sub word_le_nat_alt)
      moreover have "with_priorities smd (14, 15) = update_slot 0 (\<lambda>s. s\<lparr>priority := 14\<rparr>) smd"
        using one(1) [of 14] unfolding 3(2) by simp
      ultimately show ?thesis
        using 3 by (simp add: rotate_slots_priority_cases rotate_policy_def word_less_nat_alt del: One_nat_def)
    qed (simp_all add: rotate_slots_priority_cases rotate_policy_def word_less_nat_alt one m r del: One_nat_def)
  qed
  show "rotate_slots_priority smd 1 b a = with_priorities smd (rotate_policy (unat a, unat b))" if gt: "\<not> b \<le> a"
  proof -
    have gt': "unat a < unat b" using gt by (simp add: word_le_nat_alt)
    consider "unat b = unat a + 1" "1 < unat a" | "unat b = 2" "unat a = 1" | "unat b > unat a + 1"
      using gt' r by linarith
    then show ?thesis
    proof cases
      case 1
      have "with_priorities smd (unat a - 1, unat a + 1) = update_slot 0 (\<lambda>s. s\<lparr>priority := a - 1\<rparr>) smd"
        using one(1) [of "unat a - 1"] unfolding 1(1) m [OF r(1)] by simp
      with 1 show ?thesis
        by (simp add: rotate_slots_priority_cases rotate_policy_def word_less_nat_alt del: One_nat_def)
    next
      case 2
      have "b + 1 = 3" using 2 by (simp add: word_unat_eq_iff unat_word_ariths)
      moreover have "with_priorities smd (1, 3) = update_slot 1 (\<lambda>s. s\<lparr>priority := 3\<rparr>) smd"
        using one(2) [of 3] unfolding 2(2) by simp
      ultimately show ?thesis
        using 2 by (simp add: rotate_slots_priority_cases rotate_policy_def word_less_nat_alt del: One_nat_def)
    next
      case 3
      then show ?thesis
        by (simp add: rotate_slots_priority_cases rotate_policy_def del: One_nat_def)
    qed
  qed
qed


lemma reg_retry_B_A [field_simps_c]:
  "tegrabl_a_b_get_retry_count_reg 0 reg = ucast (BOOT_CHAIN_REG_A_RETRY_COUNT_GET reg)"
  "tegrabl_a_b_get_retry_count_reg 1 reg = ucast (BOOT_CHAIN_REG_B_RETRY_COUNT_GET reg)"
  "tegrabl_a_b_set_retry_count_reg 0 rc reg = BOOT_CHAIN_REG_A_RETRY_COUNT_SET rc reg"
  "tegrabl_a_b_set_retry_count_reg 1 rc reg = BOOT_CHAIN_REG_B_RETRY_COUNT_SET rc reg"
  by (simp_all add: tegrabl_a_b_get_retry_count_reg_def tegrabl_a_b_set_retry_count_reg_def)

lemma get_priority_two [simp]:
  "tegrabl_a_b_get_priority (Some smd) 0 = (TEGRABL_NO_ERROR, Some (priority (slot_info smd 0)))"
  "tegrabl_a_b_get_priority (Some smd) 1 = (TEGRABL_NO_ERROR, Some (priority (slot_info smd 1)))"
  by (simp_all add: tegrabl_a_b_get_priority_def slot_field_def word_le_nat_alt)

text \<open>The user redundancy check in the first stage's register, for either current slot.\<close>

lemma check_user_A:
  assumes "reg = tegrabl_a_b_save_boot_slot_reg smd1 0 (BOOT_CHAIN_REG_MAGIC_SET 0)"
    and "bootable (slot_info smd1 1)" "unat (retry_count (slot_info smd1 1)) \<le> 15" "priority (slot_info smd1 0) \<noteq> 0"
  shows "\<exists>sr. check_user_redundancy_status reg smd1 reg =
     (TEGRABL_NO_ERROR, True, sr,
      rotate_slots_priority smd1 0 (priority (slot_info smd1 0)) (priority (slot_info smd1 1))) \<and>
     (ucast (BOOT_CHAIN_REG_A_RETRY_COUNT_GET sr) :: u8) =
        ucast ((ucast ((ucast ((ucast (retry_count (slot_info smd1 0)) :: u32) AND 0x0F) :: u8) + 1) :: u32) AND 0x0F) \<and>
     (ucast (BOOT_CHAIN_REG_B_RETRY_COUNT_GET sr) :: u8) = retry_count (slot_info smd1 1)"
  using assms
  by (simp add: check_user_redundancy_status_def field_simps_c Let_def retry_keep bootable_def del: One_nat_def)

lemma check_user_B:
  assumes "reg = tegrabl_a_b_save_boot_slot_reg smd1 1 (BOOT_CHAIN_REG_MAGIC_SET 0)"
    and "bootable (slot_info smd1 0)" "unat (retry_count (slot_info smd1 0)) \<le> 15" "priority (slot_info smd1 1) \<noteq> 0"
  shows "\<exists>sr. check_user_redundancy_status reg smd1 reg =
     (TEGRABL_NO_ERROR, True, sr,
      rotate_slots_priority smd1 1 (priority (slot_info smd1 1)) (priority (slot_info smd1 0))) \<and>
     (ucast (BOOT_CHAIN_REG_B_RETRY_COUNT_GET sr) :: u8) =
        ucast ((ucast ((ucast ((ucast (retry_count (slot_info smd1 1)) :: u32) AND 0x0F) :: u8) + 1) :: u32) AND 0x0F) \<and>
     (ucast (BOOT_CHAIN_REG_A_RETRY_COUNT_GET sr) :: u8) = retry_count (slot_info smd1 0)"
  using assms
  by (simp add: check_user_redundancy_status_def field_simps_c Let_def retry_keep bootable_def del: One_nat_def)

lemma with_priorities_upd_retry:
  "slot_info (with_priorities smd (x, y)) =
     (slot_info smd)(0 := (slot_info smd 0)\<lparr>priority := of_nat x\<rparr>, 1 := (slot_info smd 1)\<lparr>priority := of_nat y\<rparr>)"
  "magic (with_priorities smd (x, y)) = magic smd" "version (with_priorities smd (x, y)) = version smd"
  "num_slots (with_priorities smd (x, y)) = num_slots smd"
  by (simp_all add: with_priorities_def)

lemma copy_back:
  assumes "(ucast (BOOT_CHAIN_REG_A_RETRY_COUNT_GET sr) :: u8) = retry_count (slot_info smd 0)"
    and "(ucast (BOOT_CHAIN_REG_B_RETRY_COUNT_GET sr) :: u8) = retry_count (slot_info smd 1)"
    and "smd1 = update_slot i (\<lambda>s. s\<lparr>retry_count := r\<rparr>) smd" "i < 2"
  shows "fst (tegrabl_a_b_copy_retry_count (with_priorities smd1 p) sr FROM_REG_TO_SMD) = with_priorities smd p"
proof -
  have "i = 0 \<or> i = 1" using assms(4) by auto
  then show ?thesis
    using assms(1-3)
    by (cases p) (auto simp: tegrabl_a_b_copy_retry_count_def with_priorities_def Let_def fun_upd_twist simp del: One_nat_def)
qed

definition first_stage_reg :: "slot_meta_data \<Rightarrow> u32 \<Rightarrow> u32" where
  "first_stage_reg smd slot = tegrabl_a_b_save_boot_slot_reg smd slot (BOOT_CHAIN_REG_MAGIC_SET 0)"

lemma boot_attempt_A:
  assumes "smd_ok smd" "priority (slot_info smd 1) \<le> priority (slot_info smd 0)"
  shows "boot_attempt smd = with_priorities smd (rotate_policy (priorities smd))"
proof -
  note ok = smd_okD [OF assms(1)]
  have range: "slot_in_range (slot_info smd 0)" "slot_in_range (slot_info smd 1)"
    using assms(1) by (simp_all add: smd_ok_def)
  define smd1 where "smd1 = (\<lambda>i. update_slot i (\<lambda>s. s\<lparr>retry_count := retry_count s - 1\<rparr>) smd)"
  have upd: "snd (tegrabl_a_b_check_and_update_retry_count smd slot) = smd1 (unat slot)" for slot
    using ok by (simp add: tegrabl_a_b_check_and_update_retry_count_def smd1_def)
  have p: "priorities smd = (unat (priority (slot_info smd 0)), unat (priority (slot_info smd 1)))"
    by (simp add: priorities_def)
  have sel: "selected_slot smd = 0"
    using selected_slot_pick(1) [OF assms(1)] assms(2) by (simp add: pick_def p word_le_nat_alt)
  have f: "slot_info (smd1 0) 1 = slot_info smd 1" "priority (slot_info (smd1 0) 0) = priority (slot_info smd 0)"
    "retry_count (slot_info (smd1 0) 0) = retry_count (slot_info smd 0) - 1" "version (smd1 0) = version smd"
    by (simp_all add: smd1_def)
  obtain sr where c: "check_user_redundancy_status (first_stage_reg (smd1 0) 0) (smd1 0) (first_stage_reg (smd1 0) 0) =
     (TEGRABL_NO_ERROR, True, sr, rotate_slots_priority (smd1 0) 0 (priority (slot_info smd 0)) (priority (slot_info smd 1)))"
    and "(ucast (BOOT_CHAIN_REG_A_RETRY_COUNT_GET sr) :: u8) = retry_count (slot_info smd 0)"
      "(ucast (BOOT_CHAIN_REG_B_RETRY_COUNT_GET sr) :: u8) = retry_count (slot_info smd 1)"
    using check_user_A [OF first_stage_reg_def, of "smd1 0"] range ok f
    by (auto simp: slot_in_range_def bootable_def retry_roundtrip)
  moreover have "rotate_slots_priority (smd1 0) 0 (priority (slot_info smd 0)) (priority (slot_info smd 1)) =
     with_priorities (smd1 0) (rotate_policy (priorities smd))"
    using rotate_slots_priority_rotate(1) [of "smd1 0"] range f assms(2) by (simp add: slot_in_range_def p)
  ultimately show ?thesis
    using copy_back [of sr smd "smd1 0" 0 "retry_count (slot_info smd 0) - 1"] ok(6)
    by (simp add: boot_attempt_def sel upd check_redundancy_status_def tegrabl_a_b_get_version_def f smd1_def
        first_stage_reg_def [symmetric] Let_def)
qed

lemma boot_attempt_B:
  assumes "smd_ok smd" "\<not> priority (slot_info smd 1) \<le> priority (slot_info smd 0)"
  shows "boot_attempt smd = with_priorities smd (rotate_policy (priorities smd))"
proof -
  note ok = smd_okD [OF assms(1)]
  have range: "slot_in_range (slot_info smd 0)" "slot_in_range (slot_info smd 1)"
    using assms(1) by (simp_all add: smd_ok_def)
  define smd1 where "smd1 = (\<lambda>i. update_slot i (\<lambda>s. s\<lparr>retry_count := retry_count s - 1\<rparr>) smd)"
  have upd: "snd (tegrabl_a_b_check_and_update_retry_count smd slot) = smd1 (unat slot)" for slot
    using ok by (simp add: tegrabl_a_b_check_and_update_retry_count_def smd1_def)
  have p: "priorities smd = (unat (priority (slot_info smd 0)), unat (priority (slot_info smd 1)))"
    by (simp add: priorities_def)
  have sel: "selected_slot smd = 1"
    using selected_slot_pick(1) [OF assms(1)] assms(2) by (simp add: pick_def p word_le_nat_alt)
  have f: "slot_info (smd1 1) 0 = slot_info smd 0" "priority (slot_info (smd1 1) 1) = priority (slot_info smd 1)"
    "retry_count (slot_info (smd1 1) 1) = retry_count (slot_info smd 1) - 1" "version (smd1 1) = version smd"
    by (simp_all add: smd1_def)
  obtain sr where c: "check_user_redundancy_status (first_stage_reg (smd1 1) 1) (smd1 1) (first_stage_reg (smd1 1) 1) =
     (TEGRABL_NO_ERROR, True, sr, rotate_slots_priority (smd1 1) 1 (priority (slot_info smd 1)) (priority (slot_info smd 0)))"
    and "(ucast (BOOT_CHAIN_REG_A_RETRY_COUNT_GET sr) :: u8) = retry_count (slot_info smd 0)"
      "(ucast (BOOT_CHAIN_REG_B_RETRY_COUNT_GET sr) :: u8) = retry_count (slot_info smd 1)"
    using check_user_B [OF first_stage_reg_def, of "smd1 1"] range ok f
    by (auto simp: slot_in_range_def bootable_def retry_roundtrip)
  moreover have "rotate_slots_priority (smd1 1) 1 (priority (slot_info smd 1)) (priority (slot_info smd 0)) =
     with_priorities (smd1 1) (rotate_policy (priorities smd))"
    using rotate_slots_priority_rotate(2) [of "smd1 1"] range f assms(2) by (simp add: slot_in_range_def p)
  ultimately show ?thesis
    using copy_back [of sr smd "smd1 1" 1 "retry_count (slot_info smd 1) - 1"] ok(6)
    by (simp add: boot_attempt_def sel upd check_redundancy_status_def tegrabl_a_b_get_version_def f smd1_def
        first_stage_reg_def [symmetric] Let_def)
qed

lemma boot_attempt_rotates:
  "smd_ok smd \<Longrightarrow> boot_attempt smd = with_priorities smd (rotate_policy (priorities smd))"
  using boot_attempt_A boot_attempt_B by blast

lemma rotate_policy_range:
  "1 \<le> a \<Longrightarrow> a \<le> 15 \<Longrightarrow> 1 \<le> b \<Longrightarrow> b \<le> 15 \<Longrightarrow> rotate_policy (a, b) = (a', b') \<Longrightarrow>
     1 \<le> a' \<and> a' \<le> 15 \<and> 1 \<le> b' \<and> b' \<le> 15"
  by (auto simp: rotate_policy_def split: if_splits)

lemma smd_ok_attempt:
  assumes "smd_ok smd"
  shows "smd_ok (boot_attempt smd)" "priorities (boot_attempt smd) = rotate_policy (priorities smd)"
proof -
  obtain a b where ab: "priorities smd = (a, b)" by fastforce
  obtain a' b' where r: "rotate_policy (a, b) = (a', b')" by fastforce
  have "1 \<le> a \<and> a \<le> 15 \<and> 1 \<le> b \<and> b \<le> 15"
    using assms ab by (auto simp: smd_ok_def slot_in_range_def priorities_def)
  then have "1 \<le> a' \<and> a' \<le> 15 \<and> 1 \<le> b' \<and> b' \<le> 15"
    using rotate_policy_range [OF _ _ _ _ r] by blast
  then have u: "unat (of_nat a' :: u8) = a'" "unat (of_nat b' :: u8) = b'" "1 \<le> a'" "1 \<le> b'" "a' \<le> 15" "b' \<le> 15"
    by (simp_all add: unsigned_of_nat take_bit_nat_eq_self_iff)
  have e: "boot_attempt smd = with_priorities smd (a', b')"
    using boot_attempt_rotates [OF assms] by (simp add: ab r)
  show "smd_ok (boot_attempt smd)"
    using assms u by (simp add: e smd_ok_def with_priorities_upd_retry slot_in_range_def)
  show "priorities (boot_attempt smd) = rotate_policy (priorities smd)"
    using u by (simp add: e ab r priorities_def [of "with_priorities smd (a', b')"] with_priorities_upd_retry)
qed

lemma attempts:
  assumes "smd_ok smd"
  shows "smd_ok ((boot_attempt ^^ k) smd) \<and> priorities ((boot_attempt ^^ k) smd) = (rotate_policy ^^ k) (priorities smd) \<and>
     selected_slot ((boot_attempt ^^ k) smd) = of_nat (pick ((rotate_policy ^^ k) (priorities smd)))"
proof (induction k)
  case 0
  then show ?case using selected_slot_pick(1) [OF assms] assms by simp
next
  case (Suc k)
  then show ?case using smd_ok_attempt selected_slot_pick(1) by simp
qed

lemma with_priorities_twice [simp]: "with_priorities (with_priorities smd p) q = with_priorities smd q"
  by (cases p; cases q) (simp add: with_priorities_def fun_upd_twist)

lemma with_priorities_self: "with_priorities smd (priorities smd) = smd"
  by (simp add: with_priorities_def priorities_def)

lemma attempts_with_priorities:
  "smd_ok smd \<Longrightarrow> (boot_attempt ^^ k) smd = with_priorities smd ((rotate_policy ^^ k) (priorities smd))"
proof (induction k)
  case (Suc k)
  then show ?case
    using attempts [of smd k] by (simp add: boot_attempt_rotates)
qed (simp add: with_priorities_self)


lemma demo_smd_ok: "1 \<le> unat p \<Longrightarrow> unat p \<le> 15 \<Longrightarrow> 1 \<le> unat q \<Longrightarrow> unat q \<le> 15 \<Longrightarrow> smd_ok (demo_smd p q)"
  by (simp add: demo_smd_def smd_ok_def slot_in_range_def BOOTCTRL_SUPPORT_REDUNDANCY_def BOOTCTRL_SUPPORT_REDUNDANCY_USER_def)


lemma rotate_policy_switches:
  assumes "1 \<le> a" "a \<le> 15" "1 \<le> b" "b \<le> 15"
  shows "\<exists>k \<le> 15. pick ((rotate_policy ^^ k) (a, b)) \<noteq> pick (a, b)"
proof (cases "b \<le> a")
  case True
  have "(rotate_policy ^^ d) (b + d, b) = (b, b)" for d
  proof (induction d)
    case (Suc d)
    have "rotate_policy (b + Suc d, b) = (b + d, b)" by (simp add: rotate_policy_def)
    then show ?case using Suc by (simp add: funpow_swap1)
  qed simp
  from this [of "a - b"] True have "(rotate_policy ^^ Suc (a - b)) (a, b) = rotate_policy (b, b)" by simp
  then have "pick ((rotate_policy ^^ Suc (a - b)) (a, b)) \<noteq> pick (a, b)"
    using True assms by (simp add: pick_def rotate_policy_def)
  moreover have "Suc (a - b) \<le> 15" using assms by simp
  ultimately show ?thesis by blast
next
  case False
  show ?thesis
  proof (cases "b = a + 1")
    case True
    then have "pick ((rotate_policy ^^ 2) (a, b)) \<noteq> pick (a, b)"
      using assms by (auto simp: pick_def rotate_policy_def numeral_2_eq_2)
    then show ?thesis by (intro exI [of _ 2]) simp
  next
    case gap: False
    with False have "pick ((rotate_policy ^^ 1) (a, b)) \<noteq> pick (a, b)"
      by (simp add: pick_def rotate_policy_def)
    then show ?thesis by (intro exI [of _ 1]) simp
  qed
qed



end
