(* ===== verification/Cboot_Smd.thy ===== *)
theory Cboot_Smd
  imports Cboot_Partition Cboot_Redundancy Cboot_Utils
begin

text \<open>
  Loading and storing the slot meta data, the second half of \<^verbatim>\<open>lib/a_b_boot/tegrabl_a_b_boot_control.c\<close>: the two
  copies in the partitions SMD and SMD_b, their checksum, the fallback to the secondary copy, and the update of the
  stored meta data before the kernel is entered. It is a client of the partition manager.
\<close>


section \<open>The stored form\<close>

text \<open>The packed structures: 5 bytes for a slot, 22 for the meta data, the checksum last.\<close>

definition encode_slot :: "boot_slot_info \<Rightarrow> bytes" where
  "encode_slot s = [priority s] @ map of_char (suffix s) @ [retry_count s, boot_successful s]"

definition encode_payload :: "slot_meta_data \<Rightarrow> bytes" where
  "encode_payload smd = le_bytes 4 (magic smd) @ le_bytes 2 (version smd) @ le_bytes 2 (num_slots smd) @
     encode_slot (slot_info smd 0) @ encode_slot (slot_info smd 1)"

definition encode_smd :: "slot_meta_data \<Rightarrow> bytes" where
  "encode_smd smd = encode_payload smd @ le_bytes 4 (smd_crc32 smd)"

definition slot_info_at :: "bytes \<Rightarrow> boot_slot_info" where
  "slot_info_at b = \<lparr>priority = b ! 0, suffix = map (\<lambda>c. char_of (unat c)) (field 1 2 b), retry_count = b ! 3, boot_successful = b ! 4\<rparr>"

text \<open>\<open>behind\<close> is what the memory behind the array holds when it is read as further slots.\<close>

definition smd_at :: "(nat \<Rightarrow> boot_slot_info) \<Rightarrow> bytes \<Rightarrow> slot_meta_data" where
  "smd_at behind b = \<lparr>magic = le_word (field 0 4 b), version = le_word (field 4 2 b), num_slots = le_word (field 6 2 b),
     slot_info = behind(0 := slot_info_at (field 8 5 b), 1 := slot_info_at (field 13 5 b)), smd_crc32 = le_word (field 18 4 b)\<rparr>"


section \<open>Loading\<close>

definition ab_highest :: "tegrabl_error_t \<Rightarrow> tegrabl_error_t" where
  "ab_highest e = tegrabl_err_set_highest_module e MOD_AB_BOOTCTRL"

definition smd_part_name :: "u32 \<Rightarrow> string" where
  "smd_part_name bin_copy = (if bin_copy = 0 then ''SMD'' else ''SMD_b'')"

definition load_smd_bin_copy ::
  "(nat \<Rightarrow> boot_slot_info) \<Rightarrow> (u64 \<Rightarrow> u64) \<Rightarrow> u64 \<Rightarrow> u32 \<Rightarrow> 'm partition_env \<Rightarrow> 'm \<Rightarrow> (slot_meta_data result \<times> 'm) option" where
  "load_smd_bin_copy behind alloc addr bin_copy env m =
     (case tegrabl_partition_open (Some (smd_part_name bin_copy)) (Some zero_partition) env of
        (Inl e, _) \<Rightarrow> Some (Inl (ab_highest e), m)
      | (Inr _, part) \<Rightarrow>
          (case tegrabl_partition_seek part 0 0 of
             (Inl e, _) \<Rightarrow> Some (Inl (ab_highest e), m)
           | (Inr _, part1) \<Rightarrow>
               (case tegrabl_partition_read alloc part1 addr 22 env m of
                  None \<Rightarrow> None
                | Some (Inl e, _, m1) \<Rightarrow> Some (Inl (ab_highest e), m1)
                | Some (Inr bs, _, m1) \<Rightarrow>
                    let smd = smd_at behind bs
                    in if tegrabl_a_b_get_version smd AND BOOT_CHAIN_VERSION_MASK \<ge> BOOT_CHAIN_VERSION_CRC32 \<and>
                          tegrabl_utils_crc32 0 (take 18 bs) \<noteq> smd_crc32 smd
                       then Some (Inl (ab_error 0 ERR_VERIFY_FAILED), m1)
                       else Some (Inr smd, m1))))"

text \<open>
  The state of \<^verbatim>\<open>tegrabl_a_b_boot_control.c\<close>: the partitions, the medium, the scratch register and the buffer
  \<^verbatim>\<open>smd_loadaddress\<close>, its address with what it holds. \<open>new\<close> is what \<^verbatim>\<open>tegrabl_malloc\<close> returns, 0 when out of memory.
\<close>

record 'm boot_state =
  part_env :: "'m partition_env"
  medium :: 'm
  boot_slot_reg :: u32
  smd_loadaddress :: "(u64 \<times> slot_meta_data) option"

definition tegrabl_a_b_get_smd ::
  "(nat \<Rightarrow> boot_slot_info) \<Rightarrow> (u64 \<Rightarrow> u64) \<Rightarrow> u64 \<Rightarrow> 'm boot_state \<Rightarrow> ((u64 \<times> slot_meta_data) result \<times> 'm boot_state) option" where
  "tegrabl_a_b_get_smd behind alloc new s =
     (case smd_loadaddress s of Some smd \<Rightarrow> Some (Inr smd, s)
      | None \<Rightarrow>
          if new = 0 then Some (Inl (ab_error 0 ERR_NO_MEMORY), s)
          else case load_smd_bin_copy behind alloc new 0 (part_env s) (medium s) of
            None \<Rightarrow> None
          | Some (Inr smd, m1) \<Rightarrow> Some (Inr (new, smd), s\<lparr>medium := m1, smd_loadaddress := Some (new, smd)\<rparr>)
          | Some (Inl _, m1) \<Rightarrow>
              (case load_smd_bin_copy behind alloc new 1 (part_env s) m1 of
                 None \<Rightarrow> None
               | Some (Inr smd, m2) \<Rightarrow> Some (Inr (new, smd), s\<lparr>medium := m2, smd_loadaddress := Some (new, smd)\<rparr>)
               | Some (Inl e, m2) \<Rightarrow> Some (Inl e, s\<lparr>medium := m2\<rparr>)))"


section \<open>Storing\<close>

definition flush_smd_bin_copy ::
  "(u64 \<Rightarrow> u64) \<Rightarrow> u64 \<Rightarrow> slot_meta_data \<Rightarrow> u32 \<Rightarrow> 'm partition_env \<Rightarrow> 'm \<Rightarrow> (unit result \<times> 'm) option" where
  "flush_smd_bin_copy alloc addr smd bin_copy env m =
     (case tegrabl_partition_open (Some (smd_part_name bin_copy)) (Some zero_partition) env of
        (Inr _, Some part) \<Rightarrow>
          (case (if tegrabl_blockdev_get_storage_type (part_device env part) = 3
                 then tegrabl_partition_erase (Some part) False env m else Some (Inr (), m)) of
             None \<Rightarrow> None
           | Some (Inl e, m1) \<Rightarrow> Some (Inl (ab_highest e), m1)
           | Some (Inr _, m1) \<Rightarrow>
               (case tegrabl_partition_seek (Some part) 0 0 of
                  (Inl e, _) \<Rightarrow> Some (Inl (ab_highest e), m1)
                | (Inr _, part1) \<Rightarrow>
                    (case tegrabl_partition_write alloc part1 addr (encode_smd smd) 22 env m1 of
                       None \<Rightarrow> None
                     | Some (Inl e, _, m2) \<Rightarrow> Some (Inl (ab_highest e), m2)
                     | Some (Inr _, _, m2) \<Rightarrow> Some (Inr (), m2))))
      | (Inl e, _) \<Rightarrow> Some (Inl (ab_highest e), m)
      | _ \<Rightarrow> None)"

text \<open>The result is that of the secondary copy; an error of the primary one is overwritten.\<close>

definition tegrabl_a_b_flush_smd ::
  "(u64 \<Rightarrow> u64) \<Rightarrow> (u64 \<times> slot_meta_data) option \<Rightarrow> 'm partition_env \<Rightarrow> 'm \<Rightarrow> (unit result \<times> (u64 \<times> slot_meta_data) option \<times> 'm) option" where
  "tegrabl_a_b_flush_smd alloc smd env m =
     (case smd of None \<Rightarrow> Some (Inl (ab_error 0 ERR_INVALID), None, m)
      | Some (addr, bootctrl) \<Rightarrow>
          let bootctrl1 = bootctrl\<lparr>smd_crc32 := tegrabl_utils_crc32 0 (encode_payload bootctrl)\<rparr>
          in case flush_smd_bin_copy alloc addr bootctrl1 0 env m of None \<Rightarrow> None
             | Some (_, m1) \<Rightarrow> map_option (\<lambda>(r, m2). (r, Some (addr, bootctrl1), m2)) (flush_smd_bin_copy alloc addr bootctrl1 1 env m1))"

text \<open>
  The update before the kernel is entered: with a valid register and an update in progress or redundancy enabled, the
  meta data is brought up to date from the register and stored; then the register is cleared.
\<close>

definition update_and_flush ::
  "(u64 \<Rightarrow> u64) \<Rightarrow> u64 \<times> slot_meta_data \<Rightarrow> 'm boot_state \<Rightarrow> (unit result \<times> 'm boot_state) option" where
  "update_and_flush alloc smd s =
     (let smd1 = fst (tegrabl_a_b_copy_retry_count (snd smd) (boot_slot_reg s) FROM_REG_TO_SMD)
      in case tegrabl_a_b_flush_smd alloc (Some (fst smd, smd1)) (part_env s) (medium s) of
           None \<Rightarrow> None
         | Some (Inl e, smd2, m1) \<Rightarrow> Some (Inl (ab_highest e), s\<lparr>medium := m1, smd_loadaddress := smd2\<rparr>)
         | Some (Inr _, smd2, m1) \<Rightarrow> Some (Inr (), s\<lparr>medium := m1, smd_loadaddress := smd2\<rparr>))"

definition clear_boot_slot_reg :: "u32 \<Rightarrow> unit result \<times> 'm boot_state \<Rightarrow> unit result \<times> 'm boot_state" where
  "clear_boot_slot_reg reg = (\<lambda>(r, s).
     (map_sum ab_highest id r, if BOOT_CHAIN_REG_MAGIC_GET reg = BOOT_CHAIN_REG_MAGIC then s\<lparr>boot_slot_reg := 0\<rparr> else s))"

definition tegrabl_a_b_update_smd ::
  "(nat \<Rightarrow> boot_slot_info) \<Rightarrow> (u64 \<Rightarrow> u64) \<Rightarrow> u64 \<Rightarrow> 'm boot_state \<Rightarrow> (unit result \<times> 'm boot_state) option" where
  "tegrabl_a_b_update_smd behind alloc new s =
     (let reg = boot_slot_reg s; bc_flag = (ucast (BOOT_CHAIN_REG_UPDATE_FLAG_GET reg) :: u8)
      in if \<not> (BOOT_CHAIN_REG_MAGIC_GET reg = BOOT_CHAIN_REG_MAGIC \<and> (bc_flag = BC_FLAG_OTA_ON \<or> bc_flag = BC_FLAG_REDUNDANCY_BOOT))
         then Some (clear_boot_slot_reg reg (Inr (), s))
         else case tegrabl_a_b_get_smd behind alloc new s of
           None \<Rightarrow> None
         | Some (Inl e, s1) \<Rightarrow> Some (clear_boot_slot_reg reg (Inl (ab_highest e), s1))
         | Some (Inr (addr, smd), s1) \<Rightarrow>
             if bc_flag = BC_FLAG_REDUNDANCY_BOOT \<and> BOOTCTRL_SUPPORT_REDUNDANCY (tegrabl_a_b_get_version smd)
             then (case check_redundancy_status reg smd reg of (e, update, reg1, smd1) \<Rightarrow>
                let s2 = s1\<lparr>boot_slot_reg := reg1, smd_loadaddress := Some (addr, smd1)\<rparr>
                in if e \<noteq> TEGRABL_NO_ERROR then Some (clear_boot_slot_reg reg (Inl e, s2))
                   else if \<not> update then Some (clear_boot_slot_reg reg (Inr (), s2))
                   else map_option (clear_boot_slot_reg reg1) (update_and_flush alloc (addr, smd1) s2))
             else map_option (clear_boot_slot_reg reg) (update_and_flush alloc (addr, smd) s1))"


section \<open>Round trip of the stored form\<close>

definition wf_smd :: "slot_meta_data \<Rightarrow> bool" where
  "wf_smd smd \<longleftrightarrow> length (suffix (slot_info smd 0)) = 2 \<and> length (suffix (slot_info smd 1)) = 2"

lemma length_encode_slot: "length (suffix s) = 2 \<Longrightarrow> length (encode_slot s) = 5"
  by (simp add: encode_slot_def)

lemma length_encode_payload: "wf_smd smd \<Longrightarrow> length (encode_payload smd) = 18"
  by (simp add: encode_payload_def wf_smd_def length_encode_slot)

lemma length_encode_smd: "wf_smd smd \<Longrightarrow> length (encode_smd smd) = 22"
  by (simp add: encode_smd_def length_encode_payload)

lemma char_of_byte [simp]: "char_of (unat (of_char c :: u8)) = c"
proof -
  have "(of_char c :: u8) = of_nat (of_char c)" by (rule of_nat_of_char [symmetric])
  then have "unat (of_char c :: u8) = of_char c mod 256" by (simp only: unat_of_nat) simp
  then show ?thesis by simp
qed

lemma decode_slot: "length (suffix s) = 2 \<Longrightarrow> slot_info_at (encode_slot s) = s"
proof -
  assume l: "length (suffix s) = 2"
  then obtain a b where s: "suffix s = [a, b]" by (auto simp: numeral_2_eq_2 length_Suc_conv)
  then show ?thesis by (cases s) (simp add: slot_info_at_def encode_slot_def field_def)
qed

lemma decode_smd:
  assumes "wf_smd smd"
  shows "smd_at (slot_info smd) (encode_smd smd) = smd"
proof -
  have l: "length (encode_slot (slot_info smd 0)) = 5" "length (encode_slot (slot_info smd 1)) = 5"
    using assms by (simp_all add: wf_smd_def length_encode_slot)
  then have "field 0 4 (encode_smd smd) = le_bytes 4 (magic smd)" "field 4 2 (encode_smd smd) = le_bytes 2 (version smd)"
    "field 6 2 (encode_smd smd) = le_bytes 2 (num_slots smd)" "field 8 5 (encode_smd smd) = encode_slot (slot_info smd 0)"
    "field 13 5 (encode_smd smd) = encode_slot (slot_info smd 1)" "field 18 4 (encode_smd smd) = le_bytes 4 (smd_crc32 smd)"
    by (simp_all add: field_def encode_smd_def encode_payload_def)
  then show ?thesis using assms by (cases smd) (simp add: smd_at_def decode_slot wf_smd_def)
qed

lemma payload_of_smd: "wf_smd smd \<Longrightarrow> take 18 (encode_smd smd) = encode_payload smd"
  by (simp add: encode_smd_def length_encode_payload)


text \<open>The check of \<^verbatim>\<open>load_smd_bin_copy\<close> on the bytes read, and the meta data with its checksum in place.\<close>

definition verify_smd :: "(nat \<Rightarrow> boot_slot_info) \<Rightarrow> bytes \<Rightarrow> slot_meta_data result" where
  "verify_smd behind bs =
     (if version (smd_at behind bs) AND BOOT_CHAIN_VERSION_MASK \<ge> BOOT_CHAIN_VERSION_CRC32 \<and>
         tegrabl_utils_crc32 0 (take 18 bs) \<noteq> smd_crc32 (smd_at behind bs)
      then Inl (ab_error 0 ERR_VERIFY_FAILED) else Inr (smd_at behind bs))"

definition seal :: "slot_meta_data \<Rightarrow> slot_meta_data" where
  "seal smd = smd\<lparr>smd_crc32 := tegrabl_utils_crc32 0 (encode_payload smd)\<rparr>"

lemma seal_simps [simp]:
  "magic (seal smd) = magic smd" "version (seal smd) = version smd" "num_slots (seal smd) = num_slots smd"
  "slot_info (seal smd) = slot_info smd" "wf_smd (seal smd) = wf_smd smd" "encode_payload (seal smd) = encode_payload smd"
  "smd_crc32 (seal smd) = tegrabl_utils_crc32 0 (encode_payload smd)"
  by (simp_all add: seal_def wf_smd_def encode_payload_def)

lemma verify_sealed: "wf_smd smd \<Longrightarrow> verify_smd (slot_info smd) (encode_smd (seal smd)) = Inr (seal smd)"
  using decode_smd [of "seal smd"] payload_of_smd [of "seal smd"] by (simp add: verify_smd_def)

lemma version_low_byte:
  assumes "length bs = 22"
  shows "unat (version (smd_at behind bs) AND BOOT_CHAIN_VERSION_MASK) = unat (bs ! 4)"
proof -
  have f: "field 4 2 bs = [bs ! 4, bs ! 5]"
    using assms by (simp add: field_def take_Suc_conv_app_nth numeral_2_eq_2 Cons_nth_drop_Suc [symmetric])
  have "(le_word [bs ! 4, bs ! 5] :: u16) AND 0xFF = ucast (bs ! 4)"
    by (rule bit_eqI) (auto simp: FF_mask bit_simps dest: bit_imp_le_length)
  moreover have "unat (ucast (bs ! 4) :: u16) = unat (bs ! 4)"
    using unsigned_less [of "bs ! 4", where 'a = nat] by (simp add: unsigned_ucast_eq take_bit_nat_eq_self_iff)
  ultimately show ?thesis by (simp add: smd_at_def f)
qed

lemma verify_corrupt:
  assumes "wf_smd smd" "2 \<le> unat (version smd AND BOOT_CHAIN_VERSION_MASK)" "i < 22" "i \<noteq> 4" "b \<noteq> encode_smd (seal smd) ! i"
  shows "verify_smd behind ((encode_smd (seal smd))[i := b]) = Inl (ab_error 0 ERR_VERIFY_FAILED)"
proof -
  let ?xs = "encode_smd (seal smd)" and ?ys = "(encode_smd (seal smd))[i := b]" and ?p = "encode_payload smd"
  have len: "length ?xs = 22" using assms(1) by (simp add: length_encode_smd)
  have dec: "smd_at (slot_info smd) ?xs = seal smd" using decode_smd [of "seal smd"] assms(1) by simp
  have "unat (?ys ! 4) = unat (?xs ! 4)" using assms(4) by simp
  then have v: "2 \<le> version (smd_at behind ?ys) AND BOOT_CHAIN_VERSION_MASK"
    using version_low_byte [of ?ys behind] version_low_byte [of ?xs "slot_info smd"] len dec assms(2) by (simp add: word_le_nat_alt)
  have f: "le_bytes 4 (smd_crc32 (smd_at behind ?ys)) = field 18 4 ?ys"
    using le_bytes_field [of 18 4 ?ys, where 'a = 32] len by (simp add: smd_at_def)
  have crc: "field 18 4 ?xs = le_bytes 4 (tegrabl_utils_crc32 0 ?p)"
    using assms(1) by (simp add: field_def encode_smd_def length_encode_payload)
  have p: "take 18 ?xs = ?p" "length ?p = 18" using assms(1) by (simp_all add: encode_smd_def length_encode_payload)
  have "tegrabl_utils_crc32 0 (take 18 ?ys) \<noteq> smd_crc32 (smd_at behind ?ys)"
  proof (cases "i < 18")
    case True
    then have "field 18 4 ?ys = field 18 4 ?xs" by (simp add: field_def)
    with f crc have "smd_crc32 (smd_at behind ?ys) = tegrabl_utils_crc32 0 ?p" by (intro le_bytes_4_inj) simp
    moreover have "take 18 ?ys = ?p[i := b]" using p by (simp add: take_update_swap)
    moreover have "b \<noteq> ?p ! i" using assms(5) True p by (metis nth_take)
    ultimately show ?thesis
      using True p(2) crc32_one_byte [of 0 "take i ?p" b "drop (Suc i) ?p" "?p ! i"]
      by (simp add: list_update_split id_take_nth_drop [symmetric])
  next
    case False
    then have "take 18 ?ys = ?p" using p by simp
    moreover have "field 18 4 ?ys ! (i - 18) = b" "field 18 4 ?xs ! (i - 18) = ?xs ! i"
      using False assms(3) len by (simp_all add: field_def)
    ultimately show ?thesis using f crc assms(5) by metis
  qed
  with v show ?thesis by (simp add: verify_smd_def)
qed


section \<open>The two copies on a disk\<close>

text \<open>
  Both copies of the meta data on one device that is not QSPI flash, in partitions that do not overlap.
\<close>

definition smd_info :: "tegrabl_partition_info \<times> tegrabl_partition_info \<Rightarrow> u32 \<Rightarrow> tegrabl_partition_info" where
  "smd_info infos c = (if c = 0 then fst infos else snd infos)"

definition smd_parts ::
  "'m partition_env \<Rightarrow> u64 \<Rightarrow> 'm tegrabl_bdev \<Rightarrow> tegrabl_partition_info \<times> tegrabl_partition_info \<Rightarrow> bool" where
  "smd_parts env h dev infos \<longleftrightarrow> h \<noteq> 0 \<and> devices (blockdevs env) h = Some dev \<and> tegrabl_blockdev_get_storage_type (Some dev) \<noteq> 3 \<and>
     (\<exists>sl. storage_list env = Some sl \<and> open_loop ''SMD'' sl = Some (fst infos, h) \<and> open_loop ''SMD_b'' sl = Some (snd infos, h)) \<and>
     part_range dev (fst infos) \<and> part_range dev (snd infos) \<and>
     22 \<le> unat (total_size (fst infos)) \<and> 22 \<le> unat (total_size (snd infos)) \<and>
     (part_base dev (fst infos) + 22 \<le> part_base dev (snd infos) \<or> part_base dev (snd infos) + 22 \<le> part_base dev (fst infos))"

definition smd_copy :: "'m tegrabl_bdev \<Rightarrow> tegrabl_partition_info \<Rightarrow> bytes \<Rightarrow> bytes" where
  "smd_copy dev info xs = take 22 (drop (part_base dev info) xs)"

locale smd_disk = block_client dev contents alloc addr
  for dev :: "'m tegrabl_bdev" and contents :: "'m \<Rightarrow> bytes" and alloc :: "u64 \<Rightarrow> u64" and addr :: u64 +
  fixes env :: "'m partition_env" and h :: u64 and infos :: "tegrabl_partition_info \<times> tegrabl_partition_info"
  assumes parts: "smd_parts env h dev infos"
begin

lemma copy_handle: "partition_handle dev contents alloc addr env (handle_on (smd_info infos c) h) (smd_info infos c)"
  using parts
  by unfold_locales (auto simp: smd_parts_def handle_on_def part_device_def smd_info_def)

lemma handle_start: "part_offset (handle_on i h) = 0"
  by (simp add: handle_on_def)

lemma open_copy:
  "tegrabl_partition_open (Some (smd_part_name c)) (Some zero_partition) env = (Inr (), Some (handle_on (smd_info infos c) h))"
  using parts by (auto simp: smd_parts_def tegrabl_partition_open_def smd_part_name_def smd_info_def)

lemma seek_copy: "tegrabl_partition_seek (Some (handle_on i h)) 0 0 = (Inr (), Some (handle_on i h))"
  using parts seek_set [of "handle_on i h" i 0] by (simp add: smd_parts_def handle_on_def)

lemma copy_size: "22 \<le> unat (total_size (smd_info infos c))"
  using parts by (simp add: smd_parts_def smd_info_def)

lemma load_copy:
  "load_smd_bin_copy behind alloc addr c env m = Some (verify_smd behind (smd_copy dev (smd_info infos c) (contents m)), m)"
  using partition_handle.read_ok [OF copy_handle [of c], of 22 m] copy_size [of c]
  by (simp add: load_smd_bin_copy_def open_copy seek_copy Let_def verify_smd_def tegrabl_a_b_get_version_def
      smd_copy_def part_bytes_def min_absorb1 handle_start)

lemma flush_copy:
  assumes "wf_smd smd"
  shows "\<exists>m'. flush_smd_bin_copy alloc addr smd c env m = Some (Inr (), m') \<and>
    contents m' = patch_at (part_base dev (smd_info infos c)) (encode_smd smd) (contents m)"
proof -
  have "tegrabl_blockdev_get_storage_type (part_device env (handle_on i h)) \<noteq> 3" for i
    using parts by (simp add: smd_parts_def part_device_def handle_on_def)
  then show ?thesis
    using partition_handle.write_ok [OF copy_handle [of c], of 22 "encode_smd smd" m] copy_size [of c] length_encode_smd [OF assms]
    by (auto simp: flush_smd_bin_copy_def open_copy seek_copy handle_start)
qed

lemma copy_fits: "part_base dev (smd_info infos c) + 22 \<le> length (contents m)"
  using partition_handle.on_device [OF copy_handle [of c]] copy_size [of c] contents_length [of m] by simp

lemma copies_apart:
  "part_base dev (smd_info infos 0) + 22 \<le> part_base dev (smd_info infos 1) \<or> part_base dev (smd_info infos 1) + 22 \<le> part_base dev (smd_info infos 0)"
  using parts by (simp add: smd_parts_def smd_info_def)

lemma flush_both:
  assumes "wf_smd smd"
  shows "\<exists>m'. tegrabl_a_b_flush_smd alloc (Some (addr, smd)) env m = Some (Inr (), Some (addr, seal smd), m') \<and>
    smd_copy dev (smd_info infos 0) (contents m') = encode_smd (seal smd) \<and>
    smd_copy dev (smd_info infos 1) (contents m') = encode_smd (seal smd)"
proof -
  have w: "wf_smd (seal smd)" "length (encode_smd (seal smd)) = 22" using assms by (simp_all add: length_encode_smd)
  obtain m1 where f1: "flush_smd_bin_copy alloc addr (seal smd) 0 env m = Some (Inr (), m1)"
      "contents m1 = patch_at (part_base dev (smd_info infos 0)) (encode_smd (seal smd)) (contents m)"
    using flush_copy [OF w(1)] by blast
  obtain m2 where f2: "flush_smd_bin_copy alloc addr (seal smd) 1 env m1 = Some (Inr (), m2)"
      "contents m2 = patch_at (part_base dev (smd_info infos 1)) (encode_smd (seal smd)) (contents m1)"
    using flush_copy [OF w(1)] by blast
  have "smd_copy dev (smd_info infos 1) (contents m2) = encode_smd (seal smd)"
    using w copy_fits [of 1 m1] by (simp add: smd_copy_def f2(2) patch_at_def)
  moreover have "smd_copy dev (smd_info infos 0) (contents m2) = smd_copy dev (smd_info infos 0) (contents m1)"
    unfolding smd_copy_def f2(2) using copies_apart copy_fits [of 1 m1] w(2) by (intro patch_at_elsewhere) auto
  moreover have "\<dots> = encode_smd (seal smd)"
    using w copy_fits [of 0 m] by (simp add: smd_copy_def f1(2) patch_at_def)
  ultimately show ?thesis using f1 f2 by (auto simp: tegrabl_a_b_flush_smd_def Let_def seal_def)
qed

lemma get_smd_primary:
  assumes "wf_smd smd" "smd_copy dev (smd_info infos 0) (contents m) = encode_smd (seal smd)"
  shows "tegrabl_a_b_get_smd (slot_info smd) alloc addr \<lparr>part_env = env, medium = m, boot_slot_reg = r, smd_loadaddress = None\<rparr> =
    Some (Inr (addr, seal smd), \<lparr>part_env = env, medium = m, boot_slot_reg = r, smd_loadaddress = Some (addr, seal smd)\<rparr>)"
  using buffer(1) load_copy [of "slot_info smd" 0 m] assms verify_sealed [OF assms(1)] by (simp add: tegrabl_a_b_get_smd_def)

lemma get_smd_secondary:
  assumes "wf_smd smd" "2 \<le> unat (version smd AND BOOT_CHAIN_VERSION_MASK)" "i < 22" "i \<noteq> 4" "b \<noteq> encode_smd (seal smd) ! i"
    and "smd_copy dev (smd_info infos 0) (contents m) = (encode_smd (seal smd))[i := b]"
    and "smd_copy dev (smd_info infos 1) (contents m) = encode_smd (seal smd)"
  shows "tegrabl_a_b_get_smd (slot_info smd) alloc addr \<lparr>part_env = env, medium = m, boot_slot_reg = r, smd_loadaddress = None\<rparr> =
    Some (Inr (addr, seal smd), \<lparr>part_env = env, medium = m, boot_slot_reg = r, smd_loadaddress = Some (addr, seal smd)\<rparr>)"
  using buffer(1) load_copy [of "slot_info smd" 0 m] load_copy [of "slot_info smd" 1 m] assms(6,7)
    verify_corrupt [OF assms(1-5), of "slot_info smd"] verify_sealed [OF assms(1)]
  by (simp add: tegrabl_a_b_get_smd_def)

lemma corrupt_primary:
  assumes "contents m2 = (contents m1)[part_base dev (smd_info infos 0) + i := b]" "i < 22"
  shows "smd_copy dev (smd_info infos 0) (contents m2) = (smd_copy dev (smd_info infos 0) (contents m1))[i := b]"
    and "smd_copy dev (smd_info infos 1) (contents m2) = smd_copy dev (smd_info infos 1) (contents m1)"
proof -
  show "smd_copy dev (smd_info infos 0) (contents m2) = (smd_copy dev (smd_info infos 0) (contents m1))[i := b]"
    by (simp add: smd_copy_def assms(1) drop_update_swap take_update_swap)
  show "smd_copy dev (smd_info infos 1) (contents m2) = smd_copy dev (smd_info infos 1) (contents m1)"
    using copies_apart assms(2) unfolding smd_copy_def assms(1) by (auto simp: drop_update_swap)
qed

end

lemma smd_disk_intro:
  assumes "driver_ok dev contents" "alloc_ok alloc dev" "addr \<noteq> 0" "unat addr + unat (dev_size dev) < 2 ^ 64" "smd_parts env h dev infos"
  shows "smd_disk dev contents alloc addr env h infos"
proof -
  have bd: "block_device dev contents alloc" using assms(1,2) by unfold_locales
  show ?thesis
    using bd assms(3-5) block_device.unat_dev_size [OF bd]
    by (simp add: smd_disk_def smd_disk_axioms_def block_client_def block_client_axioms_def)
qed


section \<open>A boot attempt through the disk\<close>

definition attempt_smd :: "slot_meta_data \<Rightarrow> slot_meta_data" where
  "attempt_smd smd = snd (tegrabl_a_b_check_and_update_retry_count smd (selected_slot smd))"

definition attempt_reg :: "slot_meta_data \<Rightarrow> u32" where
  "attempt_reg smd = first_stage_reg (attempt_smd smd) (selected_slot smd)"

lemma attempt_slot: "smd_ok smd \<Longrightarrow> selected_slot smd = 0 \<or> selected_slot smd = 1"
  using selected_slot_pick(1) [of smd] by (auto simp: pick_def split: prod.splits)

lemma attempt_smd_fields:
  "version (attempt_smd smd) = version smd" "boot_successful (slot_info (attempt_smd smd) i) = boot_successful (slot_info smd i)"
  "suffix (slot_info (attempt_smd smd) i) = suffix (slot_info smd i)"
  by (simp_all add: attempt_smd_def tegrabl_a_b_check_and_update_retry_count_def)

lemma attempt_reg_fields:
  assumes "smd_ok smd" "boot_successful (slot_info smd (unat (selected_slot smd))) \<noteq> 0"
  shows "BOOT_CHAIN_REG_MAGIC_GET (attempt_reg smd) = BOOT_CHAIN_REG_MAGIC"
    "(ucast (BOOT_CHAIN_REG_UPDATE_FLAG_GET (attempt_reg smd)) :: u8) = BC_FLAG_REDUNDANCY_BOOT"
    "BOOT_CHAIN_REG_SLOT_NUM_GET (attempt_reg smd) = selected_slot smd"
  using attempt_slot [OF assms(1)] assms smd_okD(5) [OF assms(1)]
  by (auto simp: attempt_reg_def first_stage_reg_def tegrabl_a_b_save_boot_slot_reg_def Let_def attempt_smd_fields
      tegrabl_a_b_copy_retry_count_def field_simps_c)

lemma attempt_status:
  assumes "smd_ok smd" "boot_successful (slot_info smd (unat (selected_slot smd))) \<noteq> 0"
  shows "\<exists>sr smd2. check_redundancy_status (attempt_reg smd) (attempt_smd smd) (attempt_reg smd) = (TEGRABL_NO_ERROR, True, sr, smd2) \<and>
    fst (tegrabl_a_b_copy_retry_count smd2 sr FROM_REG_TO_SMD) = boot_attempt smd \<and> BOOT_CHAIN_REG_MAGIC_GET sr = BOOT_CHAIN_REG_MAGIC"
proof -
  let ?reg = "attempt_reg smd"
  obtain e u sr smd2 where c: "check_redundancy_status ?reg (attempt_smd smd) ?reg = (e, u, sr, smd2)"
    by (cases "check_redundancy_status ?reg (attempt_smd smd) ?reg")
  then have "boot_attempt smd = fst (tegrabl_a_b_copy_retry_count smd2 sr FROM_REG_TO_SMD)"
    by (simp add: boot_attempt_def attempt_smd_def attempt_reg_def first_stage_reg_def Let_def)
  moreover have "e = TEGRABL_NO_ERROR \<and> u \<and> BOOT_CHAIN_REG_MAGIC_GET sr = BOOT_CHAIN_REG_MAGIC"
    using attempt_slot [OF assms(1)] c attempt_reg_fields [OF assms] smd_okD(6) [OF assms(1)]
    by (auto simp: check_redundancy_status_def tegrabl_a_b_get_version_def attempt_smd_fields check_user_redundancy_status_def
        Let_def field_simps_c)
  ultimately show ?thesis using c by auto
qed

lemma wf_attempt: "smd_ok smd \<Longrightarrow> wf_smd smd \<Longrightarrow> wf_smd (boot_attempt smd)"
  by (cases "rotate_policy (priorities smd)") (simp add: boot_attempt_rotates wf_smd_def with_priorities_upd_retry)

context smd_disk
begin

lemma update_attempt:
  assumes "smd_ok smd" "wf_smd smd" "boot_successful (slot_info smd (unat (selected_slot smd))) \<noteq> 0" "seal (attempt_smd smd) = attempt_smd smd"
    and "smd_copy dev (smd_info infos 0) (contents m) = encode_smd (attempt_smd smd)"
  shows "\<exists>m'. tegrabl_a_b_update_smd (slot_info (attempt_smd smd)) alloc addr
      \<lparr>part_env = env, medium = m, boot_slot_reg = attempt_reg smd, smd_loadaddress = None\<rparr> =
    Some (Inr (), \<lparr>part_env = env, medium = m', boot_slot_reg = 0, smd_loadaddress = Some (addr, seal (boot_attempt smd))\<rparr>) \<and>
    smd_copy dev (smd_info infos 0) (contents m') = encode_smd (seal (boot_attempt smd)) \<and>
    smd_copy dev (smd_info infos 1) (contents m') = encode_smd (seal (boot_attempt smd))"
proof -
  have w: "wf_smd (attempt_smd smd)" using assms(2) by (simp add: wf_smd_def attempt_smd_fields)
  note get = get_smd_primary [OF w, of m "attempt_reg smd", unfolded assms(4), OF assms(5)]
  obtain sr smd2 where c: "check_redundancy_status (attempt_reg smd) (attempt_smd smd) (attempt_reg smd) = (TEGRABL_NO_ERROR, True, sr, smd2)"
      "fst (tegrabl_a_b_copy_retry_count smd2 sr FROM_REG_TO_SMD) = boot_attempt smd" "BOOT_CHAIN_REG_MAGIC_GET sr = BOOT_CHAIN_REG_MAGIC"
    using attempt_status [OF assms(1,3)] by blast
  obtain m' where f: "tegrabl_a_b_flush_smd alloc (Some (addr, boot_attempt smd)) env m = Some (Inr (), Some (addr, seal (boot_attempt smd)), m')"
      "smd_copy dev (smd_info infos 0) (contents m') = encode_smd (seal (boot_attempt smd))"
      "smd_copy dev (smd_info infos 1) (contents m') = encode_smd (seal (boot_attempt smd))"
    using flush_both [OF wf_attempt [OF assms(1,2)]] by blast
  have "BOOTCTRL_SUPPORT_REDUNDANCY (tegrabl_a_b_get_version (attempt_smd smd))"
    using smd_okD(5) [OF assms(1)] by (simp add: tegrabl_a_b_get_version_def attempt_smd_fields)
  then show ?thesis
    using get c f attempt_reg_fields [OF assms(1,3)]
    by (simp add: tegrabl_a_b_update_smd_def Let_def update_and_flush_def clear_boot_slot_reg_def)
qed

end

section \<open>Properties\<close>

text \<open>
  (C22) Meta data stored by \<^verbatim>\<open>tegrabl_a_b_flush_smd\<close> is what a later boot loads, with the checksum in place.
\<close>
theorem smd_flush_load:
  assumes "driver_ok dev contents" "alloc_ok alloc dev" "addr \<noteq> 0" "unat addr + unat (dev_size dev) < 2 ^ 64" "smd_parts env h dev infos"
    and "wf_smd smd"
  shows "\<exists>m1. tegrabl_a_b_flush_smd alloc (Some (addr, smd)) env m = Some (Inr (), Some (addr, seal smd), m1) \<and>
    (\<forall>r. map_option fst (tegrabl_a_b_get_smd (slot_info smd) alloc addr
       \<lparr>part_env = env, medium = m1, boot_slot_reg = r, smd_loadaddress = None\<rparr>) = Some (Inr (addr, seal smd)))"
  using smd_disk.flush_both [OF smd_disk_intro [OF assms(1-5)] assms(6), of m]
    smd_disk.get_smd_primary [OF smd_disk_intro [OF assms(1-5)] assms(6)]
  by fastforce

text \<open>
  (C23) Corruption of a byte of the primary copy, at any position but the low byte of the version and to any other value, is
  found by the checksum, and the meta data is loaded unchanged from the secondary copy. (The version decides whether
  the checksum is looked at, so it is not protected by it.)
\<close>
theorem smd_survives_corruption:
  assumes "driver_ok dev contents" "alloc_ok alloc dev" "addr \<noteq> 0" "unat addr + unat (dev_size dev) < 2 ^ 64" "smd_parts env h dev infos"
    and "wf_smd smd" "2 \<le> unat (version smd AND BOOT_CHAIN_VERSION_MASK)"
    and "tegrabl_a_b_flush_smd alloc (Some (addr, smd)) env m = Some (Inr (), Some (addr, smd'), m1)"
    and "i < 22" "i \<noteq> 4" "b \<noteq> contents m1 ! (part_base dev (fst infos) + i)"
    and "contents m2 = (contents m1)[part_base dev (fst infos) + i := b]"
  shows "map_option fst (tegrabl_a_b_get_smd (slot_info smd) alloc addr
      \<lparr>part_env = env, medium = m2, boot_slot_reg = r, smd_loadaddress = None\<rparr>) = Some (Inr (addr, seal smd))"
proof -
  note sd = smd_disk_intro [OF assms(1-5)]
  have i0: "smd_info infos 0 = fst infos" by (simp add: smd_info_def)
  have c: "smd_copy dev (fst infos) (contents m1) = encode_smd (seal smd)" "smd_copy dev (smd_info infos 1) (contents m1) = encode_smd (seal smd)"
    using smd_disk.flush_both [OF sd assms(6), of m] assms(8) by (auto simp: i0)
  have m2: "smd_copy dev (smd_info infos 0) (contents m2) = (encode_smd (seal smd))[i := b]"
      "smd_copy dev (smd_info infos 1) (contents m2) = encode_smd (seal smd)"
    using smd_disk.corrupt_primary [OF sd, of m2 m1 i b] assms(9,12) c by (simp_all add: i0)
  have "encode_smd (seal smd) ! i = contents m1 ! (part_base dev (fst infos) + i)"
    using assms(9) smd_disk.copy_fits [OF sd, of 0 m1] unfolding c(1) [symmetric] by (simp add: smd_copy_def i0)
  then show ?thesis
    using smd_disk.get_smd_secondary [OF sd assms(6,7,9,10) _ m2] assms(11) by simp
qed

text \<open>
  (C5) The last stage of a boot under the redundancy policy, on a disk that holds the meta data of the first stage and with
  the register the first stage left: the update ends without error, clears the register, and leaves on both copies the
  meta data of \<open>boot_attempt\<close>, whose iterates give each boot chain its tries.
\<close>
theorem update_smd_stores_attempt:
  assumes "driver_ok dev contents" "alloc_ok alloc dev" "addr \<noteq> 0" "unat addr + unat (dev_size dev) < 2 ^ 64" "smd_parts env h dev infos"
    and "smd_ok smd" "wf_smd smd" "boot_successful (slot_info smd (unat (selected_slot smd))) \<noteq> 0" "seal (attempt_smd smd) = attempt_smd smd"
    and "smd_copy dev (fst infos) (contents m) = encode_smd (attempt_smd smd)"
  shows "\<exists>s. tegrabl_a_b_update_smd (slot_info (attempt_smd smd)) alloc addr
      \<lparr>part_env = env, medium = m, boot_slot_reg = attempt_reg smd, smd_loadaddress = None\<rparr> = Some (Inr (), s) \<and>
    boot_slot_reg s = 0 \<and> smd_copy dev (fst infos) (contents (medium s)) = encode_smd (seal (boot_attempt smd)) \<and>
    smd_copy dev (snd infos) (contents (medium s)) = encode_smd (seal (boot_attempt smd))"
  using smd_disk.update_attempt [OF smd_disk_intro [OF assms(1-5)] assms(6-9)] assms(10)
  by (fastforce simp: smd_info_def)


section \<open>A disk with two copies\<close>

definition demo_smd_infos :: "tegrabl_partition_info \<times> tegrabl_partition_info" where
  "demo_smd_infos = (\<lparr>part_name = ''SMD'', part_guid = '''', part_ptype_guid = '''', start_sector = 34, num_sectors = 1, total_size = 512\<rparr>,
     \<lparr>part_name = ''SMD_b'', part_guid = '''', part_ptype_guid = '''', start_sector = 35, num_sectors = 1, total_size = 512\<rparr>)"

definition demo_smd_env :: "bytes sata_state partition_env" where
  "demo_smd_env = demo_part_env\<lparr>storage_list := Some [\<lparr>si_bdev = 1, si_partitions = [fst demo_smd_infos, snd demo_smd_infos]\<rparr>]\<rparr>"

lemma demo_smd_parts: "smd_parts demo_smd_env 1 gpt_demo_dev demo_smd_infos"
proof -
  have names: "match_partition_name ''SMD'' ''SMD''" "\<not> match_partition_name ''SMD'' ''SMD_b''" "match_partition_name ''SMD_b'' ''SMD_b''"
    by code_simp+
  have "tegrabl_blockdev_get_storage_type (Some gpt_demo_dev) \<noteq> 3"
    by (simp add: tegrabl_blockdev_get_storage_type_def gpt_demo_dev_def sata_user_dev_def sata_fill_hooks_def zero_bdev_def demo_ctx_def) code_simp
  then show ?thesis
    by (simp add: smd_parts_def demo_smd_env_def demo_part_env_def demo_smd_infos_def part_range_def part_base_def demo_geometry names
        push_bit_eq_mult)
qed

interpretation demo_smd_disk: smd_disk gpt_demo_dev "demo_sectors 37 \<circ> disk" "\<lambda>_. 0x1000" "0x2000" demo_smd_env 1 demo_smd_infos
  by (rule smd_disk_intro) (simp_all add: demo_driver demo_alloc gpt_demo_size demo_smd_parts)

lemma demo_smd_wf: "wf_smd (demo_smd p q)" "unat (version (demo_smd p q) AND BOOT_CHAIN_VERSION_MASK) = 3"
  by (simp_all add: demo_smd_def wf_smd_def)

theorem smd_flush_load_witness:
  "\<exists>m1. tegrabl_a_b_flush_smd (\<lambda>_. 0x1000) (Some (0x2000, demo_smd 15 14)) demo_smd_env demo_medium = Some (Inr (), Some (0x2000, seal (demo_smd 15 14)), m1) \<and>
    (\<forall>r. map_option fst (tegrabl_a_b_get_smd (slot_info (demo_smd 15 14)) (\<lambda>_. 0x1000) 0x2000
       \<lparr>part_env = demo_smd_env, medium = m1, boot_slot_reg = r, smd_loadaddress = None\<rparr>) = Some (Inr (0x2000, seal (demo_smd 15 14))))"
  using smd_flush_load [OF demo_driver demo_alloc _ _ demo_smd_parts demo_smd_wf(1), of "0x2000" 15 14 demo_medium] by (simp add: gpt_demo_size)

theorem smd_survives_corruption_witness:
  "\<exists>m1 m2. tegrabl_a_b_flush_smd (\<lambda>_. 0x1000) (Some (0x2000, demo_smd 15 14)) demo_smd_env demo_medium =
      Some (Inr (), Some (0x2000, seal (demo_smd 15 14)), m1) \<and> (demo_sectors 37 \<circ> disk) m2 \<noteq> (demo_sectors 37 \<circ> disk) m1 \<and>
    map_option fst (tegrabl_a_b_get_smd (slot_info (demo_smd 15 14)) (\<lambda>_. 0x1000) 0x2000
       \<lparr>part_env = demo_smd_env, medium = m2, boot_slot_reg = 0, smd_loadaddress = None\<rparr>) = Some (Inr (0x2000, seal (demo_smd 15 14)))"
proof -
  let ?c = "demo_sectors 37 \<circ> disk" and ?p = "part_base gpt_demo_dev (fst demo_smd_infos) + 8"
  obtain m1 where f: "tegrabl_a_b_flush_smd (\<lambda>_. 0x1000) (Some (0x2000, demo_smd 15 14)) demo_smd_env demo_medium =
      Some (Inr (), Some (0x2000, seal (demo_smd 15 14)), m1)"
    using demo_smd_disk.flush_both [OF demo_smd_wf(1)] by blast
  let ?b = "?c m1 ! ?p + 1" and ?xs = "?c m1"
  define m2 where "m2 = m1\<lparr>disk := ?xs[?p := ?b]\<rparr>"
  have m2: "?c m2 = (?c m1)[?p := ?b]"
    unfolding m2_def by (simp add: demo_sectors_full length_demo_sectors)
  have p: "?p < length (?c m1)" by (simp add: length_demo_sectors part_base_def demo_smd_infos_def demo_geometry)
  then have "?c m2 \<noteq> ?c m1" unfolding m2 by (metis nth_list_update_eq add_left_cancel add.right_neutral zero_neq_one)
  then show ?thesis
    using smd_survives_corruption [OF demo_driver demo_alloc _ _ demo_smd_parts demo_smd_wf(1) _ f _ _ _ m2, of 0] f
    by (auto simp: gpt_demo_size demo_smd_wf)
qed

definition demo_smd_sealed :: slot_meta_data where
  "demo_smd_sealed = (demo_smd 15 14)\<lparr>smd_crc32 := tegrabl_utils_crc32 0 (encode_payload (attempt_smd (demo_smd 15 14)))\<rparr>"

lemma demo_smd_sealed: "smd_ok demo_smd_sealed" "wf_smd demo_smd_sealed" "selected_slot demo_smd_sealed = 0"
    "boot_successful (slot_info demo_smd_sealed 0) \<noteq> 0" "seal (attempt_smd demo_smd_sealed) = attempt_smd demo_smd_sealed"
proof -
  have ok: "smd_ok (demo_smd 15 14)" by (rule demo_smd_ok) simp_all
  show ok': "smd_ok demo_smd_sealed" using ok by (simp add: demo_smd_sealed_def smd_ok_def)
  show "wf_smd demo_smd_sealed" using demo_smd_wf(1) [of 15 14] by (simp add: demo_smd_sealed_def wf_smd_def)
  show s: "selected_slot demo_smd_sealed = 0"
    using selected_slot_pick(1) [OF ok'] by (simp add: pick_def priorities_def demo_smd_sealed_def demo_smd_def)
  have s0: "selected_slot (demo_smd 15 14) = 0" using selected_slot_pick(1) [OF ok] by (simp add: pick_def priorities_def demo_smd_def)
  show "boot_successful (slot_info demo_smd_sealed 0) \<noteq> 0" by (simp add: demo_smd_sealed_def demo_smd_def)
  have "attempt_smd demo_smd_sealed = (attempt_smd (demo_smd 15 14))\<lparr>smd_crc32 := smd_crc32 demo_smd_sealed\<rparr>"
    unfolding attempt_smd_def s s0 by (simp add: demo_smd_sealed_def tegrabl_a_b_check_and_update_retry_count_def)
  then show "seal (attempt_smd demo_smd_sealed) = attempt_smd demo_smd_sealed"
    by (simp add: seal_def encode_payload_def demo_smd_sealed_def)
qed

definition demo_smd_medium :: "bytes sata_state" where
  "demo_smd_medium = \<lparr>init_done = True, disk = replicate 17408 0 @ encode_smd (attempt_smd demo_smd_sealed) @ replicate 1514 0\<rparr>"

theorem update_smd_stores_attempt_witness:
  "\<exists>s. tegrabl_a_b_update_smd (slot_info (attempt_smd demo_smd_sealed)) (\<lambda>_. 0x1000) 0x2000
      \<lparr>part_env = demo_smd_env, medium = demo_smd_medium, boot_slot_reg = attempt_reg demo_smd_sealed, smd_loadaddress = None\<rparr> = Some (Inr (), s) \<and>
    boot_slot_reg s = 0"
proof -
  have w: "wf_smd (attempt_smd demo_smd_sealed)" using demo_smd_sealed(2) by (simp add: wf_smd_def attempt_smd_fields)
  have "smd_copy gpt_demo_dev (fst demo_smd_infos) ((demo_sectors 37 \<circ> disk) demo_smd_medium) = encode_smd (attempt_smd demo_smd_sealed)"
    using length_encode_smd [OF w]
    by (simp add: smd_copy_def demo_smd_medium_def demo_sectors_full part_base_def demo_smd_infos_def demo_geometry)
  then show ?thesis
    using update_smd_stores_attempt [OF demo_driver demo_alloc _ _ demo_smd_parts demo_smd_sealed(1,2) _ demo_smd_sealed(5), of "0x2000" demo_smd_medium]
      demo_smd_sealed(3,4)
    by (auto simp: gpt_demo_size)
qed

end
