(* ===== verification/Cboot_Heap.thy ===== *)
theory Cboot_Heap
  imports Cboot_Memops Cboot_Error
begin

text \<open>
  The heap of \<^verbatim>\<open>common/lib/malloc/tegrabl_malloc.c\<close>. Its state is the memory that holds the block headers, the
  heads of the free lists (one per heap type) and the sizes of the heaps; every operation of the file is a function
  on that state. \<open>None\<close> is a walk of a list that does not end. The rest of the theory is how stores to a header read
  back and what they leave alone, and what a doubly linked free list is.
\<close>


section \<open>Blocks in memory\<close>

text \<open>
  The fields of the two block headers. A free block has its magic number at offset 0, its size at 8 and the links at 16
  and 24 (32 bytes in all); an allocated block has the magic number and the size at the same places and its start at 16
  (24 bytes).
\<close>

abbreviation (input) FREE_MAGIC :: u32 where "FREE_MAGIC \<equiv> 0xDEEFBEEE"
abbreviation (input) ALLOC_MAGIC :: u32 where "ALLOC_MAGIC \<equiv> 0xDEADBEEE"

definition block_magic :: "mem \<Rightarrow> u64 \<Rightarrow> u32" where "block_magic m p = le_word (load_bytes m p 4)"
definition block_size :: "mem \<Rightarrow> u64 \<Rightarrow> u64" where "block_size m p = le_word (load_bytes m (p + 8) 8)"
definition block_prev :: "mem \<Rightarrow> u64 \<Rightarrow> u64" where "block_prev m p = le_word (load_bytes m (p + 16) 8)"
definition block_next :: "mem \<Rightarrow> u64 \<Rightarrow> u64" where "block_next m p = le_word (load_bytes m (p + 24) 8)"
abbreviation block_start :: "mem \<Rightarrow> u64 \<Rightarrow> u64" where "block_start \<equiv> block_prev"

definition set_magic :: "u64 \<Rightarrow> u32 \<Rightarrow> mem \<Rightarrow> mem" where "set_magic p v m = store_bytes m p (le_bytes 4 v)"
definition set_size :: "u64 \<Rightarrow> u64 \<Rightarrow> mem \<Rightarrow> mem" where "set_size p v m = store_bytes m (p + 8) (le_bytes 8 v)"
definition set_prev :: "u64 \<Rightarrow> u64 \<Rightarrow> mem \<Rightarrow> mem" where "set_prev p v m = store_bytes m (p + 16) (le_bytes 8 v)"
definition set_next :: "u64 \<Rightarrow> u64 \<Rightarrow> mem \<Rightarrow> mem" where "set_next p v m = store_bytes m (p + 24) (le_bytes 8 v)"
abbreviation set_start :: "u64 \<Rightarrow> u64 \<Rightarrow> mem \<Rightarrow> mem" where "set_start \<equiv> set_prev"

text \<open>The assignments to a neighbour are made when there is one.\<close>

definition link_next :: "u64 \<Rightarrow> u64 \<Rightarrow> mem \<Rightarrow> mem" where "link_next p v m = (if p \<noteq> 0 then set_next p v m else m)"
definition link_prev :: "u64 \<Rightarrow> u64 \<Rightarrow> mem \<Rightarrow> mem" where "link_prev p v m = (if p \<noteq> 0 then set_prev p v m else m)"

record tegrabl_heap =
  hmem :: mem
  free_list :: "u32 \<Rightarrow> u64"
  max_heap_size :: "u32 \<Rightarrow> u64"

definition heap_error :: "u8 \<Rightarrow> u32 \<Rightarrow> tegrabl_error_t" where
  "heap_error aux reason = tegrabl_error_value MOD_HEAP aux reason"


section \<open>Allocation\<close>

definition tegrabl_heap_init :: "u32 \<Rightarrow> u64 \<Rightarrow> u64 \<Rightarrow> tegrabl_heap \<Rightarrow> tegrabl_error_t \<times> tegrabl_heap" where
  "tegrabl_heap_init heap_type start sz h =
     (if sz < 32 then (heap_error 0 ERR_TOO_SMALL, h)
      else if heap_type \<ge> 2 then (heap_error 0 ERR_INVALID, h)
      else if free_list h heap_type \<noteq> 0 then (heap_error 0 ERR_ALREADY_EXISTS, h)
      else let m1 = set_prev start 0 (hmem h); m2 = set_next start 0 m1; m3 = set_size start sz m2; m4 = set_magic start FREE_MAGIC m3
           in (TEGRABL_NO_ERROR, h\<lparr>hmem := m4, free_list := (free_list h)(heap_type := start),
                                   max_heap_size := (max_heap_size h)(heap_type := sz)\<rparr>))"

definition replace_head :: "u64 \<Rightarrow> u64 \<Rightarrow> (u32 \<Rightarrow> u64) \<Rightarrow> u32 \<Rightarrow> u64" where
  "replace_head old new fl = (if old = fl 0 then fl(0 := new) else if old = fl 1 then fl(1 := new) else fl)"

definition tegrabl_heap_split_block :: "u64 \<Rightarrow> u64 \<Rightarrow> tegrabl_heap \<Rightarrow> u64 \<times> tegrabl_heap" where
  "tegrabl_heap_split_block free_block sz h =
     (if free_block = 0 then (0, h)
      else let m = hmem h; remaining_size = block_size m free_block - sz
           in if remaining_size \<le> 32
              then let m1 = link_prev (block_next m free_block) (block_prev m free_block) m;
                       m2 = link_next (block_prev m1 free_block) (block_next m1 free_block) m1
                   in (free_block, h\<lparr>hmem := m2, free_list := replace_head free_block (block_next m free_block) (free_list h)\<rparr>)
              else let new_free = free_block + sz;
                       m1 = set_prev new_free (block_prev m free_block) m;
                       m2 = set_next new_free (block_next m1 free_block) m1;
                       m3 = link_next (block_prev m2 new_free) new_free m2;
                       m4 = link_prev (block_next m3 new_free) new_free m3;
                       m5 = set_size new_free remaining_size m4;
                       m6 = set_magic new_free FREE_MAGIC m5;
                       m7 = set_size free_block sz m6
                   in (free_block, h\<lparr>hmem := m7, free_list := replace_head free_block new_free (free_list h)\<rparr>))"

text \<open>The search of the free list; on a list that does not end it does not end either.\<close>

partial_function (option) first_fit :: "mem \<Rightarrow> u64 \<Rightarrow> u64 \<Rightarrow> u64 option" where
  "first_fit m alloc_size free_block =
     (if free_block = 0 then Some 0
      else if block_size m free_block > alloc_size then Some free_block
      else first_fit m alloc_size (block_next m free_block))"

definition malloc_size :: "u64 \<Rightarrow> u64" where
  "malloc_size sz = ROUND_UP sz 8 + 24"

definition tegrabl_generic_malloc :: "u64 \<Rightarrow> u64 \<Rightarrow> tegrabl_heap \<Rightarrow> (u64 \<times> tegrabl_heap) option" where
  "tegrabl_generic_malloc fl sz h =
     (if sz = 0 then Some (0, h)
      else if malloc_size sz < sz then Some (0, h)
      else let alloc_size = MAX64 (malloc_size sz) 32
           in case first_fit (hmem h) alloc_size fl of
                None \<Rightarrow> None
              | Some free_block \<Rightarrow>
                  if free_block = 0 then Some (0, h)
                  else let (alloc_block, h1) = tegrabl_heap_split_block free_block alloc_size h;
                           m1 = set_start alloc_block alloc_block (hmem h1);
                           m2 = set_magic alloc_block ALLOC_MAGIC m1
                       in Some (alloc_block + 24, h1\<lparr>hmem := m2\<rparr>))"

definition tegrabl_malloc :: "u64 \<Rightarrow> tegrabl_heap \<Rightarrow> (u64 \<times> tegrabl_heap) option" where
  "tegrabl_malloc sz h = (if sz > max_heap_size h 0 then Some (0, h) else tegrabl_generic_malloc (free_list h 0) sz h)"

definition tegrabl_alloc :: "u32 \<Rightarrow> u64 \<Rightarrow> tegrabl_heap \<Rightarrow> (u64 \<times> tegrabl_heap) option" where
  "tegrabl_alloc heap_type sz h =
     (if heap_type = 1 \<and> free_list h 1 \<noteq> 0
      then if sz > max_heap_size h 1 then Some (0, h) else tegrabl_generic_malloc (free_list h 1) sz h
      else tegrabl_malloc sz h)"


section \<open>Release\<close>

definition tegrabl_heap_merge_blocks :: "u64 \<Rightarrow> mem \<Rightarrow> u64 \<times> mem" where
  "tegrabl_heap_merge_blocks free_block m =
     (if free_block = 0 then (0, m)
      else let nxt = block_next m free_block; prv = block_prev m free_block;
               m1 = (if nxt \<noteq> 0 \<and> free_block + block_size m free_block = nxt
                     then let a = set_size free_block (block_size m free_block + block_size m nxt) m;
                              b = set_next free_block (block_next a nxt) a
                          in link_prev (block_next b nxt) free_block b
                     else m)
           in if prv \<noteq> 0 \<and> prv + block_size m1 prv = free_block
              then let a = set_size prv (block_size m1 prv + block_size m1 free_block) m1;
                       b = set_next prv (block_next a free_block) a
                   in (prv, link_prev (block_next b free_block) prv b)
              else (free_block, m1))"

partial_function (option) free_walk :: "mem \<Rightarrow> u64 \<Rightarrow> u64 \<Rightarrow> u64 \<Rightarrow> (u64 \<times> u64) option" where
  "free_walk m ptr prev_block free_block =
     (if free_block \<noteq> 0 \<and> ptr > free_block then free_walk m ptr free_block (block_next m free_block)
      else Some (prev_block, free_block))"

partial_function (option) merge_loop :: "u64 \<Rightarrow> mem \<Rightarrow> (u64 \<times> mem) option" where
  "merge_loop tmp_free m =
     (let (free_block, m1) = tegrabl_heap_merge_blocks tmp_free m
      in if free_block = tmp_free then Some (tmp_free, m1) else merge_loop free_block m1)"

text \<open>A block without the magic number sends the code into an endless loop, \<open>None\<close>.\<close>

definition tegrabl_generic_free :: "u64 \<Rightarrow> u64 \<Rightarrow> mem \<Rightarrow> (u64 \<times> mem) option" where
  "tegrabl_generic_free fl ptr m =
     (if ptr = 0 then Some (0, m)
      else let alloc_block = ptr - 24
           in if block_magic m alloc_block \<noteq> ALLOC_MAGIC then None
              else let tmp_free = block_start m alloc_block;
                       m1 = set_size tmp_free (block_size m alloc_block) m
                   in case free_walk m1 ptr 0 fl of
                        None \<Rightarrow> None
                      | Some (prev_block, free_block) \<Rightarrow>
                          let m2 = link_next prev_block tmp_free m1;
                              m3 = set_prev tmp_free prev_block m2;
                              m4 = set_next tmp_free free_block m3;
                              m5 = set_magic tmp_free FREE_MAGIC m4;
                              m6 = link_prev free_block tmp_free m5
                          in merge_loop tmp_free m6)"

definition lower_head :: "u32 \<Rightarrow> u64 \<Rightarrow> (u32 \<Rightarrow> u64) \<Rightarrow> u32 \<Rightarrow> u64" where
  "lower_head heap_type p fl = (if fl heap_type = 0 \<or> fl heap_type > p then fl(heap_type := p) else fl)"

definition tegrabl_dealloc :: "u32 \<Rightarrow> u64 \<Rightarrow> tegrabl_heap \<Rightarrow> tegrabl_heap option" where
  "tegrabl_dealloc heap_type ptr h =
     (let t = (if heap_type = 1 \<and> free_list h 1 \<noteq> 0 then 1 else 0)
      in case tegrabl_generic_free (free_list h t) ptr (hmem h) of
           None \<Rightarrow> None
         | Some (tmp_free, m1) \<Rightarrow>
             if tmp_free = 0 then Some (h\<lparr>hmem := m1\<rparr>)
             else Some (h\<lparr>hmem := m1, free_list := lower_head t tmp_free (free_list h)\<rparr>))"

definition tegrabl_free :: "u64 \<Rightarrow> tegrabl_heap \<Rightarrow> tegrabl_heap option" where
  "tegrabl_free ptr h = tegrabl_dealloc 0 ptr h"

definition tegrabl_calloc :: "clib_dma \<Rightarrow> u64 \<Rightarrow> u64 \<Rightarrow> tegrabl_heap \<Rightarrow> (u64 \<times> tegrabl_heap) option" where
  "tegrabl_calloc dma nmemb sz h =
     (if sz = 0 then Some (0, h)
      else if nmemb > max_heap_size h 0 div sz then Some (0, h)
      else map_option (\<lambda>(mem, h1). if mem \<noteq> 0 then (mem, h1\<lparr>hmem := snd (memset dma mem 0 (sz * nmemb) (hmem h1))\<rparr>) else (mem, h1))
             (tegrabl_malloc (sz * nmemb) h))"


section \<open>Aligned allocation\<close>

definition is_size_alignment_valid :: "u32 \<Rightarrow> u64 \<Rightarrow> u64 \<Rightarrow> tegrabl_heap \<Rightarrow> bool" where
  "is_size_alignment_valid heap_type alignment sz h \<longleftrightarrow>
     (let max_size = sz + alignment
      in \<not> sz > max_heap_size h heap_type \<and> \<not> alignment > max_heap_size h heap_type \<and> \<not> max_size > max_heap_size h heap_type \<and>
         \<not> max_size < sz \<and> \<not> max_size < alignment)"

definition align_gap :: "u64 \<Rightarrow> u64 \<Rightarrow> u64" where
  "align_gap alignment free_block = alignment - (free_block + 24) mod alignment"

partial_function (option) aligned_fit :: "mem \<Rightarrow> u64 \<Rightarrow> u64 \<Rightarrow> u64 \<Rightarrow> u64 option" where
  "aligned_fit m alignment alloc_size free_block =
     (if free_block = 0 then Some 0
      else if block_size m free_block < alloc_size then aligned_fit m alignment alloc_size (block_next m free_block)
      else if align_gap alignment free_block + alloc_size > block_size m free_block
      then aligned_fit m alignment alloc_size (block_next m free_block)
      else Some free_block)"

definition give_back ::
  "u32 \<Rightarrow> u64 \<Rightarrow> u64 \<Rightarrow> u64 \<Rightarrow> u64 \<Rightarrow> u64 \<Rightarrow> tegrabl_heap \<Rightarrow> tegrabl_heap" where
  "give_back heap_type free_block prev_block next_block align_size alloc_size h =
     (let alloc_block = free_block + align_size;
          nxt = (if prev_block = 0 \<and> next_block = 0 then free_list h heap_type
                 else if next_block = 0 then block_next (hmem h) prev_block
                 else if block_prev (hmem h) next_block \<noteq> prev_block then block_prev (hmem h) next_block
                 else next_block);
          m1 = set_size alloc_block alloc_size (hmem h); m2 = set_start alloc_block alloc_block m1;
          m3 = set_next free_block nxt m2; m4 = set_prev free_block prev_block m3;
          m5 = set_size free_block align_size m4; m6 = set_magic free_block FREE_MAGIC m5;
          m7 = link_prev nxt free_block m6; m8 = link_next prev_block free_block m7
      in h\<lparr>hmem := m8, free_list := lower_head heap_type free_block (free_list h)\<rparr>)"

definition tegrabl_memalign_generic :: "u32 \<Rightarrow> u64 \<Rightarrow> u64 \<Rightarrow> tegrabl_heap \<Rightarrow> (u64 \<times> tegrabl_heap) option" where
  "tegrabl_memalign_generic heap_type alignment sz h =
     (if sz = 0 then Some (0, h)
      else if \<not> is_size_alignment_valid heap_type alignment sz h then Some (0, h)
      else let alloc_size = MAX64 (ROUND_UP sz 8 + 24) 32
           in case aligned_fit (hmem h) alignment alloc_size (free_list h heap_type) of
                None \<Rightarrow> None
              | Some free_block \<Rightarrow>
                  if free_block = 0 then Some (0, h)
                  else let align_size = align_gap alignment free_block;
                           prev_block = block_prev (hmem h) free_block;
                           next_block = block_next (hmem h) free_block;
                           (ptr, h1) = tegrabl_heap_split_block free_block (alloc_size + align_size) h;
                           m1 = set_start ptr ptr (hmem h1);
                           orig_size = block_size m1 ptr;
                           alloc_block = ptr + align_size;
                           m2 = set_size alloc_block orig_size m1;
                           m3 = set_magic alloc_block ALLOC_MAGIC m2;
                           m4 = set_start alloc_block ptr m3;
                           h2 = h1\<lparr>hmem := m4\<rparr>
                       in Some (ptr + 24 + align_size,
                                if align_size < 32 then h2
                                else give_back heap_type free_block prev_block next_block align_size alloc_size h2))"

definition tegrabl_alloc_align :: "u32 \<Rightarrow> u64 \<Rightarrow> u64 \<Rightarrow> tegrabl_heap \<Rightarrow> (u64 \<times> tegrabl_heap) option" where
  "tegrabl_alloc_align heap_type alignment sz h =
     (if heap_type = 1 \<and> free_list h 1 \<noteq> 0 then tegrabl_memalign_generic 1 alignment sz h
      else tegrabl_memalign_generic 0 alignment sz h)"

definition tegrabl_memalign :: "u64 \<Rightarrow> u64 \<Rightarrow> tegrabl_heap \<Rightarrow> (u64 \<times> tegrabl_heap) option" where
  "tegrabl_memalign alignment sz h = tegrabl_memalign_generic 0 alignment sz h"


section \<open>Reading back header fields\<close>

definition apart :: "u64 \<Rightarrow> u64 \<Rightarrow> bool" where
  "apart p q \<longleftrightarrow> 32 \<le> unat (q - p) \<and> 32 \<le> unat (p - q)"

lemma apart_sym: "apart p q \<Longrightarrow> apart q p"
  by (simp add: apart_def)

lemma unat_uminus64: "x \<noteq> 0 \<Longrightarrow> unat (- x :: u64) = 2 ^ 64 - unat x"
  using unat_sub_flip [of 0 x] by simp

lemma unat_neg_ge:
  fixes p q :: u64
  assumes "32 \<le> unat (q - p)" "32 \<le> unat (p - q)"
  shows "unat (q - p) \<le> 2 ^ 64 - 32"
proof -
  have "q \<noteq> p" using assms(2) by auto
  then have "unat (q - p) = 2 ^ 64 - unat (p - q)" by (rule unat_sub_flip)
  with assms(2) show ?thesis by simp
qed

lemma load_store_far:
  assumes "apart p q" "i + length bs \<le> 32" "j + n \<le> 32"
  shows "load_bytes (store_bytes m (p + of_nat i) bs) (q + of_nat j) n = load_bytes m (q + of_nat j) n"
proof (rule nth_equalityI)
  fix t
  assume "t < length (load_bytes (store_bytes m (p + of_nat i) bs) (q + of_nat j) n)"
  then have t: "t < n" by simp
  define d where "d = unat (q - p)"
  have d: "32 \<le> d" "d \<le> 2 ^ 64 - 32" using assms(1) unat_neg_ge by (auto simp: apart_def d_def)
  have "q + of_nat j + of_nat t - (p + of_nat i) = of_nat d + of_nat (j + t) - of_nat i" by (simp add: d_def)
  also have "\<dots> = of_nat (d + (j + t) - i)" using d assms by (simp add: of_nat_diff)
  finally have e: "q + of_nat j + of_nat t - (p + of_nat i) = of_nat (d + (j + t) - i)" .
  have "unat (q + of_nat j + of_nat t - (p + of_nat i)) = d + (j + t) - i"
    unfolding e using d assms(2,3) t by (intro unat_of_nat64) simp
  then have "length bs \<le> unat (q + of_nat j + of_nat t - (p + of_nat i))" using d assms t by simp
  then show "load_bytes (store_bytes m (p + of_nat i) bs) (q + of_nat j) n ! t = load_bytes m (q + of_nat j) n ! t"
    using t by (simp add: store_bytes_def)
qed simp

lemma load_store_near:
  assumes "i + length bs \<le> j \<or> j + n \<le> i" "i + length bs \<le> 32" "j + n \<le> 32"
  shows "load_bytes (store_bytes m (p + of_nat i) bs) (p + of_nat j) n = load_bytes m (p + of_nat j) n"
proof (rule nth_equalityI)
  fix t
  assume "t < length (load_bytes (store_bytes m (p + of_nat i) bs) (p + of_nat j) n)"
  then have t: "t < n" by simp
  have "length bs \<le> unat (p + of_nat j + of_nat t - (p + of_nat i))"
  proof (cases "i + length bs \<le> j")
    case True
    then have e: "p + of_nat j + of_nat t - (p + of_nat i) = of_nat (j + t - i)" by (simp add: of_nat_diff)
    have "unat (of_nat (j + t - i) :: u64) = j + t - i" using assms(3) t by (intro unat_of_nat64) simp
    with True show ?thesis unfolding e by linarith
  next
    case False
    with assms(1) t have lt: "j + t < i" by simp
    then have e: "p + of_nat j + of_nat t - (p + of_nat i) = - of_nat (i - (j + t))" by (simp add: of_nat_diff)
    have u: "unat (of_nat (i - (j + t)) :: u64) = i - (j + t)" using assms(2) lt by (intro unat_of_nat64) simp
    then have "(of_nat (i - (j + t)) :: u64) \<noteq> 0" using lt by auto
    then have v: "unat (- of_nat (i - (j + t)) :: u64) = 2 ^ 64 - (i - (j + t))" by (simp only: unat_uminus64 u not_False_eq_True)
    show ?thesis unfolding e v using assms(2) by simp
  qed
  then show "load_bytes (store_bytes m (p + of_nat i) bs) (p + of_nat j) n ! t = load_bytes m (p + of_nat j) n ! t"
    using t by (simp add: store_bytes_def)
qed simp

lemmas block_get_defs = block_magic_def block_size_def block_prev_def block_next_def
lemmas block_set_defs = set_magic_def set_size_def set_prev_def set_next_def

lemma block_same [simp]:
  "block_magic (set_magic p v m) p = v" "block_size (set_size p w m) p = w"
  "block_prev (set_prev p w m) p = w" "block_next (set_next p w m) p = w"
  using load_store_bytes [of "le_bytes 4 v" m p] load_store_bytes [of "le_bytes 8 w" m]
  by (simp_all add: block_get_defs block_set_defs)

lemma block_near [simp]:
  "block_magic (set_size p w m) p = block_magic m p" "block_magic (set_prev p w m) p = block_magic m p"
  "block_magic (set_next p w m) p = block_magic m p" "block_size (set_magic p v m) p = block_size m p"
  "block_size (set_prev p w m) p = block_size m p" "block_size (set_next p w m) p = block_size m p"
  "block_prev (set_magic p v m) p = block_prev m p" "block_prev (set_size p w m) p = block_prev m p"
  "block_prev (set_next p w m) p = block_prev m p" "block_next (set_magic p v m) p = block_next m p"
  "block_next (set_size p w m) p = block_next m p" "block_next (set_prev p w m) p = block_next m p"
  using load_store_near [of 8 "le_bytes 8 w" 0 4 m p] load_store_near [of 16 "le_bytes 8 w" 0 4 m p]
    load_store_near [of 24 "le_bytes 8 w" 0 4 m p] load_store_near [of 0 "le_bytes 4 v" 8 8 m p]
    load_store_near [of 16 "le_bytes 8 w" 8 8 m p] load_store_near [of 24 "le_bytes 8 w" 8 8 m p]
    load_store_near [of 0 "le_bytes 4 v" 16 8 m p] load_store_near [of 8 "le_bytes 8 w" 16 8 m p]
    load_store_near [of 24 "le_bytes 8 w" 16 8 m p] load_store_near [of 0 "le_bytes 4 v" 24 8 m p]
    load_store_near [of 8 "le_bytes 8 w" 24 8 m p] load_store_near [of 16 "le_bytes 8 w" 24 8 m p]
  by (simp_all add: block_get_defs block_set_defs)

lemma block_far:
  assumes "apart p q"
  shows "block_magic (set_magic p v m) q = block_magic m q" "block_magic (set_size p w m) q = block_magic m q"
    "block_magic (set_prev p w m) q = block_magic m q" "block_magic (set_next p w m) q = block_magic m q"
    "block_size (set_magic p v m) q = block_size m q" "block_size (set_size p w m) q = block_size m q"
    "block_size (set_prev p w m) q = block_size m q" "block_size (set_next p w m) q = block_size m q"
    "block_prev (set_magic p v m) q = block_prev m q" "block_prev (set_size p w m) q = block_prev m q"
    "block_prev (set_prev p w m) q = block_prev m q" "block_prev (set_next p w m) q = block_prev m q"
    "block_next (set_magic p v m) q = block_next m q" "block_next (set_size p w m) q = block_next m q"
    "block_next (set_prev p w m) q = block_next m q" "block_next (set_next p w m) q = block_next m q"
  using load_store_far [OF assms, of 0 "le_bytes 4 v" 0 4 m] load_store_far [OF assms, of 8 "le_bytes 8 w" 0 4 m]
    load_store_far [OF assms, of 16 "le_bytes 8 w" 0 4 m] load_store_far [OF assms, of 24 "le_bytes 8 w" 0 4 m]
    load_store_far [OF assms, of 0 "le_bytes 4 v" 8 8 m] load_store_far [OF assms, of 8 "le_bytes 8 w" 8 8 m]
    load_store_far [OF assms, of 16 "le_bytes 8 w" 8 8 m] load_store_far [OF assms, of 24 "le_bytes 8 w" 8 8 m]
    load_store_far [OF assms, of 0 "le_bytes 4 v" 16 8 m] load_store_far [OF assms, of 8 "le_bytes 8 w" 16 8 m]
    load_store_far [OF assms, of 16 "le_bytes 8 w" 16 8 m] load_store_far [OF assms, of 24 "le_bytes 8 w" 16 8 m]
    load_store_far [OF assms, of 0 "le_bytes 4 v" 24 8 m] load_store_far [OF assms, of 8 "le_bytes 8 w" 24 8 m]
    load_store_far [OF assms, of 16 "le_bytes 8 w" 24 8 m] load_store_far [OF assms, of 24 "le_bytes 8 w" 24 8 m]
  by (simp_all add: block_get_defs block_set_defs)

lemma byte_far:
  assumes "32 \<le> unat (x - p)"
  shows "set_magic p v m x = m x" "set_size p w m x = m x" "set_prev p w m x = m x" "set_next p w m x = m x"
proof -
  have "k \<le> unat (x - (p + of_nat i))" if "i + k \<le> 32" for i k
  proof -
    have "x - (p + of_nat i) = of_nat (unat (x - p)) - of_nat i" by simp
    also have "\<dots> = of_nat (unat (x - p) - i)" using assms that by (subst of_nat_diff) simp_all
    finally have e: "x - (p + of_nat i) = of_nat (unat (x - p) - i)" .
    have "unat (x - (p + of_nat i)) = unat (x - p) - i" unfolding e using unat_lt64 [of "x - p"] by (intro unat_of_nat64) simp
    with assms that show ?thesis by simp
  qed
  from this [of 0 4] this [of 8 8] this [of 16 8] this [of 24 8]
  show "set_magic p v m x = m x" "set_size p w m x = m x" "set_prev p w m x = m x" "set_next p w m x = m x"
    by (simp_all add: block_set_defs store_bytes_def)
qed


section \<open>Which bytes an operation touches\<close>

definition touches :: "u64 set \<Rightarrow> mem \<Rightarrow> mem \<Rightarrow> bool" where
  "touches T m m' \<longleftrightarrow> (\<forall>x. (\<forall>t \<in> T. 32 \<le> unat (x - t)) \<longrightarrow> m' x = m x)"

lemma touches_refl: "touches T m m"
  by (simp add: touches_def)

lemma touches_set:
  assumes "touches T m m'" "p \<in> T"
  shows "touches T m (set_magic p v m')" "touches T m (set_size p w m')" "touches T m (set_prev p w m')" "touches T m (set_next p w m')"
  using assms by (simp_all add: touches_def byte_far)

lemma touches_link:
  assumes "touches T m m'" "p = 0 \<or> p \<in> T"
  shows "touches T m (link_prev p w m')" "touches T m (link_next p w m')"
  using assms touches_set [OF assms(1), of p] by (auto simp: link_prev_def link_next_def)

lemma apart_offset:
  assumes "apart t p" "i < 32"
  shows "32 \<le> unat (p + of_nat i - t)"
proof -
  define d where "d = unat (p - t)"
  have d: "32 \<le> d" "d \<le> 2 ^ 64 - 32" using assms(1) unat_neg_ge by (auto simp: apart_def d_def)
  have e: "p + of_nat i - t = of_nat (d + i)" by (simp add: d_def)
  have "unat (of_nat (d + i) :: u64) = d + i" using d assms(2) by (intro unat_of_nat64) simp
  then show ?thesis unfolding e using d by linarith
qed

lemma touches_get:
  assumes "touches T m m'" "\<forall>t \<in> T. apart t p"
  shows "block_magic m' p = block_magic m p" "block_size m' p = block_size m p"
    "block_prev m' p = block_prev m p" "block_next m' p = block_next m p"
proof -
  have b: "m' (p + of_nat i) = m (p + of_nat i)" if "i < 32" for i
    using assms apart_offset [OF _ that] by (auto simp: touches_def)
  have l: "load_bytes m' (p + of_nat j) n = load_bytes m (p + of_nat j) n" if "j + n \<le> 32" for j n
    by (rule nth_equalityI) (use that b [of "j + _"] in \<open>auto simp: add.assoc\<close>)
  show "block_magic m' p = block_magic m p" using l [of 0 4] by (simp add: block_magic_def)
  show "block_size m' p = block_size m p" using l [of 8 8] by (simp add: block_size_def)
  show "block_prev m' p = block_prev m p" using l [of 16 8] by (simp add: block_prev_def)
  show "block_next m' p = block_next m p" using l [of 24 8] by (simp add: block_next_def)
qed

lemma get_set:
  assumes "q = p \<or> apart p q"
  shows "block_magic (set_magic p v m) q = (if q = p then v else block_magic m q)" "block_magic (set_size p w m) q = block_magic m q"
    "block_magic (set_prev p w m) q = block_magic m q" "block_magic (set_next p w m) q = block_magic m q"
    "block_size (set_magic p v m) q = block_size m q" "block_size (set_size p w m) q = (if q = p then w else block_size m q)"
    "block_size (set_prev p w m) q = block_size m q" "block_size (set_next p w m) q = block_size m q"
    "block_prev (set_magic p v m) q = block_prev m q" "block_prev (set_size p w m) q = block_prev m q"
    "block_prev (set_prev p w m) q = (if q = p then w else block_prev m q)" "block_prev (set_next p w m) q = block_prev m q"
    "block_next (set_magic p v m) q = block_next m q" "block_next (set_size p w m) q = block_next m q"
    "block_next (set_prev p w m) q = block_next m q" "block_next (set_next p w m) q = (if q = p then w else block_next m q)"
  using assms by (auto simp: block_far)

lemma get_link:
  assumes "p = 0 \<or> q = p \<or> apart p q"
  shows "block_magic (link_prev p w m) q = block_magic m q" "block_magic (link_next p w m) q = block_magic m q"
    "block_size (link_prev p w m) q = block_size m q" "block_size (link_next p w m) q = block_size m q"
    "block_prev (link_prev p w m) q = (if p \<noteq> 0 \<and> q = p then w else block_prev m q)" "block_prev (link_next p w m) q = block_prev m q"
    "block_next (link_prev p w m) q = block_next m q" "block_next (link_next p w m) q = (if p \<noteq> 0 \<and> q = p then w else block_next m q)"
  using assms by (auto simp: link_prev_def link_next_def get_set)


section \<open>Doubly linked lists\<close>

fun linked :: "mem \<Rightarrow> u64 \<Rightarrow> u64 list \<Rightarrow> u64 \<Rightarrow> bool" where
  "linked m p [] n = True"
| "linked m p (a # xs) n = (a \<noteq> 0 \<and> block_prev m a = p \<and> block_next m a = hd (xs @ [n]) \<and> linked m a xs n)"

lemma linked_append:
  "linked m p (xs @ ys) n \<longleftrightarrow> linked m p xs (hd (ys @ [n])) \<and> linked m (last (p # xs)) ys n"
  by (induction xs arbitrary: p) (auto simp: hd_append)

lemma linked_nonzero: "linked m p xs n \<Longrightarrow> 0 \<notin> set xs"
  by (induction xs arbitrary: p) auto

lemma linked_cong:
  assumes "\<And>a. a \<in> set xs \<Longrightarrow> block_prev m' a = block_prev m a \<and> block_next m' a = block_next m a"
  shows "linked m' p xs n = linked m p xs n"
  using assms by (induction xs arbitrary: p) auto

lemma linked_prefix:
  assumes "linked m p xs n" "\<And>a. a \<in> set xs \<Longrightarrow> block_prev m' a = block_prev m a"
    and "\<And>a. a \<in> set (butlast xs) \<Longrightarrow> block_next m' a = block_next m a" "xs \<noteq> [] \<Longrightarrow> block_next m' (last xs) = n'"
  shows "linked m' p xs n'"
proof (cases xs rule: rev_cases)
  case (snoc zs z)
  have "linked m' p zs z = linked m p zs z" using assms(2,3) snoc by (intro linked_cong) auto
  then show ?thesis using assms snoc by (simp add: linked_append)
qed simp

lemma linked_suffix:
  assumes "linked m p ys n" "\<And>a. a \<in> set ys \<Longrightarrow> block_next m' a = block_next m a"
    and "\<And>a. a \<in> set (tl ys) \<Longrightarrow> block_prev m' a = block_prev m a" "ys \<noteq> [] \<Longrightarrow> block_prev m' (hd ys) = p'"
  shows "linked m' p' ys n"
proof (cases ys)
  case (Cons y zs)
  have "linked m' y zs n = linked m y zs n" using assms(2,3) Cons by (intro linked_cong) auto
  then show ?thesis using assms Cons by simp
qed simp

text \<open>Replacing the middle of a list: what must hold of the neighbours.\<close>

lemma linked_middle:
  assumes "linked m 0 (xs @ zs @ ys) 0" "linked m' (last (0 # xs)) zs' (hd (ys @ [0]))"
    and "\<And>a. a \<in> set xs \<Longrightarrow> block_prev m' a = block_prev m a" "\<And>a. a \<in> set (butlast xs) \<Longrightarrow> block_next m' a = block_next m a"
    and "\<And>a. a \<in> set ys \<Longrightarrow> block_next m' a = block_next m a" "\<And>a. a \<in> set (tl ys) \<Longrightarrow> block_prev m' a = block_prev m a"
    and "xs \<noteq> [] \<Longrightarrow> block_next m' (last xs) = hd (zs' @ ys @ [0])" "ys \<noteq> [] \<Longrightarrow> block_prev m' (hd ys) = last (0 # xs @ zs')"
  shows "linked m' 0 (xs @ zs' @ ys) 0"
proof -
  have x: "linked m 0 xs (hd (zs @ ys @ [0]))" and y: "linked m (last (last (0 # xs) # zs)) ys 0"
    using assms(1) by (simp_all only: linked_append append_assoc)
  have "linked m' 0 xs (hd (zs' @ ys @ [0]))" by (rule linked_prefix [OF x assms(3,4,7)])
  moreover have "linked m' (last (last (0 # xs) # zs')) ys 0"
    by (rule linked_suffix [OF y assms(5,6)]) (use assms(8) in \<open>auto simp: last_append\<close>)
  ultimately show ?thesis using assms(2) by (simp only: linked_append append_assoc simp_thms)
qed

end
