(* ===== verification/Cboot_Heapblocks.thy ===== *)
theory Cboot_Heapblocks
  imports Cboot_Heap
begin

text \<open>
  The heap as a sequence of blocks, back to back: free ones, used ones and lost ones. \<open>core\<close> says that a memory and a
  free list represent such a sequence; the locale \<open>heap_at\<close> is a position in it, and its lemmas say what the writes of
  the allocator to the blocks there and to their neighbours in the list do to the whole (splitting, claiming).
\<close>


section \<open>The heap as a sequence of blocks\<close>

text \<open>
  The abstract heap: the blocks from the lowest address on, back to back. A used block has its header at an offset
  from its start (aligned allocation); a lost one belongs to nobody (the rest that aligned allocation does not return,
  and blocks in the middle of an operation).
\<close>

datatype block = Free nat | Used nat nat | Lost nat

fun bsize :: "block \<Rightarrow> nat" where
  "bsize (Free s) = s" | "bsize (Used off s) = s" | "bsize (Lost s) = s"

definition extent :: "block list \<Rightarrow> nat" where
  "extent bs = sum_list (map bsize bs)"

fun wf_block :: "block \<Rightarrow> bool" where
  "wf_block (Free s) \<longleftrightarrow> 32 \<le> s" | "wf_block (Used off s) \<longleftrightarrow> off + 32 \<le> s" | "wf_block (Lost s) \<longleftrightarrow> 0 < s"

fun frees :: "nat \<Rightarrow> block list \<Rightarrow> (nat \<times> nat) list" where
  "frees lo [] = []"
| "frees lo (Free s # bs) = (lo, s) # frees (lo + s) bs"
| "frees lo (b # bs) = frees (lo + bsize b) bs"

fun useds :: "nat \<Rightarrow> block list \<Rightarrow> (nat \<times> nat \<times> nat) list" where
  "useds lo [] = []"
| "useds lo (Used off s # bs) = (lo, off, s) # useds (lo + s) bs"
| "useds lo (b # bs) = useds (lo + bsize b) bs"

abbreviation W :: "nat \<Rightarrow> u64" where "W \<equiv> of_nat"

definition nodes :: "nat \<Rightarrow> block list \<Rightarrow> u64 list" where
  "nodes lo bs = map (W \<circ> fst) (frees lo bs)"

lemma extent_simps [simp]: "extent [] = 0" "extent (b # bs) = bsize b + extent bs" "extent (xs @ ys) = extent xs + extent ys"
  by (simp_all add: extent_def)

lemma frees_append: "frees lo (xs @ ys) = frees lo xs @ frees (lo + extent xs) ys"
proof (induction xs arbitrary: lo)
  case (Cons b xs)
  then show ?case by (cases b) (simp_all add: add.assoc)
qed simp

lemma useds_append: "useds lo (xs @ ys) = useds lo xs @ useds (lo + extent xs) ys"
proof (induction xs arbitrary: lo)
  case (Cons b xs)
  then show ?case by (cases b) (simp_all add: add.assoc)
qed simp

lemma nodes_append: "nodes lo (xs @ ys) = nodes lo xs @ nodes (lo + extent xs) ys"
  by (simp add: nodes_def frees_append)

lemma nodes_simps [simp]:
  "nodes lo [] = []" "nodes lo (Free s # bs) = W lo # nodes (lo + s) bs" "nodes lo (Used off s # bs) = nodes (lo + s) bs"
  "nodes lo (Lost s # bs) = nodes (lo + s) bs"
  by (simp_all add: nodes_def)

lemma frees_bounds: "list_all wf_block bs \<Longrightarrow> (a, s) \<in> set (frees lo bs) \<Longrightarrow> lo \<le> a \<and> 32 \<le> s \<and> a + s \<le> lo + extent bs"
proof (induction lo bs rule: frees.induct)
  case (2 lo s bs)
  then show ?case by fastforce
qed fastforce+

lemma useds_bounds:
  "list_all wf_block bs \<Longrightarrow> (a, off, s) \<in> set (useds lo bs) \<Longrightarrow> lo \<le> a \<and> off + 32 \<le> s \<and> a + s \<le> lo + extent bs"
proof (induction lo bs rule: useds.induct)
  case (2 lo off s bs)
  then show ?case by fastforce
qed fastforce+

definition frees_ok :: "mem \<Rightarrow> (nat \<times> nat) list \<Rightarrow> bool" where
  "frees_ok m fs \<longleftrightarrow> (\<forall>(a, s) \<in> set fs. block_magic m (W a) = FREE_MAGIC \<and> block_size m (W a) = W s)"

definition useds_ok :: "mem \<Rightarrow> (nat \<times> nat \<times> nat) list \<Rightarrow> bool" where
  "useds_ok m us \<longleftrightarrow> (\<forall>(a, off, s) \<in> set us. block_magic m (W (a + off)) = ALLOC_MAGIC \<and> block_size m (W (a + off)) = W s \<and>
     block_start m (W (a + off)) = W a)"

definition core :: "nat \<Rightarrow> block list \<Rightarrow> tegrabl_heap \<Rightarrow> bool" where
  "core lo bs h \<longleftrightarrow> 0 < lo \<and> lo + extent bs \<le> 2 ^ 64 \<and> list_all wf_block bs \<and> free_list h 1 = 0 \<and>
     linked (hmem h) 0 (nodes lo bs) 0 \<and> free_list h 0 = hd (nodes lo bs @ [0]) \<and>
     frees_ok (hmem h) (frees lo bs) \<and> useds_ok (hmem h) (useds lo bs)"

lemma apartW: "x + 32 \<le> y \<Longrightarrow> y + 32 \<le> 2 ^ 64 \<Longrightarrow> apart (W x) (W y) \<and> apart (W y) (W x)"
proof -
  assume a: "x + 32 \<le> y" "y + 32 \<le> 2 ^ 64"
  then have u: "unat (W x) = x" "unat (W y) = y" by (simp_all add: unat_of_nat64)
  have d: "unat (W y - W x) = y - x" using unat_sub_of_nat [of x "W y"] a u by simp
  have "W x \<noteq> W y"
  proof
    assume "W x = W y"
    then have "unat (W x) = unat (W y)" by (rule arg_cong)
    then show False unfolding u using a by simp
  qed
  then have "unat (W x - W y) = 2 ^ 64 - (y - x)" using unat_sub_flip [of "W x" "W y"] d by simp
  with a d show "apart (W x) (W y) \<and> apart (W y) (W x)" unfolding apart_def by auto
qed


text \<open>
  The block \<open>mid\<close> between \<open>pre\<close> and \<open>post\<close> replaced: an operation that writes inside \<open>mid\<close> and to the links of the
  neighbouring free blocks only. Every operation of the allocator is an instance.
\<close>

lemma nodes_in: "p \<in> set (nodes lo bs) \<Longrightarrow> \<exists>a s. p = W a \<and> (a, s) \<in> set (frees lo bs)"
  by (auto simp: nodes_def)

definition mid_or_link :: "nat \<Rightarrow> nat \<Rightarrow> u64 list \<Rightarrow> u64 list \<Rightarrow> u64 \<Rightarrow> bool" where
  "mid_or_link a b xs ys t \<longleftrightarrow> (\<exists>x. t = W x \<and> a \<le> x \<and> x + 32 \<le> b) \<or> (xs \<noteq> [] \<and> t = last xs) \<or> (ys \<noteq> [] \<and> t = hd ys)"

lemma frees_split: "(a, s) \<in> set (frees lo bs) \<Longrightarrow> \<exists>pre post. bs = pre @ Free s # post \<and> a = lo + extent pre"
proof (induction bs arbitrary: lo)
  case (Cons b bs)
  show ?case
  proof (cases "b = Free s \<and> a = lo")
    case True
    then show ?thesis by (intro exI [of _ "[]"] exI [of _ bs]) simp
  next
    case False
    with Cons.prems have "(a, s) \<in> set (frees (lo + bsize b) bs)" by (cases b) auto
    from Cons.IH [OF this] obtain pre post where "bs = pre @ Free s # post" "a = lo + bsize b + extent pre" by blast
    then show ?thesis by (intro exI [of _ "b # pre"] exI [of _ post]) simp
  qed
qed simp

lemma headers_apart:
  assumes "list_all wf_block bs" "lo + extent bs \<le> 2 ^ 64" "(a, s) \<in> set (frees lo bs)"
  shows "(b, t) \<in> set (frees lo bs) \<Longrightarrow> W a \<noteq> W b \<Longrightarrow> apart (W a) (W b)"
    and "(b, off, t) \<in> set (useds lo bs) \<Longrightarrow> apart (W a) (W (b + off)) \<and> (a + s \<le> b \<or> b + t \<le> a)"
proof -
  obtain pre post where s: "bs = pre @ Free s # post" "a = lo + extent pre" using frees_split [OF assms(3)] by blast
  have w: "list_all wf_block pre" "list_all wf_block post" "32 \<le> s" "a + s + extent post \<le> 2 ^ 64" using assms(1,2) s by auto
  { assume "(b, t) \<in> set (frees lo bs)" "W a \<noteq> W b"
    then consider "(b, t) \<in> set (frees lo pre)" | "(b, t) \<in> set (frees (a + s) post)" by (auto simp: s frees_append)
    then show "apart (W a) (W b)"
    proof cases
      case 1
      with frees_bounds [OF w(1)] have "32 \<le> t" "b + t \<le> a" by (auto simp: s(2))
      then show ?thesis using w by (intro apartW [THEN conjunct2]) auto
    next
      case 2
      with frees_bounds [OF w(2)] have "32 \<le> t" "a + s \<le> b" "b + t \<le> a + s + extent post" by auto
      then show ?thesis using w by (intro apartW [THEN conjunct1]) auto
    qed }
  assume "(b, off, t) \<in> set (useds lo bs)"
  then consider "(b, off, t) \<in> set (useds lo pre)" | "(b, off, t) \<in> set (useds (a + s) post)" by (auto simp: s useds_append)
  then show "apart (W a) (W (b + off)) \<and> (a + s \<le> b \<or> b + t \<le> a)"
  proof cases
    case 1
    with useds_bounds [OF w(1)] have r: "off + 32 \<le> t" "b + t \<le> a" by (auto simp: s(2))
    then have "apart (W a) (W (b + off))" using w by (intro apartW [THEN conjunct2]) auto
    with r show ?thesis by simp
  next
    case 2
    with useds_bounds [OF w(2)] have r: "off + 32 \<le> t" "a + s \<le> b" "b + t \<le> a + s + extent post" by auto
    then have "apart (W a) (W (b + off))" using w by (intro apartW [THEN conjunct1]) auto
    with r show ?thesis by simp
  qed
qed

lemma inj_frees:
  assumes "list_all wf_block bs" "lo + extent bs \<le> 2 ^ 64" "0 < lo" "(a, s) \<in> set (frees lo bs)"
  shows "W a \<noteq> 0" "unat (W a) = a"
  using frees_bounds [OF assms(1,4)] assms(2,3) by (auto simp: word_of_nat_eq_0_iff unat_of_nat64 dest: dvd_imp_le)

lemma distinct_nodes:
  assumes "list_all wf_block bs" "lo + extent bs \<le> 2 ^ 64"
  shows "distinct (nodes lo bs)"
  using assms
proof (induction lo bs rule: frees.induct)
  case (2 lo s bs)
  have "W lo \<noteq> W b" if b: "(b, t) \<in> set (frees (lo + s) bs)" for b t
  proof -
    have "lo + s \<le> b" "b + 32 \<le> 2 ^ 64" "32 \<le> s" using frees_bounds [OF _ b] 2(2,3) by auto
    then have "unat (W lo) = lo" "unat (W b) = b" "lo < b" by (simp_all add: unat_of_nat64)
    then show ?thesis by force
  qed
  then show ?case using 2 by (force dest: nodes_in)
qed auto


lemma byte_apart:
  assumes "y + 32 \<le> x \<or> x < y" "y + 32 \<le> 2 ^ 64" "x < 2 ^ 64"
  shows "32 \<le> unat (W x - W y)"
proof -
  have u: "unat (W x) = x" "unat (W y) = y" using assms by (simp_all add: unat_of_nat64)
  show ?thesis
  proof (cases "y \<le> x")
    case True
    then have "unat (W x - W y) = x - y" using unat_sub_of_nat [of y "W x"] u by simp
    with True assms show ?thesis by simp
  next
    case False
    then have "unat (W x - W y) = 2 ^ 64 + x - y" using unat_sub_of_nat_small [of "W x" y] u assms by simp
    with False assms show ?thesis by simp
  qed
qed

text \<open>The headers and bytes that stay as they are.\<close>

lemma frees_around:
  assumes "a = lo + extent pre" "b = a + extent mid"
  shows "set (frees lo pre) \<union> set (frees b post) \<subseteq> set (frees lo (pre @ mid @ post))"
    "set (useds lo pre) \<union> set (useds b post) \<subseteq> set (useds lo (pre @ mid @ post))"
  using assms by (auto simp: frees_append useds_append add.assoc)

lemma mid_or_link_cases:
  assumes "a = lo + extent pre" "b = a + extent mid" "mid_or_link a b (nodes lo pre) (nodes b post) t"
  obtains (mid) x where "t = W x" "a \<le> x" "x + 32 \<le> b"
    | (link) x s where "t = W x" "(x, s) \<in> set (frees lo (pre @ mid @ post))"
  using assms(3) unfolding mid_or_link_def
proof (elim disjE conjE exE)
  assume "nodes lo pre \<noteq> []" "t = last (nodes lo pre)"
  then obtain x s where "t = W x" "(x, s) \<in> set (frees lo pre)" using nodes_in [OF last_in_set] by blast
  then show thesis using frees_around(1) [OF assms(1,2)] link by blast
next
  assume "nodes b post \<noteq> []" "t = hd (nodes b post)"
  then obtain x s where "t = W x" "(x, s) \<in> set (frees b post)" using nodes_in [OF hd_in_set] by blast
  then show thesis using frees_around(1) [OF assms(1,2)] link by blast
qed (rule mid)

lemma free_outside:
  assumes c: "core lo (pre @ mid @ post) h" and a: "a = lo + extent pre" "b = a + extent mid"
    and t: "mid_or_link a b (nodes lo pre) (nodes b post) t" and p: "p \<in> set (nodes lo pre) \<union> set (nodes b post)" "p \<noteq> t"
  shows "apart t p"
proof -
  have w: "list_all wf_block (pre @ mid @ post)" "lo + extent (pre @ mid @ post) \<le> 2 ^ 64" using c by (auto simp: core_def)
  then have wp: "list_all wf_block pre" "list_all wf_block post" "b + extent post \<le> 2 ^ 64" using a by auto
  obtain y s where y: "p = W y" "(y, s) \<in> set (frees lo pre) \<union> set (frees b post)" using p(1) by (auto dest!: nodes_in)
  from a t show ?thesis
  proof (cases rule: mid_or_link_cases)
    case (mid x)
    have "y + 32 \<le> a \<or> (b \<le> y \<and> y + 32 \<le> 2 ^ 64)"
      using frees_bounds [OF wp(1)] frees_bounds [OF wp(2)] y(2) wp(3) a(1) by fastforce
    then show ?thesis using mid y(1) wp(3) apartW [of x y] apartW [of y x] by auto
  next
    case (link x s')
    have "(y, s) \<in> set (frees lo (pre @ mid @ post))" using y(2) frees_around(1) [OF a] by (rule rev_subsetD)
    then show ?thesis using headers_apart(1) [OF w link(2), of y s] link(1) y(1) p(2) by simp
  qed
qed

lemma used_outside:
  assumes c: "core lo (pre @ mid @ post) h" and a: "a = lo + extent pre" "b = a + extent mid"
    and t: "mid_or_link a b (nodes lo pre) (nodes b post) t" and u: "(c, off, u) \<in> set (useds lo pre) \<union> set (useds b post)"
  shows "apart t (W (c + off))" "c \<le> x \<Longrightarrow> x < c + u \<Longrightarrow> 32 \<le> unat (W x - t)"
proof -
  have w: "list_all wf_block (pre @ mid @ post)" "lo + extent (pre @ mid @ post) \<le> 2 ^ 64" using c by (auto simp: core_def)
  then have wp: "list_all wf_block pre" "list_all wf_block post" "b + extent post \<le> 2 ^ 64" using a by auto
  have ub: "(c + u \<le> a \<or> b \<le> c) \<and> off + 32 \<le> u \<and> c + u \<le> 2 ^ 64"
    using useds_bounds [OF wp(1)] useds_bounds [OF wp(2)] u wp(3) a by fastforce
  have "\<exists>y. t = W y \<and> apart t (W (c + off)) \<and> y + 32 \<le> 2 ^ 64 \<and> (y + 32 \<le> c \<or> c + u \<le> y)"
    using a t
  proof (cases rule: mid_or_link_cases)
    case (mid y)
    then have "apart t (W (c + off))" using ub wp(3) apartW [of y "c + off"] apartW [of "c + off" y] by auto
    with mid ub wp(3) show ?thesis by (intro exI [of _ y]) auto
  next
    case (link y s)
    have h: "apart (W y) (W (c + off))" "y + s \<le> c \<or> c + u \<le> y"
      using headers_apart(2) [OF w link(2), of c off u] frees_around(2) [OF a] u by blast+
    moreover have "32 \<le> s" "y + s \<le> 2 ^ 64" using frees_bounds [OF w(1) link(2)] w(2) by auto
    ultimately show ?thesis using link(1) by (intro exI [of _ y]) auto
  qed
  then obtain y where y: "t = W y" "apart t (W (c + off))" "y + 32 \<le> 2 ^ 64" "y + 32 \<le> c \<or> c + u \<le> y" by blast
  then show "apart t (W (c + off))" by simp
  show "32 \<le> unat (W x - t)" if "c \<le> x" "x < c + u"
    unfolding y(1) using that ub y(3,4) by (intro byte_apart) auto
qed


text \<open>The links of the neighbours, and what the operation must leave of them.\<close>

definition relinked :: "mem \<Rightarrow> mem \<Rightarrow> u64 list \<Rightarrow> u64 list \<Rightarrow> u64 list \<Rightarrow> bool" where
  "relinked m m' xs zs ys \<longleftrightarrow>
     (xs \<noteq> [] \<longrightarrow> block_magic m' (last xs) = block_magic m (last xs) \<and> block_size m' (last xs) = block_size m (last xs) \<and>
        block_prev m' (last xs) = block_prev m (last xs) \<and> block_next m' (last xs) = hd (zs @ ys @ [0])) \<and>
     (ys \<noteq> [] \<longrightarrow> block_magic m' (hd ys) = block_magic m (hd ys) \<and> block_size m' (hd ys) = block_size m (hd ys) \<and>
        block_next m' (hd ys) = block_next m (hd ys) \<and> block_prev m' (hd ys) = last (0 # xs @ zs)) \<and>
     linked m' (last (0 # xs)) zs (hd (ys @ [0]))"

lemma in_set_tlD: "x \<in> set (tl xs) \<Longrightarrow> x \<in> set xs"
  by (cases xs) auto

lemma mid_not_node:
  assumes c: "core lo (pre @ mid @ post) h" and a: "a = lo + extent pre" "b = a + extent mid"
    and p: "W x \<in> set (nodes lo pre) \<union> set (nodes b post)" "a \<le> x" "x + 32 \<le> b"
  shows False
proof -
  have w: "list_all wf_block pre" "list_all wf_block post" "b + extent post \<le> 2 ^ 64" using c a by (auto simp: core_def)
  obtain y s where y: "W x = W y" "(y, s) \<in> set (frees lo pre) \<union> set (frees b post)" using p(1) by (auto dest!: nodes_in)
  have yb: "y + 32 \<le> a \<or> (b \<le> y \<and> y + 32 \<le> 2 ^ 64)"
    using frees_bounds [OF w(1)] frees_bounds [OF w(2)] y(2) w(3) a(1) by fastforce
  have "unat (W x) = x" using p w(3) by (intro unat_of_nat64) linarith
  moreover have "unat (W y) = y" using yb p w(3) by (intro unat_of_nat64) linarith
  ultimately have "x = y" using y(1) by metis
  with yb p(2,3) show False by linarith
qed

lemma neighbours_get:
  assumes c: "core lo (pre @ mid @ post) h" and a: "a = lo + extent pre" "b = a + extent mid"
    and t: "touches T (hmem h) m'" "\<forall>t \<in> T. mid_or_link a b (nodes lo pre) (nodes b post) t"
    and r: "relinked (hmem h) m' (nodes lo pre) zs (nodes b post)" and p: "p \<in> set (nodes lo pre) \<union> set (nodes b post)"
  shows "block_magic m' p = block_magic (hmem h) p \<and> block_size m' p = block_size (hmem h) p \<and>
    (p \<in> set (nodes lo pre) \<or> p \<in> set (tl (nodes b post)) \<longrightarrow> block_prev m' p = block_prev (hmem h) p) \<and>
    (p \<in> set (nodes b post) \<or> p \<in> set (butlast (nodes lo pre)) \<longrightarrow> block_next m' p = block_next (hmem h) p)"
proof -
  let ?xs = "nodes lo pre" and ?ys = "nodes b post"
  have "distinct (nodes lo (pre @ mid @ post))" using c by (auto simp: core_def intro: distinct_nodes)
  then have d: "distinct ?xs" "distinct ?ys" "set ?xs \<inter> set ?ys = {}" using a by (auto simp: nodes_append add.assoc)
  consider "?xs \<noteq> []" "p = last ?xs" | "?ys \<noteq> []" "p = hd ?ys" | "\<not> ((?xs \<noteq> [] \<and> p = last ?xs) \<or> (?ys \<noteq> [] \<and> p = hd ?ys))" by blast
  then show ?thesis
  proof cases
    case 1
    then have "p \<in> set ?xs" "p \<notin> set ?ys" using d(3) last_in_set by (simp, blast)
    moreover have "p \<notin> set (butlast ?xs)"
      using d(1) 1 append_butlast_last_id [of ?xs] distinct_append [of "butlast ?xs" "[last ?xs]"] by auto
    ultimately show ?thesis using 1 r by (auto simp: relinked_def dest: in_set_tlD)
  next
    case 2
    then have "p \<in> set ?ys" "p \<notin> set (tl ?ys)" using d(2) by (cases ?ys; simp)+
    moreover from this have "p \<notin> set ?xs" using d(3) by blast
    ultimately show ?thesis using 2 r by (auto simp: relinked_def dest: in_set_butlastD)
  next
    case 3
    have "p \<notin> T"
    proof
      assume "p \<in> T"
      then obtain x where "p = W x" "a \<le> x" "x + 32 \<le> b" using t(2) 3 by (auto simp: mid_or_link_def)
      then show False using mid_not_node [OF c a] p by blast
    qed
    then have "\<forall>t \<in> T. apart t p" using free_outside [OF c a _ p] t(2) by blast
    then show ?thesis using touches_get [OF t(1)] by simp
  qed
qed

lemma core_replace:
  assumes c: "core lo (pre @ mid @ post) h" and a: "a = lo + extent pre" "b = a + extent mid"
    and mid': "extent mid' = extent mid" "list_all wf_block mid'" "frees_ok m' (frees a mid')" "useds_ok m' (useds a mid')"
    and t: "touches T (hmem h) m'" "\<forall>t \<in> T. mid_or_link a b (nodes lo pre) (nodes b post) t"
    and r: "relinked (hmem h) m' (nodes lo pre) (nodes a mid') (nodes b post)"
    and h': "hmem h' = m'" "free_list h' 1 = 0" "free_list h' 0 = hd (nodes lo pre @ nodes a mid' @ nodes b post @ [0])"
  shows "core lo (pre @ mid' @ post) h'"
proof -
  let ?xs = "nodes lo pre" and ?ys = "nodes b post" and ?m = "hmem h"
  have w: "list_all wf_block (pre @ mid @ post)" "lo + extent (pre @ mid @ post) \<le> 2 ^ 64" "0 < lo" using c by (auto simp: core_def)
  have l: "linked ?m 0 (?xs @ nodes a mid @ ?ys) 0" "frees_ok ?m (frees lo pre)" "frees_ok ?m (frees b post)"
      "useds_ok ?m (useds lo pre)" "useds_ok ?m (useds b post)"
    using c a by (auto simp: core_def nodes_append frees_append useds_append frees_ok_def useds_ok_def add.assoc)
  note get = neighbours_get [OF c a t r]
  have "linked m' 0 (?xs @ nodes a mid' @ ?ys) 0"
    by (rule linked_middle [OF l(1)]) (use r get in \<open>auto simp: relinked_def dest: in_set_butlastD in_set_tlD\<close>)
  moreover have "frees_ok m' (frees lo pre)" "frees_ok m' (frees b post)"
    using l(2,3) get by (fastforce simp: frees_ok_def nodes_def)+
  moreover have "useds_ok m' (useds lo pre)" "useds_ok m' (useds b post)"
    using l(4,5) touches_get [OF t(1)] used_outside(1) [OF c a] t(2) by (fastforce simp: useds_ok_def)+
  ultimately show ?thesis
    using w mid' h' a by (auto simp: core_def nodes_append frees_append useds_append frees_ok_def useds_ok_def add.assoc)
qed


lemma core_replace_bytes:
  assumes "core lo (pre @ mid @ post) h" "a = lo + extent pre" "b = a + extent mid"
    and "touches {t. mid_or_link a b (nodes lo pre) (nodes b post) t} (hmem h) m'"
    and "(c, off, u) \<in> set (useds lo pre) \<union> set (useds b post)" "c \<le> x" "x < c + u"
  shows "m' (W x) = hmem h (W x)"
  using assms(4) used_outside(2) [OF assms(1-3) _ assms(5) assms(6,7)] unfolding touches_def by blast

lemma mid_apart:
  assumes c: "core lo (pre @ mid @ post) h" and a: "a = lo + extent pre" "b = a + extent mid"
    and z: "a \<le> z" "z + 32 \<le> b" and p: "p \<in> set (nodes lo pre) \<union> set (nodes b post)"
  shows "apart (W z) p \<and> apart p (W z)"
proof -
  have "p \<noteq> W z" using mid_not_node [OF c a] p z by blast
  moreover have "mid_or_link a b (nodes lo pre) (nodes b post) (W z)" using z by (auto simp: mid_or_link_def)
  ultimately have "apart (W z) p" using free_outside [OF c a _ p] by blast
  then show ?thesis using apart_sym by blast
qed

lemma around_apart:
  assumes c: "core lo (pre @ mid @ post) h" and a: "a = lo + extent pre" "b = a + extent mid"
    and p: "p \<in> set (nodes lo pre)" "q \<in> set (nodes b post)"
  shows "apart p q \<and> apart q p \<and> p \<noteq> q"
proof -
  have w: "list_all wf_block (pre @ mid @ post)" "lo + extent (pre @ mid @ post) \<le> 2 ^ 64" using c by (auto simp: core_def)
  obtain x s where x: "p = W x" "(x, s) \<in> set (frees lo (pre @ mid @ post))" using nodes_in [OF p(1)] frees_around(1) [OF a] by blast
  obtain y t where y: "q = W y" "(y, t) \<in> set (frees lo (pre @ mid @ post))" using nodes_in [OF p(2)] frees_around(1) [OF a] by blast
  have "distinct (nodes lo (pre @ mid @ post))" by (rule distinct_nodes [OF w])
  then have ne: "p \<noteq> q" using a p by (auto simp: nodes_append add.assoc)
  then have "apart p q" using headers_apart(1) [OF w x(2) y(2)] x(1) y(1) by simp
  then show ?thesis using apart_sym ne by blast
qed

text \<open>The neighbours in the free list, 0 where there is none, as the code sees them.\<close>

locale heap_at =
  fixes lo pre mid post h a b x y
  assumes core: "core lo (pre @ mid @ post) h" and at: "a = lo + extent pre" "b = a + extent mid"
    and nb: "x = last (0 # nodes lo pre)" "y = hd (nodes b post @ [0])"
begin

abbreviation "xs \<equiv> nodes lo pre"
abbreviation "ys \<equiv> nodes b post"
abbreviation "touched \<equiv> touches {t. mid_or_link a b xs ys t} (hmem h)"

lemma x_in: "x = 0 \<and> xs = [] \<or> x \<noteq> 0 \<and> xs \<noteq> [] \<and> x = last xs \<and> x \<in> set xs"
proof (cases "xs = []")
  case False
  then have l: "last xs \<in> set xs" by simp
  have "0 \<notin> set (nodes lo (pre @ mid @ post))" using core linked_nonzero by (auto simp: core_def)
  then have "0 \<notin> set xs" by (simp add: nodes_append)
  with l have "last xs \<noteq> 0" by metis
  with False show ?thesis by (simp add: nb)
qed (simp add: nb)

lemma y_in: "y = 0 \<and> ys = [] \<or> y \<noteq> 0 \<and> ys \<noteq> [] \<and> y = hd ys \<and> y \<in> set ys"
proof (cases "ys = []")
  case False
  then have l: "hd ys \<in> set ys" by simp
  have "0 \<notin> set (nodes lo (pre @ mid @ post))" using core linked_nonzero by (auto simp: core_def)
  then have "0 \<notin> set ys" using at by (simp add: nodes_append add.assoc)
  with l have "hd ys \<noteq> 0" by metis
  with False show ?thesis by (simp add: nb)
qed (simp add: nb)

lemma sep_mid: "a \<le> z \<Longrightarrow> z + 32 \<le> b \<Longrightarrow> (x = 0 \<or> apart x (W z) \<and> apart (W z) x \<and> W z \<noteq> x) \<and> (y = 0 \<or> apart y (W z) \<and> apart (W z) y \<and> W z \<noteq> y)"
  using mid_apart [OF core at, of z] mid_not_node [OF core at, of z] x_in y_in by blast

lemma sep_xy: "x = 0 \<or> y = 0 \<or> apart x y \<and> apart y x \<and> x \<noteq> y"
  using around_apart [OF core at, of x y] x_in y_in by blast

lemma touch:
  assumes "touched m'"
  shows "a \<le> z \<Longrightarrow> z + 32 \<le> b \<Longrightarrow> touched (set_magic (W z) v m')" "a \<le> z \<Longrightarrow> z + 32 \<le> b \<Longrightarrow> touched (set_size (W z) w m')"
    "a \<le> z \<Longrightarrow> z + 32 \<le> b \<Longrightarrow> touched (set_prev (W z) w m')" "a \<le> z \<Longrightarrow> z + 32 \<le> b \<Longrightarrow> touched (set_next (W z) w m')"
    "touched (link_next x w m')" "touched (link_prev x w m')" "touched (link_next y w m')" "touched (link_prev y w m')"
proof -
  have z: "W z \<in> {t. mid_or_link a b xs ys t}" if "a \<le> z" "z + 32 \<le> b" using that by (auto simp: mid_or_link_def)
  have xy: "x = 0 \<or> x \<in> {t. mid_or_link a b xs ys t}" "y = 0 \<or> y \<in> {t. mid_or_link a b xs ys t}"
    using x_in y_in by (auto simp: mid_or_link_def)
  show "touched (link_next x w m')" "touched (link_prev x w m')" "touched (link_next y w m')" "touched (link_prev y w m')"
    by (rule touches_link [OF assms xy(1)] touches_link [OF assms xy(2)])+
  show "touched (set_magic (W z) v m')" "touched (set_size (W z) w m')" "touched (set_prev (W z) w m')" "touched (set_next (W z) w m')"
    if "a \<le> z" "z + 32 \<le> b"
    by (rule touches_set [OF assms z [OF that]])+
qed

lemma linked_around: "linked (hmem h) x (nodes a mid) y"
  using core at by (simp add: core_def nodes_append linked_append nb add.assoc)

lemma frees_mid: "frees_ok (hmem h) (frees a mid)" "useds_ok (hmem h) (useds a mid)"
  using core at by (auto simp: core_def frees_append useds_append frees_ok_def useds_ok_def)

lemma bounds: "0 < lo" "b \<le> 2 ^ 64" "list_all wf_block mid" "free_list h 1 = 0" "free_list h 0 = hd (xs @ nodes a mid @ ys @ [0])"
  using core at by (auto simp: core_def nodes_append add.assoc)

lemma replaced:
  assumes "extent mid' = extent mid" "list_all wf_block mid'" "frees_ok m' (frees a mid')" "useds_ok m' (useds a mid')"
    and "touched m'" "relinked (hmem h) m' xs (nodes a mid') ys"
    and "hmem h' = m'" "free_list h' 1 = 0" "free_list h' 0 = hd (xs @ nodes a mid' @ ys @ [0])"
  shows "core lo (pre @ mid' @ post) h'"
  using assms by (intro core_replace [OF core at _ _ _ _ assms(5)]) auto

end


lemma W_le: "k < 2 ^ 64 \<Longrightarrow> j < 2 ^ 64 \<Longrightarrow> W k \<le> W j \<longleftrightarrow> k \<le> j"
  by (simp add: word_le_nat_alt unat_of_nat64)

lemma W_less: "k < 2 ^ 64 \<Longrightarrow> j < 2 ^ 64 \<Longrightarrow> W k < W j \<longleftrightarrow> k < j"
  by (simp add: word_less_nat_alt unat_of_nat64)

lemma W_eq: "k < 2 ^ 64 \<Longrightarrow> j < 2 ^ 64 \<Longrightarrow> W k = W j \<longleftrightarrow> k = j"
  by (metis unat_of_nat64)

lemma W_nonzero: "0 < k \<Longrightarrow> k < 2 ^ 64 \<Longrightarrow> W k \<noteq> 0"
  using W_eq [of k 0] by simp

text \<open>What splitting leaves: the first part is nobody's yet.\<close>

definition split_mid :: "nat \<Rightarrow> nat \<Rightarrow> block list" where
  "split_mid s n = (if s - n \<le> 32 then [Lost s] else [Lost n, Free (s - n)])"

lemma split_head:
  assumes "free_list h 1 = 0" "free_list h 0 = hd (xs @ [p] @ ys @ [0])" "p \<noteq> 0" "p \<notin> set xs"
  shows "replace_head p q (free_list h) 1 = 0" "replace_head p q (free_list h) 0 = hd (xs @ q # ys @ [0])"
    "replace_head p (hd (ys @ [0])) (free_list h) 0 = hd (xs @ ys @ [0])"
  using assms by (cases xs; auto simp: replace_head_def)+

context heap_at
begin

lemma split_whole:
  assumes "mid = [Free s]" "n \<le> s" "s - n \<le> 32" "32 \<le> s"
  shows "\<exists>h'. tegrabl_heap_split_block (W a) (W n) h = (W a, h') \<and> core lo (pre @ [Lost s] @ post) h' \<and> touched (hmem h') \<and>
    block_size (hmem h') (W a) = W s \<and> max_heap_size h' = max_heap_size h"
proof -
  let ?m = "hmem h"
  have ab: "0 < a" "a + s = b" "b \<le> 2 ^ 64" using bounds at assms(1) by auto
  have a0: "W a \<noteq> 0" using ab assms(4) by (intro W_nonzero) auto
  have g: "block_prev ?m (W a) = x" "block_next ?m (W a) = y" "block_size ?m (W a) = W s"
    using linked_around frees_mid assms(1) by (auto simp: frees_ok_def)
  have sep: "x = 0 \<or> apart x (W a) \<and> apart (W a) x \<and> W a \<noteq> x" "y = 0 \<or> apart y (W a) \<and> apart (W a) y \<and> W a \<noteq> y"
    using sep_mid [of a] ab assms(4) by auto
  have "W a \<notin> set xs" using mid_not_node [OF core at, of a] ab assms(4) by auto
  note hd = split_head [OF bounds(4), of xs "W a" ys] this
  define m2 where "m2 = link_next x y (link_prev y x ?m)"
  define h' where "h' = h\<lparr>hmem := m2, free_list := replace_head (W a) y (free_list h)\<rparr>"
  have "W s - W n = W (s - n)" using assms(2) by (simp add: of_nat_diff)
  then have "block_size ?m (W a) - W n \<le> 32" using g W_le [of "s - n" 32] assms(3) by simp
  moreover have "block_prev (link_prev y x ?m) (W a) = x" "block_next (link_prev y x ?m) (W a) = y"
    using sep g by (auto simp: get_link)
  ultimately have "tegrabl_heap_split_block (W a) (W n) h = (W a, h')"
    using a0 g by (simp add: tegrabl_heap_split_block_def Let_def h'_def m2_def)
  moreover have "touched m2" unfolding m2_def by (intro touch touches_refl)
  moreover have "block_size m2 (W a) = W s" using sep g by (auto simp: m2_def get_link)
  moreover have "relinked ?m m2 xs [] ys"
    using x_in y_in sep_xy nb by (auto simp: relinked_def m2_def get_link)
  moreover have "core lo (pre @ [Lost s] @ post) h'"
    by (rule replaced [of "[Lost s]" m2])
      (use calculation hd bounds(5) a0 assms(1,4) nb(2) in \<open>auto simp: h'_def frees_ok_def useds_ok_def\<close>)
  ultimately show ?thesis by (auto simp: h'_def)
qed

lemma split_parts:
  assumes "mid = [Free s]" "32 \<le> n" "n \<le> s" "\<not> s - n \<le> 32"
  shows "\<exists>h'. tegrabl_heap_split_block (W a) (W n) h = (W a, h') \<and> core lo (pre @ [Lost n, Free (s - n)] @ post) h' \<and> touched (hmem h') \<and>
    block_size (hmem h') (W a) = W n \<and> max_heap_size h' = max_heap_size h"
proof -
  let ?m = "hmem h" and ?nf = "W (a + n)"
  have ab: "0 < a" "a + s = b" "b \<le> 2 ^ 64" using bounds at assms(1) by auto
  have a0: "W a \<noteq> 0" "?nf \<noteq> 0" using ab assms by (intro W_nonzero; auto)+
  have g: "block_prev ?m (W a) = x" "block_next ?m (W a) = y" "block_size ?m (W a) = W s"
    using linked_around frees_mid assms(1) by (auto simp: frees_ok_def)
  have sep: "x = 0 \<or> apart x (W a) \<and> apart (W a) x \<and> W a \<noteq> x" "y = 0 \<or> apart y (W a) \<and> apart (W a) y \<and> W a \<noteq> y"
    and sepn: "x = 0 \<or> apart x ?nf \<and> apart ?nf x \<and> ?nf \<noteq> x" "y = 0 \<or> apart y ?nf \<and> apart ?nf y \<and> ?nf \<noteq> y"
    using sep_mid [of a] sep_mid [of "a + n"] ab assms by auto
  have an: "apart (W a) ?nf" "apart ?nf (W a)" "?nf \<noteq> W a"
    using apartW [of a "a + n"] W_eq [of "a + n" a] ab assms by auto
  have "W a \<notin> set xs" using mid_not_node [OF core at, of a] ab assms by auto
  note hd = split_head [OF bounds(4), of xs "W a" ys] this
  define m4 where "m4 = link_prev y ?nf (link_next x ?nf (set_next ?nf y (set_prev ?nf x ?m)))"
  define m7 where "m7 = set_size (W a) (W n) (set_magic ?nf FREE_MAGIC (set_size ?nf (W (s - n)) m4))"
  define h' where "h' = h\<lparr>hmem := m7, free_list := replace_head (W a) ?nf (free_list h)\<rparr>"
  have r: "W s - W n = W (s - n)" using assms(3) by (simp add: of_nat_diff)
  then have "\<not> block_size ?m (W a) - W n \<le> 32" using g W_le [of "s - n" 32] assms(4) ab by simp
  moreover have "W a + W n = ?nf" by simp
  moreover have "block_next (set_prev ?nf x ?m) (W a) = y" "block_prev (set_next ?nf y (set_prev ?nf x ?m)) ?nf = x"
      "block_next (link_next x ?nf (set_next ?nf y (set_prev ?nf x ?m))) ?nf = y"
    using an g sepn by (auto simp: get_set get_link)
  ultimately have e: "tegrabl_heap_split_block (W a) (W n) h = (W a, h')"
    using a0 g r by (simp add: tegrabl_heap_split_block_def Let_def h'_def m7_def m4_def del: of_nat_add)
  have t: "touched m7"
    unfolding m7_def m4_def by (intro touch touches_refl) (use ab assms in auto)
  have sz: "block_size m7 (W a) = W n" by (simp add: m7_def)
  have rl: "relinked ?m m7 xs [?nf] ys"
    using x_in y_in sep sepn sep_xy nb a0 an by (auto simp: relinked_def m7_def m4_def get_link get_set)
  have "block_magic m7 ?nf = FREE_MAGIC" "block_size m7 ?nf = W (s - n)"
    using an sepn by (auto simp: m7_def m4_def get_set get_link)
  then have "core lo (pre @ [Lost n, Free (s - n)] @ post) h'"
    by (intro replaced [of _ m7])
      (use t rl hd bounds(5) a0 assms in \<open>auto simp: h'_def frees_ok_def useds_ok_def\<close>)
  with e t sz show ?thesis by (auto simp: h'_def)
qed

lemma split_blocks:
  assumes "mid = [Free s]" "32 \<le> n" "n \<le> s"
  shows "\<exists>h'. tegrabl_heap_split_block (W a) (W n) h = (W a, h') \<and> core lo (pre @ split_mid s n @ post) h' \<and> touched (hmem h') \<and>
    block_size (hmem h') (W a) = W (if s - n \<le> 32 then s else n) \<and> max_heap_size h' = max_heap_size h"
  using split_whole [OF assms(1,3)] split_parts [OF assms] assms by (simp add: split_mid_def)

end


lemma touches_mono: "touches T m m' \<Longrightarrow> T \<subseteq> T' \<Longrightarrow> touches T' m m'"
  by (auto simp: touches_def)

lemma touches_trans: "touches T m m' \<Longrightarrow> touches T m' m'' \<Longrightarrow> touches T m m''"
  by (simp add: touches_def)

definition inner :: "nat \<Rightarrow> nat \<Rightarrow> u64 set" where
  "inner a b = W ` {z. a \<le> z \<and> z + 32 \<le> b}"

lemma core_lost: "0 < i \<Longrightarrow> 0 < j \<Longrightarrow> core lo (pre @ Lost (i + j) # post) h \<longleftrightarrow> core lo (pre @ Lost i # Lost j # post) h"
  by (simp add: core_def frees_append useds_append nodes_append add.assoc)

lemma core_forget: "core lo (pre @ Used off s # post) h \<Longrightarrow> core lo (pre @ Lost s # post) h"
  by (auto simp: core_def frees_append useds_append nodes_append useds_ok_def)

context heap_at
begin

lemma inner_touched: "touches (inner a b) (hmem h) m' \<Longrightarrow> touched m'"
  by (erule touches_mono) (auto simp: inner_def mid_or_link_def)

lemma inner_neighbours:
  assumes "touches (inner a b) (hmem h) m'" "nodes a mid = []"
  shows "relinked (hmem h) m' xs [] ys"
proof -
  have get: "block_magic m' p = block_magic (hmem h) p \<and> block_size m' p = block_size (hmem h) p \<and>
      block_prev m' p = block_prev (hmem h) p \<and> block_next m' p = block_next (hmem h) p" if "p \<in> set xs \<union> set ys" for p
  proof -
    have "\<forall>t \<in> inner a b. apart t p" using mid_apart [OF core at _ _ that] by (auto simp: inner_def)
    from touches_get [OF assms(1) this] show ?thesis by blast
  qed
  have "linked (hmem h) 0 (xs @ ys) 0" using core at assms(2) by (simp add: core_def nodes_append add.assoc)
  then have l: "linked (hmem h) 0 xs (hd (ys @ [0]))" "linked (hmem h) (last (0 # xs)) ys 0" by (simp_all only: linked_append)
  from l(1) have "xs \<noteq> [] \<Longrightarrow> block_next (hmem h) (last xs) = hd (ys @ [0])" by (cases xs rule: rev_cases) (simp_all add: linked_append)
  moreover from l(2) have "ys \<noteq> [] \<Longrightarrow> block_prev (hmem h) (hd ys) = last (0 # xs)" by (cases ys) simp_all
  ultimately show ?thesis using get x_in y_in by (auto simp: relinked_def)
qed

lemma claim:
  assumes "mid = [Lost n]" "touches (inner a b) (hmem h) m'" "off + 32 \<le> n"
    and "block_magic m' (W (a + off)) = ALLOC_MAGIC" "block_size m' (W (a + off)) = W n" "block_start m' (W (a + off)) = W a"
  shows "core lo (pre @ [Used off n] @ post) (h\<lparr>hmem := m'\<rparr>)"
  by (rule replaced [of _ m'])
    (use assms inner_touched [OF assms(2)] inner_neighbours [OF assms(2)] bounds in \<open>auto simp: frees_ok_def useds_ok_def\<close>)

end

lemma heap_atI: "core lo (pre @ mid @ post) h \<Longrightarrow> heap_at lo pre mid post h (lo + extent pre) (lo + extent pre + extent mid)
    (last (0 # nodes lo pre)) (hd (nodes (lo + extent pre + extent mid) post @ [0]))"
  by unfold_locales auto


section \<open>First fit\<close>

lemma first_fit_find:
  "linked m p xs 0 \<Longrightarrow> first_fit m n (hd (xs @ [0])) = Some (case find (\<lambda>q. block_size m q > n) xs of Some q \<Rightarrow> q | None \<Rightarrow> 0)"
proof (induction xs arbitrary: p)
  case Nil
  then show ?case by (simp add: first_fit.simps)
next
  case (Cons a xs)
  then show ?case using Cons.IH [of a] by (simp add: first_fit.simps [of m n a])
qed

lemma nodes_split: "p \<in> set (nodes lo bs) \<Longrightarrow> \<exists>pre s post. bs = pre @ Free s # post \<and> p = W (lo + extent pre)"
  using frees_split nodes_in by metis

lemma find_split:
  assumes "find P xs = Some q"
  shows "q \<in> set xs" "P q"
  using assms by (auto simp: find_Some_iff)

lemma core_fit:
  assumes c: "core lo bs h" and fit: "first_fit (hmem h) n (free_list h 0) = Some q" "q \<noteq> 0"
  shows "\<exists>pre s post. bs = pre @ [Free s] @ post \<and> q = W (lo + extent pre) \<and> unat n < s"
proof -
  have "linked (hmem h) 0 (nodes lo bs) 0" "free_list h 0 = hd (nodes lo bs @ [0])" using c by (auto simp: core_def)
  with fit obtain "find (\<lambda>q. block_size (hmem h) q > n) (nodes lo bs) = Some q"
    using first_fit_find [of "hmem h" 0 "nodes lo bs" n] by (auto split: option.splits)
  from find_split [OF this] have q: "q \<in> set (nodes lo bs)" "block_size (hmem h) q > n" by auto
  then obtain pre s post where b: "bs = pre @ Free s # post" "q = W (lo + extent pre)" using nodes_split by blast
  have "block_size (hmem h) q = W s" "s < 2 ^ 64" using c b by (auto simp: core_def frees_append frees_ok_def)
  with q(2) have "unat n < s" by (simp add: word_less_nat_alt unat_of_nat64)
  with b show ?thesis by auto
qed

lemma core_fit_ends: "core lo bs h \<Longrightarrow> \<exists>q. first_fit (hmem h) n (free_list h 0) = Some q"
  using first_fit_find [of "hmem h" 0 "nodes lo bs" n] by (auto simp: core_def)

end
