(* ===== verification/Cboot_Heapops.thy ===== *)
theory Cboot_Heapops
  imports Cboot_Heapblocks
begin

text \<open>
  Allocation and release: \<open>heap_inv\<close> is the invariant between operations (no two free blocks touch), \<open>malloc_inv\<close> that
  an allocation returns and carves a fresh block out of a free one, \<open>dealloc_inv\<close> that a release returns, merges the
  block with its free neighbours and leaves every other block alone.
\<close>


lemma unat_ROUND_UP_8:
  "unat (ROUND_UP sz 8) = (if unat sz + 7 < 2 ^ 64 then 8 * ((unat sz + 7) div 8) else 0)"
proof -
  have e: "ROUND_UP sz 8 = (sz + 7) div 8 * 8" by (simp add: ROUND_UP_def DIV_CEIL_def add.commute)
  have d: "unat ((sz + 7) div 8) = unat (sz + 7) div 8" by (simp add: unat_div)
  have "unat ((sz + 7) div 8 * 8) = unat ((sz + 7) div 8) * 8"
    using unat_lt64 [of "sz + 7"] d by (subst unat_mult_lem [THEN iffD1]) auto
  then have u: "unat (ROUND_UP sz 8) = 8 * (unat (sz + 7) div 8)" unfolding e d by simp
  show ?thesis
  proof (cases "unat sz + 7 < 2 ^ 64")
    case True
    then have "unat (sz + 7) = unat sz + 7" by (subst unat_add_lem [THEN iffD1]) auto
    with True u show ?thesis by simp
  next
    case False
    then have "unat (sz + 7) = unat sz + 7 - 2 ^ 64" using unat_lt64 [of sz] by (simp add: unat_plus_if_size word_size)
    with False u unat_lt64 [of sz] show ?thesis by simp
  qed
qed

lemma malloc_size_bound:
  assumes "\<not> malloc_size sz < sz"
  shows "unat sz + 24 \<le> unat (malloc_size sz)"
proof -
  have "unat (malloc_size sz) = (if unat (ROUND_UP sz 8) + 24 < 2 ^ 64 then unat (ROUND_UP sz 8) + 24 else unat (ROUND_UP sz 8) + 24 - 2 ^ 64)"
    by (simp add: malloc_size_def unat_plus_if_size word_size)
  moreover have "unat sz \<le> unat (malloc_size sz)" using assms by (simp add: word_less_nat_alt not_less)
  ultimately show ?thesis using unat_ROUND_UP_8 [of sz] unat_lt64 [of sz] by (auto split: if_splits)
qed

fun is_free :: "block \<Rightarrow> bool" where
  "is_free (Free s) = True" | "is_free _ = False"

definition no_adj :: "block list \<Rightarrow> bool" where
  "no_adj bs \<longleftrightarrow> successively (\<lambda>x y. \<not> (is_free x \<and> is_free y)) bs"

lemma no_adj_Nil [simp]: "no_adj []"
  by (simp add: no_adj_def)

lemma no_adj_append:
  "no_adj (xs @ ys) \<longleftrightarrow> no_adj xs \<and> no_adj ys \<and> (xs = [] \<or> ys = [] \<or> \<not> (is_free (last xs) \<and> is_free (hd ys)))"
  by (auto simp: no_adj_def successively_append_iff)

lemma no_adj_Cons: "no_adj (x # ys) \<longleftrightarrow> no_adj ys \<and> (ys = [] \<or> \<not> (is_free x \<and> is_free (hd ys)))"
  by (auto simp: no_adj_def successively_Cons)

text \<open>
  The invariant of the heap between operations: no two free blocks touch. The state abstracts to its blocks.
\<close>

definition heap_inv :: "nat \<Rightarrow> block list \<Rightarrow> tegrabl_heap \<Rightarrow> bool" where
  "heap_inv lo bs h \<longleftrightarrow> core lo bs h \<and> no_adj bs \<and> max_heap_size h 0 = W (extent bs)"

definition keeps :: "(nat \<times> nat \<times> nat) list \<Rightarrow> mem \<Rightarrow> mem \<Rightarrow> bool" where
  "keeps us m m' \<longleftrightarrow> (\<forall>(c, off, u) \<in> set us. \<forall>x. c \<le> x \<and> x < c + u \<longrightarrow> m' (W x) = m (W x))"

lemma keeps_trans: "keeps us m m' \<Longrightarrow> keeps us m' m'' \<Longrightarrow> keeps us m m''"
  by (fastforce simp: keeps_def)

context heap_at
begin

lemma touched_keeps:
  assumes "touched m'"
  shows "keeps (useds lo pre @ useds b post) (hmem h) m'"
  using core_replace_bytes [OF core at assms] by (fastforce simp: keeps_def)

end

definition carve :: "nat \<Rightarrow> nat \<Rightarrow> block list" where
  "carve s n = (if s - n \<le> 32 then [Used 0 s] else [Used 0 n, Free (s - n)])"

lemma generic_malloc_carves:
  assumes c: "core lo bs h" and n: "n = unat (MAX64 (malloc_size sz) 32)"
    and f: "first_fit (hmem h) (W n) (free_list h 0) = Some q" "q \<noteq> 0" and ok: "sz \<noteq> 0" "\<not> malloc_size sz < sz"
  shows "\<exists>pre s post h'. bs = pre @ [Free s] @ post \<and> n < s \<and> tegrabl_generic_malloc (free_list h 0) sz h = Some (W (lo + extent pre + 24), h') \<and>
    core lo (pre @ carve s n @ post) h' \<and> max_heap_size h' = max_heap_size h \<and> keeps (useds lo bs) (hmem h) (hmem h')"
proof -
  obtain pre s post where b: "bs = pre @ [Free s] @ post" "q = W (lo + extent pre)" "n < s"
    using core_fit [OF c f] n by auto
  define a where "a = lo + extent pre"
  have n32: "32 \<le> n" unfolding n by (simp add: unat_MAX64)
  define k where "k = (if s - n \<le> 32 then s else n)"
  define post' where "post' = (if s - n \<le> 32 then post else Free (s - n) # post)"
  have H: "heap_at lo pre [Free s] post h a (a + s) (last (0 # nodes lo pre)) (hd (nodes (a + s) post @ [0]))"
    using heap_atI [OF c [unfolded b(1)]] by (simp add: a_def)
  obtain h1 where h1: "tegrabl_heap_split_block (W a) (W n) h = (W a, h1)" "core lo (pre @ split_mid s n @ post) h1"
      "touches {t. mid_or_link a (a + s) (nodes lo pre) (nodes (a + s) post) t} (hmem h) (hmem h1)"
      "block_size (hmem h1) (W a) = W k" "max_heap_size h1 = max_heap_size h"
    using heap_at.split_blocks [OF H refl n32 less_imp_le [OF b(3)]] unfolding k_def by blast
  have "core lo (pre @ [Lost k] @ post') h1" using h1(2) by (simp add: split_mid_def k_def post'_def split: if_splits)
  then have H1: "heap_at lo pre [Lost k] post' h1 a (a + k) (last (0 # nodes lo pre)) (hd (nodes (a + k) post' @ [0]))"
    using heap_atI [of lo pre "[Lost k]" post' h1] by (simp add: a_def)
  define m2 where "m2 = set_magic (W a) ALLOC_MAGIC (set_start (W a) (W a) (hmem h1))"
  have k: "32 \<le> k" "k \<le> s" using n32 b(3) by (auto simp: k_def)
  have i: "W a \<in> inner a (a + k)" "inner a (a + k) \<subseteq> {t. mid_or_link a (a + s) (nodes lo pre) (nodes (a + s) post) t}"
    using k by (auto simp: inner_def mid_or_link_def)
  have t2: "touches (inner a (a + k)) (hmem h1) m2" unfolding m2_def by (intro touches_set touches_refl i)
  have "core lo (pre @ [Used 0 k] @ post') (h1\<lparr>hmem := m2\<rparr>)"
    by (rule heap_at.claim [OF H1 refl t2]) (use k h1(4) in \<open>simp_all add: m2_def\<close>)
  then have "core lo (pre @ carve s n @ post) (h1\<lparr>hmem := m2\<rparr>)" by (simp add: carve_def k_def post'_def split: if_splits)
  moreover have "tegrabl_generic_malloc (free_list h 0) sz h = Some (W (a + 24), h1\<lparr>hmem := m2\<rparr>)"
    using f ok h1(1) b(2) by (simp add: tegrabl_generic_malloc_def Let_def n a_def m2_def)
  moreover have "keeps (useds lo bs) (hmem h) m2"
    using heap_at.touched_keeps [OF H touches_trans [OF h1(3) touches_mono [OF t2 i(2)]]] b(1) by (simp add: useds_append a_def)
  ultimately show ?thesis using b h1(5) unfolding a_def by fastforce
qed


text \<open>An operation that returned the used block \<open>(c, off, u)\<close>.\<close>

definition grants :: "nat \<Rightarrow> block list \<Rightarrow> tegrabl_heap \<Rightarrow> block list \<Rightarrow> tegrabl_heap \<Rightarrow> nat \<times> nat \<times> nat \<Rightarrow> bool" where
  "grants lo bs h bs' h' g \<longleftrightarrow> heap_inv lo bs' h' \<and> extent bs' = extent bs \<and> g \<notin> set (useds lo bs) \<and>
     set (useds lo bs') = insert g (set (useds lo bs)) \<and> keeps (useds lo bs) (hmem h) (hmem h')"

lemma useds_fresh:
  assumes "list_all wf_block (pre @ mid @ post)" "useds a mid = []" "a = lo + extent pre" "b = a + extent mid" "a \<le> c" "c + u \<le> b"
  shows "(c, off, u) \<notin> set (useds lo (pre @ mid @ post))"
proof
  assume "(c, off, u) \<in> set (useds lo (pre @ mid @ post))"
  then have "(c, off, u) \<in> set (useds lo pre) \<or> (c, off, u) \<in> set (useds b post)"
    using assms(2-4) by (auto simp: useds_append add.assoc)
  then have "c + u \<le> a \<and> 32 \<le> u \<or> b \<le> c \<and> 32 \<le> u"
    using useds_bounds [of pre c off u lo] useds_bounds [of post c off u b] assms(1,3) by auto
  with assms(5,6) show False by linarith
qed

lemma useds_shape:
  assumes i: "heap_inv lo (pre @ [Free s] @ post) h" and c: "core lo (pre @ mid @ post) h'" "max_heap_size h' = max_heap_size h"
    and k: "keeps (useds lo (pre @ [Free s] @ post)) (hmem h) (hmem h')"
    and m: "extent mid = s" "useds (lo + extent pre) mid = [(c, off, u)]" "lo + extent pre \<le> c" "c + u \<le> lo + extent pre + s"
    and f: "no_adj mid" "mid \<noteq> []" 
  shows "grants lo (pre @ [Free s] @ post) h (pre @ mid @ post) h' (c, off, u)"
proof -
  have w: "list_all wf_block (pre @ [Free s] @ post)" using i by (auto simp: heap_inv_def core_def)
  have "(c, off, u) \<notin> set (useds lo (pre @ [Free s] @ post))"
    by (rule useds_fresh [OF w]) (use m in auto)
  moreover have "no_adj (pre @ mid @ post)" using i f by (auto simp: heap_inv_def no_adj_append no_adj_Cons)
  ultimately show ?thesis using i c k m by (simp add: grants_def heap_inv_def useds_append add.assoc)
qed
lemma carve_grants:
  assumes i: "heap_inv lo (pre @ [Free s] @ post) h" and n: "32 \<le> n" "n < s"
    and c: "core lo (pre @ carve s n @ post) h'" "max_heap_size h' = max_heap_size h" "keeps (useds lo (pre @ [Free s] @ post)) (hmem h) (hmem h')"
  shows "\<exists>k. n \<le> k \<and> grants lo (pre @ [Free s] @ post) h (pre @ carve s n @ post) h' (lo + extent pre, 0, k)"
proof -
  let ?k = "if s - n \<le> 32 then s else n"
  have "grants lo (pre @ [Free s] @ post) h (pre @ carve s n @ post) h' (lo + extent pre, 0, ?k)"
    by (rule useds_shape [OF i c]) (use n in \<open>auto simp: carve_def no_adj_Cons\<close>)
  then show ?thesis using n by (intro exI [of _ ?k]) simp
qed

lemma lost_carve: "Lost l \<notin> set (carve s n)"
  by (simp add: carve_def)

lemma generic_malloc_inv:
  assumes "heap_inv lo bs h"
  shows "\<exists>p h'. tegrabl_generic_malloc (free_list h 0) sz h = Some (p, h') \<and>
    (p = 0 \<and> h' = h \<or> (\<exists>bs' c k. p = W (c + 24) \<and> 24 + unat sz \<le> k \<and> grants lo bs h bs' h' (c, 0, k) \<and> (\<forall>l. Lost l \<in> set bs' \<longrightarrow> Lost l \<in> set bs)))"
proof -
  define n where "n = unat (MAX64 (malloc_size sz) 32)"
  have c: "core lo bs h" using assms by (simp add: heap_inv_def)
  obtain q where q: "first_fit (hmem h) (MAX64 (malloc_size sz) 32) (free_list h 0) = Some q" using core_fit_ends [OF c] by blast
  show ?thesis
  proof (cases "sz = 0 \<or> malloc_size sz < sz \<or> q = 0")
    case True
    then show ?thesis using q by (auto simp: tegrabl_generic_malloc_def)
  next
    case False
    then have ok: "sz \<noteq> 0" "\<not> malloc_size sz < sz" "q \<noteq> 0" by auto
    have n: "32 \<le> n" "24 + unat sz \<le> n" using malloc_size_bound [OF ok(2)] by (auto simp: n_def unat_MAX64)
    have "first_fit (hmem h) (W n) (free_list h 0) = Some q" using q by (simp add: n_def)
    from generic_malloc_carves [OF c n_def this ok(3,1,2)]
    obtain pre s post h' where g: "bs = pre @ [Free s] @ post" "n < s"
        "tegrabl_generic_malloc (free_list h 0) sz h = Some (W (lo + extent pre + 24), h')"
        "core lo (pre @ carve s n @ post) h'" "max_heap_size h' = max_heap_size h" "keeps (useds lo bs) (hmem h) (hmem h')"
      by blast
    obtain k where "n \<le> k" "grants lo bs h (pre @ carve s n @ post) h' (lo + extent pre, 0, k)"
      using carve_grants [of lo pre s post h n h'] assms g n by blast
    moreover from this have "24 + unat sz \<le> k" using n(2) by linarith
    moreover have "\<forall>l. Lost l \<in> set (pre @ carve s n @ post) \<longrightarrow> Lost l \<in> set bs" using g(1) lost_carve by auto
    ultimately show ?thesis using g(3) by blast
  qed
qed

lemma malloc_inv:
  assumes "heap_inv lo bs h"
  shows "\<exists>p h'. tegrabl_malloc sz h = Some (p, h') \<and>
    (p = 0 \<and> h' = h \<or> (\<exists>bs' c k. p = W (c + 24) \<and> 24 + unat sz \<le> k \<and> grants lo bs h bs' h' (c, 0, k) \<and> (\<forall>l. Lost l \<in> set bs' \<longrightarrow> Lost l \<in> set bs)))"
  using generic_malloc_inv [OF assms, of sz] by (simp add: tegrabl_malloc_def)


section \<open>Releasing and merging\<close>

context heap_at
begin

text \<open>Two neighbouring free blocks become one; \<^verbatim>\<open>tegrabl_heap_merge_blocks\<close> does this on either side.\<close>

lemma merged:
  assumes "mid = [Free s, Free t]" "m' = link_prev y (W a) (set_next (W a) y (set_size (W a) (W (s + t)) (hmem h)))"
  shows "core lo (pre @ [Free (s + t)] @ post) (h\<lparr>hmem := m'\<rparr>)" "keeps (useds lo pre @ useds b post) (hmem h) m'"
proof -
  have ab: "0 < a" "a + s + t = b" "b \<le> 2 ^ 64" "32 \<le> s" "32 \<le> t" using bounds at assms(1) by auto
  have a0: "W a \<noteq> 0" using ab by (intro W_nonzero) auto
  have g: "block_prev (hmem h) (W a) = x" "block_magic (hmem h) (W a) = FREE_MAGIC"
    using linked_around frees_mid assms(1) by (auto simp: frees_ok_def)
  have sep: "x = 0 \<or> apart x (W a) \<and> apart (W a) x \<and> W a \<noteq> x" "y = 0 \<or> apart y (W a) \<and> apart (W a) y \<and> W a \<noteq> y"
    using sep_mid [of a] ab by auto
  have t: "touched m'" unfolding assms(2) by (intro touch touches_refl) (use ab in auto)
  then show "keeps (useds lo pre @ useds b post) (hmem h) m'" by (rule touched_keeps)
  have l: "linked (hmem h) 0 (xs @ (W a # W (a + s) # ys)) 0" using core at assms(1) by (simp add: core_def nodes_append add.assoc)
  then have "linked (hmem h) 0 xs (W a)" by (simp add: linked_append)
  then have "xs \<noteq> [] \<Longrightarrow> block_next (hmem h) (last xs) = W a" by (cases xs rule: rev_cases) (simp_all add: linked_append)
  then have "relinked (hmem h) m' xs [W a] ys"
    using x_in y_in sep sep_xy nb a0 g by (auto simp: relinked_def assms(2) get_link get_set)
  moreover have "block_size m' (W a) = W (s + t)" "block_magic m' (W a) = FREE_MAGIC"
    using sep g by (auto simp: assms(2) get_link get_set)
  ultimately show "core lo (pre @ [Free (s + t)] @ post) (h\<lparr>hmem := m'\<rparr>)"
    by (intro replaced [of _ m']) (use t bounds ab assms(1) in \<open>auto simp: frees_ok_def useds_ok_def hd_append\<close>)
qed

end

fun absorb_next :: "nat \<Rightarrow> block list \<Rightarrow> nat \<times> block list" where
  "absorb_next s (Free t # post) = (s + t, post)"
| "absorb_next s post = (s, post)"

definition absorb_prev :: "block list \<Rightarrow> nat \<Rightarrow> block list \<times> nat" where
  "absorb_prev pre s = (if pre \<noteq> [] \<and> is_free (last pre) then (butlast pre, bsize (last pre) + s) else (pre, s))"

text \<open>The next free block starts where this one ends exactly when it is the next block.\<close>

lemma next_adjacent:
  assumes "list_all wf_block post" "0 < b" "b + extent post \<le> 2 ^ 64" "hd (nodes b post @ [0]) \<noteq> 0"
  shows "W b = hd (nodes b post @ [0]) \<longleftrightarrow> (\<exists>t p. post = Free t # p)"
proof (cases post)
  case Nil
  with assms(4) show ?thesis by simp
next
  case (Cons c p)
  show ?thesis
  proof (cases "is_free c")
    case True
    with Cons show ?thesis by (cases c) auto
  next
    case False
    then have pos: "0 < bsize c" and nod: "nodes b post = nodes (b + bsize c) p" using Cons assms(1) by (cases c; auto)+
    have "hd (nodes b post @ [0]) \<in> set (nodes (b + bsize c) p)" using assms(4) nod by (cases "nodes (b + bsize c) p") auto
    then obtain z u where z: "hd (nodes b post @ [0]) = W z" "(z, u) \<in> set (frees (b + bsize c) p)" using nodes_in by metis
    have "b + bsize c \<le> z" "z + 32 \<le> 2 ^ 64" using frees_bounds [OF _ z(2)] assms(1,3) Cons by auto
    then have "W b \<noteq> W z" using pos W_eq [of b z] by auto
    then show ?thesis using z(1) Cons False by auto
  qed
qed

lemma prev_adjacent:
  assumes "list_all wf_block pre" "0 < lo" "lo + extent pre < 2 ^ 64" "last (0 # nodes lo pre) \<noteq> 0"
    and "frees_ok m (frees lo pre)"
  shows "last (0 # nodes lo pre) + block_size m (last (0 # nodes lo pre)) = W (lo + extent pre) \<longleftrightarrow> pre \<noteq> [] \<and> is_free (last pre)"
proof (cases pre rule: rev_cases)
  case Nil
  with assms(4) show ?thesis by simp
next
  case (snoc p c)
  show ?thesis
  proof (cases "is_free c")
    case True
    then obtain t where t: "c = Free t" by (cases c) auto
    then show ?thesis using snoc assms(5) by (simp add: nodes_append frees_append frees_ok_def)
  next
    case False
    then have pos: "0 < bsize c" and nod: "nodes lo pre = nodes lo p" using snoc assms(1) by (cases c; auto simp: nodes_append)+
    have "last (0 # nodes lo pre) \<in> set (nodes lo p)" using assms(4) nod by (auto split: if_splits)
    then obtain z u where z: "last (0 # nodes lo pre) = W z" "(z, u) \<in> set (frees lo p)" using nodes_in by metis
    have "z + u \<le> lo + extent p" using frees_bounds [OF _ z(2)] assms(1) snoc by auto
    moreover have "block_size m (W z) = W u" using z(2) assms(5) snoc by (auto simp: frees_ok_def frees_append)
    ultimately have "W z + block_size m (W z) \<noteq> W (lo + extent pre)"
      using pos snoc assms(3) W_eq [of "z + u" "lo + extent pre"] by auto
    then show ?thesis using z(1) snoc False by auto
  qed
qed


definition merge_step :: "u64 \<Rightarrow> u64 \<Rightarrow> mem \<Rightarrow> mem" where
  "merge_step p q m =
     (let a = set_size p (block_size m p + block_size m q) m; b = set_next p (block_next a q) a
      in link_prev (block_next b q) p b)"

lemma merge_blocks_alt:
  "p \<noteq> 0 \<Longrightarrow> tegrabl_heap_merge_blocks p m =
     (let nxt = block_next m p; prv = block_prev m p;
          m1 = (if nxt \<noteq> 0 \<and> p + block_size m p = nxt then merge_step p nxt m else m)
      in if prv \<noteq> 0 \<and> prv + block_size m1 prv = p then (prv, merge_step prv p m1) else (p, m1))"
  by (simp add: tegrabl_heap_merge_blocks_def merge_step_def Let_def)

lemma merge_step_core:
  assumes c: "core lo (pre @ [Free s, Free t] @ post) h" and a: "a = lo + extent pre"
  shows "core lo (pre @ [Free (s + t)] @ post) (h\<lparr>hmem := merge_step (W a) (W (a + s)) (hmem h)\<rparr>) \<and>
    keeps (useds lo (pre @ [Free s, Free t] @ post)) (hmem h) (merge_step (W a) (W (a + s)) (hmem h))"
proof -
  let ?m = "hmem h" and ?y = "hd (nodes (a + s + t) post @ [0])"
  have H: "heap_at lo pre [Free s, Free t] post h a (a + s + t) (last (0 # nodes lo pre)) ?y"
    using heap_atI [OF c] a by (simp add: add.assoc)
  have ab: "0 < lo" "a + s + t \<le> 2 ^ 64" "32 \<le> s" "32 \<le> t" using c a by (auto simp: core_def)
  have ap: "apart (W a) (W (a + s))" "W (a + s) \<noteq> W a" using apartW [of a "a + s"] W_eq [of "a + s" a] ab by auto
  have l: "linked ?m (last (0 # nodes lo pre)) [W a, W (a + s)] ?y" using heap_at.linked_around [OF H] by simp
  have f: "block_size ?m (W a) = W s" "block_size ?m (W (a + s)) = W t" using heap_at.frees_mid(1) [OF H] by (auto simp: frees_ok_def)
  have "block_next ?m (W (a + s)) = ?y" using l by simp
  then have "merge_step (W a) (W (a + s)) ?m = link_prev ?y (W a) (set_next (W a) ?y (set_size (W a) (W (s + t)) ?m))"
    using f ap by (simp add: merge_step_def Let_def get_set del: of_nat_add) (simp add: f)
  then show ?thesis
    using heap_at.merged [OF H refl] by (simp add: useds_append a add.assoc)
qed

lemma useds_absorb:
  "absorb_next s post = (s1, post1) \<Longrightarrow> useds lo (pre @ Free s1 # post1) = useds lo (pre @ Free s # post)"
  "absorb_prev pre s = (pre1, s2) \<Longrightarrow> useds lo (pre1 @ Free s2 # post) = useds lo (pre @ Free s # post)"
proof -
  show "absorb_next s post = (s1, post1) \<Longrightarrow> useds lo (pre @ Free s1 # post1) = useds lo (pre @ Free s # post)"
    by (cases "(s, post)" rule: absorb_next.cases) (auto simp: useds_append add.assoc)
  show "absorb_prev pre s = (pre1, s2) \<Longrightarrow> useds lo (pre1 @ Free s2 # post) = useds lo (pre @ Free s # post)"
  proof (cases pre rule: rev_cases)
    case (snoc p c)
    assume "absorb_prev pre s = (pre1, s2)"
    with snoc show ?thesis by (cases c) (auto simp: absorb_prev_def useds_append add.assoc)
  qed (auto simp: absorb_prev_def)
qed

lemma merge_next_core:
  assumes c: "core lo (pre @ [Free s] @ post) h" and a: "a = lo + extent pre" and n: "absorb_next s post = (s1, post1)"
    and m1: "m1 = (if block_next (hmem h) (W a) \<noteq> 0 \<and> W a + block_size (hmem h) (W a) = block_next (hmem h) (W a)
      then merge_step (W a) (block_next (hmem h) (W a)) (hmem h) else hmem h)"
  shows "core lo (pre @ [Free s1] @ post1) (h\<lparr>hmem := m1\<rparr>) \<and> keeps (useds lo (pre @ [Free s] @ post)) (hmem h) m1"
proof -
  let ?y = "hd (nodes (a + s) post @ [0])"
  have H: "heap_at lo pre [Free s] post h a (a + s) (last (0 # nodes lo pre)) ?y" using heap_atI [OF c] a by simp
  have ab: "0 < lo" "a + s + extent post \<le> 2 ^ 64" "list_all wf_block post" "32 \<le> s" using c a by (auto simp: core_def)
  have g: "block_next (hmem h) (W a) = ?y" "block_size (hmem h) (W a) = W s"
    using heap_at.linked_around [OF H] heap_at.frees_mid(1) [OF H] by (auto simp: frees_ok_def)
  have cond: "(?y \<noteq> 0 \<and> W a + W s = ?y) \<longleftrightarrow> (\<exists>t p. post = Free t # p)"
  proof (cases "?y = 0")
    case True
    have "post \<noteq> Free t # p" for t p
      using True W_nonzero [of "a + s"] ab a by auto
    with True show ?thesis by auto
  next
    case False
    then show ?thesis using next_adjacent [of post "a + s"] ab by simp
  qed
  show ?thesis
  proof (cases "\<exists>t p. post = Free t # p")
    case True
    then obtain t p where p: "post = Free t # p" by blast
    then have "m1 = merge_step (W a) (W (a + s)) (hmem h)" using m1 g cond by simp
    then show ?thesis using merge_step_core [of lo pre s t p h a] c a n p by simp
  next
    case False
    then have "m1 = hmem h" "s1 = s" "post1 = post"
      using m1 g cond n by (auto elim: absorb_next.elims)
    then show ?thesis using c by (simp add: keeps_def case_prod_beta)
  qed
qed


lemma merge_blocks_core:
  assumes c: "core lo (pre @ [Free s] @ post) h" and a: "a = lo + extent pre"
    and n: "absorb_next s post = (s1, post1)" and p: "absorb_prev pre s1 = (pre1, s2)"
  shows "\<exists>m'. tegrabl_heap_merge_blocks (W a) (hmem h) = (W (lo + extent pre1), m') \<and>
    core lo (pre1 @ [Free s2] @ post1) (h\<lparr>hmem := m'\<rparr>) \<and> keeps (useds lo (pre @ [Free s] @ post)) (hmem h) m'"
proof -
  let ?m = "hmem h" and ?x = "last (0 # nodes lo pre)"
  have H: "heap_at lo pre [Free s] post h a (a + s) ?x (hd (nodes (a + s) post @ [0]))" using heap_atI [OF c] a by simp
  have ab: "0 < lo" "a + s + extent post \<le> 2 ^ 64" "list_all wf_block pre" "32 \<le> s" using c a by (auto simp: core_def)
  have a0: "W a \<noteq> 0" using ab a by (intro W_nonzero) auto
  have x: "block_prev ?m (W a) = ?x" using heap_at.linked_around [OF H] by simp
  define m1 where "m1 = (if block_next ?m (W a) \<noteq> 0 \<and> W a + block_size ?m (W a) = block_next ?m (W a)
      then merge_step (W a) (block_next ?m (W a)) ?m else ?m)"
  note c1 = merge_next_core [OF c a n m1_def]
  have e: "tegrabl_heap_merge_blocks (W a) ?m =
      (if ?x \<noteq> 0 \<and> ?x + block_size m1 ?x = W a then (?x, merge_step ?x (W a) m1) else (W a, m1))"
    using merge_blocks_alt [OF a0, of ?m] x by (simp add: m1_def Let_def)
  have cond: "(?x \<noteq> 0 \<and> ?x + block_size m1 ?x = W a) \<longleftrightarrow> pre \<noteq> [] \<and> is_free (last pre)"
  proof (cases "?x = 0")
    case True
    have "is_free b \<Longrightarrow> pre \<noteq> q @ [b]" for q b
      using True W_nonzero [of "lo + extent q"] ab a by (cases b) (auto simp: nodes_append)
    with True show ?thesis by (cases pre rule: rev_cases) auto
  next
    case False
    have "frees_ok m1 (frees lo pre)" using c1 by (auto simp: core_def frees_append frees_ok_def)
    with False show ?thesis using prev_adjacent [of pre lo m1] ab a by simp
  qed
  show ?thesis
  proof (cases "pre \<noteq> [] \<and> is_free (last pre)")
    case True
    then obtain q u where q: "pre = q @ [Free u]" by (cases pre rule: rev_cases) (auto elim: is_free.elims)
    have x': "?x = W (lo + extent q)" using q by (simp add: nodes_append)
    have "core lo (q @ [Free u, Free s1] @ post1) (h\<lparr>hmem := m1\<rparr>)" using c1 q by simp
    from merge_step_core [OF this refl] have "core lo (q @ [Free (u + s1)] @ post1) (h\<lparr>hmem := merge_step ?x (W a) m1\<rparr>)"
        "keeps (useds lo (q @ [Free u, Free s1] @ post1)) m1 (merge_step ?x (W a) m1)"
      using q a x' by (simp_all add: add.assoc)
    moreover have "useds lo (q @ [Free u, Free s1] @ post1) = useds lo (pre @ [Free s] @ post)"
      using useds_absorb(1) [OF n, of lo pre] q by simp
    ultimately show ?thesis using True cond e c1 p q x' by (auto simp: absorb_prev_def intro: keeps_trans)
  next
    case False
    then show ?thesis using cond e c1 p a by (auto simp: absorb_prev_def)
  qed
qed

lemma absorb_none: "post = [] \<or> \<not> is_free (hd post) \<Longrightarrow> absorb_next s post = (s, post)"
    "pre = [] \<or> \<not> is_free (last pre) \<Longrightarrow> absorb_prev pre s = (pre, s)"
  by (cases "(s, post)" rule: absorb_next.cases) (auto simp: absorb_prev_def)

lemma no_adj_absorb:
  assumes "no_adj pre" "no_adj post" "absorb_next s post = (s1, post1)" "absorb_prev pre s1 = (pre1, s2)"
  shows "post1 = [] \<or> \<not> is_free (hd post1)" "pre1 = [] \<or> \<not> is_free (last pre1)" "no_adj (pre1 @ [Free s2] @ post1)"
proof -
  show p: "post1 = [] \<or> \<not> is_free (hd post1)"
    using assms(2,3) by (cases "(s, post)" rule: absorb_next.cases) (auto simp: no_adj_Cons)
  show q: "pre1 = [] \<or> \<not> is_free (last pre1)"
    using assms(1,4) by (cases pre rule: rev_cases) (auto simp: absorb_prev_def no_adj_append no_adj_Cons split: if_splits)
  have "no_adj post1" using assms(2,3) by (cases "(s, post)" rule: absorb_next.cases) (auto simp: no_adj_Cons)
  moreover have "no_adj pre1" using assms(1,4) by (cases pre rule: rev_cases) (auto simp: absorb_prev_def no_adj_append split: if_splits)
  ultimately show "no_adj (pre1 @ [Free s2] @ post1)" using p q by (auto simp: no_adj_append no_adj_Cons)
qed

lemma merge_loop_core:
  assumes c: "core lo (pre @ [Free s] @ post) h" and a: "a = lo + extent pre" and na: "no_adj pre" "no_adj post"
    and n: "absorb_next s post = (s1, post1)" and p: "absorb_prev pre s1 = (pre1, s2)"
  shows "\<exists>m'. merge_loop (W a) (hmem h) = Some (W (lo + extent pre1), m') \<and>
    core lo (pre1 @ [Free s2] @ post1) (h\<lparr>hmem := m'\<rparr>) \<and> keeps (useds lo (pre @ [Free s] @ post)) (hmem h) m'"
proof -
  obtain m' where m': "tegrabl_heap_merge_blocks (W a) (hmem h) = (W (lo + extent pre1), m')"
      "core lo (pre1 @ [Free s2] @ post1) (h\<lparr>hmem := m'\<rparr>)" "keeps (useds lo (pre @ [Free s] @ post)) (hmem h) m'"
    using merge_blocks_core [OF c a n p] by blast
  show ?thesis
  proof (cases "W (lo + extent pre1) = W a")
    case True
    then show ?thesis using m' by (subst merge_loop.simps) simp
  next
    case False
    note ab = no_adj_absorb [OF na n p]
    obtain m'' where m'': "tegrabl_heap_merge_blocks (W (lo + extent pre1)) m' = (W (lo + extent pre1), m'')"
        "core lo (pre1 @ [Free s2] @ post1) (h\<lparr>hmem := m''\<rparr>)" "keeps (useds lo (pre1 @ [Free s2] @ post1)) m' m''"
      using merge_blocks_core [OF m'(2) refl absorb_none(1) [OF ab(1)] absorb_none(2) [OF ab(2)]] by auto
    have "useds lo (pre1 @ [Free s2] @ post1) = useds lo (pre @ [Free s] @ post)"
      using useds_absorb(1) [OF n, of lo pre] useds_absorb(2) [OF p, of lo post1] by simp
    then have "keeps (useds lo (pre @ [Free s] @ post)) (hmem h) m''" using m'(3) m''(3) keeps_trans by metis
    moreover have "merge_loop (W (lo + extent pre1)) m' = Some (W (lo + extent pre1), m'')"
      using m''(1) by (subst merge_loop.simps) simp
    then have "merge_loop (W a) (hmem h) = Some (W (lo + extent pre1), m'')"
      using m'(1) False by (subst merge_loop.simps) (simp del: merge_loop.simps)
    ultimately show ?thesis using m''(2) by blast
  qed
qed


lemma free_walk_split:
  "linked m p (xs @ ys) 0 \<Longrightarrow> \<forall>q \<in> set xs. q < ptr \<Longrightarrow> ys = [] \<or> \<not> hd ys < ptr \<Longrightarrow>
    free_walk m ptr p (hd (xs @ ys @ [0])) = Some (last (p # xs), hd (ys @ [0]))"
proof (induction xs arbitrary: p)
  case Nil
  then show ?case by (subst free_walk.simps) (cases ys; simp)
next
  case (Cons a xs)
  then show ?case using Cons.IH [of a] by (subst free_walk.simps) (auto simp: hd_append)
qed

context heap_at
begin

lemma xs_below: "q \<in> set xs \<Longrightarrow> a \<le> z \<Longrightarrow> z < 2 ^ 64 \<Longrightarrow> q < W z"
proof -
  assume q: "q \<in> set xs" "a \<le> z" "z < 2 ^ 64"
  then obtain w s where w: "q = W w" "(w, s) \<in> set (frees lo pre)" using nodes_in by metis
  have "list_all wf_block pre" using core by (auto simp: core_def)
  then have "w + 32 \<le> a" using frees_bounds [OF _ w(2)] at by auto
  then show "q < W z" using w(1) q W_less [of w z] by simp
qed

lemma ys_above: "q \<in> set ys \<Longrightarrow> z \<le> b \<Longrightarrow> z < 2 ^ 64 \<Longrightarrow> \<not> q < W z"
proof -
  assume q: "q \<in> set ys" "z \<le> b" "z < 2 ^ 64"
  then obtain w s where w: "q = W w" "(w, s) \<in> set (frees b post)" using nodes_in by metis
  have "list_all wf_block post" "b + extent post \<le> 2 ^ 64" using core at by (auto simp: core_def)
  then have "b \<le> w" "w < 2 ^ 64" using frees_bounds [OF _ w(2)] by auto
  then show "\<not> q < W z" using w(1) q W_less [of w z] by simp
qed

lemma inserted:
  assumes "mid = [Lost s]" "32 \<le> s" "touched m'" "relinked (hmem h) m' xs [W a] ys"
    and "block_magic m' (W a) = FREE_MAGIC" "block_size m' (W a) = W s"
    and "hmem h' = m'" "free_list h' 1 = 0" "free_list h' 0 = hd (xs @ [W a] @ ys @ [0])"
  shows "core lo (pre @ [Free s] @ post) h'"
  by (rule replaced [of _ m']) (use assms in \<open>auto simp: frees_ok_def useds_ok_def\<close>)

lemma freed:
  assumes "mid = [Lost s]" "32 \<le> s"
    and "m' = link_prev y (W a) (set_magic (W a) FREE_MAGIC (set_next (W a) y (set_prev (W a) x (link_next x (W a) (set_size (W a) (W s) (hmem h))))))"
  shows "core lo (pre @ [Free s] @ post) (h\<lparr>hmem := m', free_list := (free_list h)(0 := hd (xs @ [W a] @ ys @ [0]))\<rparr>)"
    and "keeps (useds lo pre @ useds b post) (hmem h) m'"
proof -
  have ab: "0 < a" "a + s = b" "b \<le> 2 ^ 64" using bounds at assms(1) by auto
  have a0: "W a \<noteq> 0" using ab assms(2) by (intro W_nonzero) auto
  have sep: "x = 0 \<or> apart x (W a) \<and> apart (W a) x \<and> W a \<noteq> x" "y = 0 \<or> apart y (W a) \<and> apart (W a) y \<and> W a \<noteq> y"
    using sep_mid [of a] ab assms(2) by auto
  have t: "touched m'" unfolding assms(3) by (intro touch touches_refl) (use ab assms(2) in auto)
  then show "keeps (useds lo pre @ useds b post) (hmem h) m'" by (rule touched_keeps)
  have "relinked (hmem h) m' xs [W a] ys"
    using x_in y_in sep sep_xy nb a0 by (auto simp: relinked_def assms(3) get_link get_set)
  moreover have "block_magic m' (W a) = FREE_MAGIC" "block_size m' (W a) = W s"
    using sep by (auto simp: assms(3) get_link get_set)
  ultimately show "core lo (pre @ [Free s] @ post) (h\<lparr>hmem := m', free_list := (free_list h)(0 := hd (xs @ [W a] @ ys @ [0]))\<rparr>)"
    using t bounds(4) by (intro inserted [OF assms(1,2), of m']) simp_all
qed

lemma lost_linked: "mid = [Lost s] \<Longrightarrow> linked (hmem h) 0 (xs @ ys) 0" "mid = [Lost s] \<Longrightarrow> free_list h 0 = hd (xs @ ys @ [0])"
  using core at by (auto simp: core_def nodes_append add.assoc)

lemma walk_to:
  assumes "mid = [Lost s]" "a < z" "z \<le> b" "z < 2 ^ 64" "32 \<le> s"
  shows "free_walk (set_size (W a) w (hmem h)) (W z) 0 (free_list h 0) = Some (x, y)"
proof -
  have "linked (set_size (W a) w (hmem h)) 0 (xs @ ys) 0 = linked (hmem h) 0 (xs @ ys) 0"
  proof (rule linked_cong)
    fix p assume "p \<in> set (xs @ ys)"
    then have "apart (W a) p" using mid_apart [OF core at, of a p] at(2) assms(1,5) by auto
    then show "block_prev (set_size (W a) w (hmem h)) p = block_prev (hmem h) p \<and> block_next (set_size (W a) w (hmem h)) p = block_next (hmem h) p"
      by (simp add: block_far)
  qed
  then have l: "linked (set_size (W a) w (hmem h)) 0 (xs @ ys) 0" using lost_linked(1) [OF assms(1)] by simp
  have "\<forall>q \<in> set xs. q < W z" using xs_below assms(2,4) by simp
  moreover have "ys = [] \<or> \<not> hd ys < W z" using ys_above [of "hd ys" z] assms(3,4) by auto
  ultimately show ?thesis using free_walk_split [OF l, of "W z"] lost_linked(2) [OF assms(1)] nb by simp
qed

end


lemma useds_split: "(c, off, u) \<in> set (useds lo bs) \<Longrightarrow> \<exists>pre post. bs = pre @ [Used off u] @ post \<and> c = lo + extent pre"
proof (induction bs arbitrary: lo)
  case (Cons b bs)
  show ?case
  proof (cases "b = Used off u \<and> c = lo")
    case True
    then show ?thesis by (intro exI [of _ "[]"] exI [of _ bs]) simp
  next
    case False
    with Cons.prems have "(c, off, u) \<in> set (useds (lo + bsize b) bs)" by (cases b) auto
    from Cons.IH [OF this] obtain pre post where "bs = pre @ [Used off u] @ post" "c = lo + bsize b + extent pre" by blast
    then show ?thesis by (intro exI [of _ "b # pre"] exI [of _ post]) simp
  qed
qed simp

lemma sorted_nodes:
  assumes "list_all wf_block bs" "lo + extent bs \<le> 2 ^ 64"
  shows "sorted (nodes lo bs)"
  using assms
proof (induction lo bs rule: frees.induct)
  case (2 lo s bs)
  have "W lo \<le> W b" if b: "(b, t) \<in> set (frees (lo + s) bs)" for b t
  proof -
    have "lo + s \<le> b" "b + 32 \<le> 2 ^ 64" using frees_bounds [OF _ b] 2(2,3) by auto
    then show ?thesis by (subst W_le) auto
  qed
  then show ?case using 2 by (force dest: nodes_in)
qed auto

context heap_at
begin

lemma head_after:
  assumes "mid = [Lost s]" "32 \<le> s" "tf = W a \<or> xs \<noteq> [] \<and> tf = last xs"
  shows "lower_head 0 tf (free_list h) = (free_list h)(0 := hd (xs @ [W a] @ ys @ [0]))"
proof (cases "xs = []")
  case True
  have ab: "a + s = b" "b \<le> 2 ^ 64" using bounds at assms(1) by auto
  have "y = 0 \<or> W a < y"
  proof (cases "ys = []")
    case False
    then have "y \<in> set ys" using y_in by auto
    then obtain w t where w: "y = W w" "(w, t) \<in> set (frees b post)" using nodes_in by metis
    have "list_all wf_block post" "b + extent post \<le> 2 ^ 64" using core at by (auto simp: core_def)
    then have "b \<le> w" "w < 2 ^ 64" using frees_bounds [OF _ w(2)] by auto
    then show ?thesis using w(1) ab assms(2) by (simp add: W_less)
  qed (use y_in in auto)
  with True assms(3) show ?thesis using lost_linked(2) [OF assms(1)] nb(2) by (auto simp: lower_head_def)
next
  case False
  have hd: "free_list h 0 = hd xs" using lost_linked(2) [OF assms(1)] False by simp
  have "sorted xs" using core by (auto simp: core_def intro: sorted_nodes)
  then have "hd xs \<le> last xs" using False by (cases xs) auto
  moreover have "hd xs < W a" using xs_below [of "hd xs" a] False bounds(2) at assms(1,2) by auto
  moreover have "hd xs \<noteq> 0" using False linked_nonzero [OF lost_linked(1) [OF assms(1)]] by (cases xs) auto
  ultimately show ?thesis using assms(3) hd False by (auto simp: lower_head_def)
qed

end

text \<open>Releasing a used block leaves the others alone and merges it with its free neighbours.\<close>

definition releases :: "nat \<Rightarrow> block list \<Rightarrow> tegrabl_heap \<Rightarrow> block list \<Rightarrow> tegrabl_heap \<Rightarrow> nat \<times> nat \<times> nat \<Rightarrow> bool" where
  "releases lo bs h bs' h' g \<longleftrightarrow> heap_inv lo bs' h' \<and> extent bs' = extent bs \<and> set (useds lo bs') = set (useds lo bs) - {g} \<and>
     keeps (useds lo bs') (hmem h) (hmem h') \<and> (\<forall>l. Lost l \<in> set bs' \<longrightarrow> Lost l \<in> set bs)"

lemma absorb_extent:
  assumes "absorb_next s post = (s1, post1)" "absorb_prev pre s1 = (pre1, s2)"
  shows "extent (pre1 @ [Free s2] @ post1) = extent pre + s + extent post" "set pre1 \<subseteq> set pre" "set post1 \<subseteq> set post"
    "pre1 = pre \<or> pre = pre1 @ [Free (s2 - s1)] \<and> s1 \<le> s2"
proof -
  show n: "set post1 \<subseteq> set post" using assms(1) by (cases "(s, post)" rule: absorb_next.cases) auto
  have e: "s1 + extent post1 = s + extent post" using assms(1) by (cases "(s, post)" rule: absorb_next.cases) auto
  show p: "pre1 = pre \<or> pre = pre1 @ [Free (s2 - s1)] \<and> s1 \<le> s2"
  proof (cases pre rule: rev_cases)
    case (snoc q b)
    with assms(2) show ?thesis by (cases b) (auto simp: absorb_prev_def)
  qed (use assms(2) in \<open>auto simp: absorb_prev_def\<close>)
  show "set pre1 \<subseteq> set pre" using p by auto
  have "extent pre1 + s2 = extent pre + s1"
    using p assms(2) by (cases pre rule: rev_cases) (auto simp: absorb_prev_def split: if_splits)
  with e show "extent (pre1 @ [Free s2] @ post1) = extent pre + s + extent post" by simp
qed


lemma generic_free_core:
  assumes i: "heap_inv lo (pre @ [Used off u] @ post) h" and a: "a = lo + extent pre"
    and n: "absorb_next u post = (s1, post1)" and p: "absorb_prev pre s1 = (pre1, s2)"
  shows "\<exists>m'. tegrabl_generic_free (free_list h 0) (W (a + off + 24)) (hmem h) = Some (W (lo + extent pre1), m') \<and>
    core lo (pre1 @ [Free s2] @ post1) (h\<lparr>hmem := m', free_list := (free_list h)(0 := hd (nodes lo pre @ [W a] @ nodes (a + u) post @ [0]))\<rparr>) \<and>
    keeps (useds lo (pre @ [Free u] @ post)) (hmem h) m'"
proof -
  let ?x = "last (0 # nodes lo pre)" and ?y = "hd (nodes (a + u) post @ [0])" and ?m = "hmem h"
  have c: "core lo (pre @ [Used off u] @ post) h" "no_adj pre" "no_adj post" using i by (auto simp: heap_inv_def no_adj_append no_adj_Cons)
  then have "core lo (pre @ [Lost u] @ post) h" using core_forget by fastforce
  then have H: "heap_at lo pre [Lost u] post h a (a + u) ?x ?y" using heap_atI [of lo pre "[Lost u]" post h] a by simp
  have b: "0 < lo" "off + 32 \<le> u" "a + u \<le> 2 ^ 64" using c(1) a by (auto simp: core_def)
  have f: "block_magic ?m (W (a + off)) = ALLOC_MAGIC" "block_size ?m (W (a + off)) = W u" "block_start ?m (W (a + off)) = W a"
    using c(1) a by (auto simp: core_def useds_append useds_ok_def)
  define m6 where "m6 = link_prev ?y (W a) (set_magic (W a) FREE_MAGIC (set_next (W a) ?y (set_prev (W a) ?x (link_next ?x (W a) (set_size (W a) (W u) ?m)))))"
  define h6 where "h6 = h\<lparr>hmem := m6, free_list := (free_list h)(0 := hd (nodes lo pre @ [W a] @ nodes (a + u) post @ [0]))\<rparr>"
  have c6: "core lo (pre @ [Free u] @ post) h6" and k6: "keeps (useds lo pre @ useds (a + u) post) ?m m6"
    using heap_at.freed [OF H refl _ m6_def] b by (auto simp: h6_def)
  obtain m' where m': "merge_loop (W a) m6 = Some (W (lo + extent pre1), m')" "core lo (pre1 @ [Free s2] @ post1) (h6\<lparr>hmem := m'\<rparr>)"
      "keeps (useds lo (pre @ [Free u] @ post)) m6 m'"
    using merge_loop_core [OF c6 a c(2,3) n p] by (auto simp: h6_def)
  have "free_walk (set_size (W a) (W u) ?m) (W (a + off + 24)) 0 (free_list h 0) = Some (?x, ?y)"
    by (rule heap_at.walk_to [OF H refl]) (use b in auto)
  moreover have "W (a + off + 24) \<noteq> 0" using b a by (intro W_nonzero) auto
  moreover have "W (a + off + 24) - 24 = W (a + off)" by simp
  ultimately have "tegrabl_generic_free (free_list h 0) (W (a + off + 24)) ?m = Some (W (lo + extent pre1), m')"
    using f m'(1) by (simp add: tegrabl_generic_free_def Let_def m6_def del: of_nat_add)
  moreover have "keeps (useds lo (pre @ [Free u] @ post)) ?m m'"
    using k6 m'(3) by (auto simp: useds_append a intro: keeps_trans)
  moreover have "h6\<lparr>hmem := m'\<rparr> = h\<lparr>hmem := m', free_list := (free_list h)(0 := hd (nodes lo pre @ [W a] @ nodes (a + u) post @ [0]))\<rparr>"
    unfolding h6_def by (rule tegrabl_heap.equality) simp_all
  ultimately show ?thesis using m'(2) by metis
qed

lemma dealloc_inv:
  assumes i: "heap_inv lo bs h" and g: "(c, off, u) \<in> set (useds lo bs)"
  shows "\<exists>bs' h'. tegrabl_dealloc t (W (c + off + 24)) h = Some h' \<and> releases lo bs h bs' h' (c, off, u)"
proof -
  obtain pre post where b: "bs = pre @ [Used off u] @ post" "c = lo + extent pre" using useds_split [OF g] by blast
  obtain s1 post1 where n: "absorb_next u post = (s1, post1)" by fastforce
  obtain pre1 s2 where p: "absorb_prev pre s1 = (pre1, s2)" by fastforce
  let ?fl = "(free_list h)(0 := hd (nodes lo pre @ [W c] @ nodes (c + u) post @ [0]))"
  obtain m' where m': "tegrabl_generic_free (free_list h 0) (W (c + off + 24)) (hmem h) = Some (W (lo + extent pre1), m')"
      "core lo (pre1 @ [Free s2] @ post1) (h\<lparr>hmem := m', free_list := ?fl\<rparr>)" "keeps (useds lo (pre @ [Free u] @ post)) (hmem h) m'"
    using generic_free_core [OF i [unfolded b(1)] b(2) n p] by blast
  have w: "list_all wf_block (pre @ [Used off u] @ post)" "core lo (pre @ [Lost u] @ post) h" "free_list h 1 = 0" "no_adj pre" "no_adj post" "32 \<le> u" "0 < lo"
    using i b(1) core_forget [of lo pre off u post h] by (auto simp: heap_inv_def core_def no_adj_append no_adj_Cons)
  have H: "heap_at lo pre [Lost u] post h c (c + u) (last (0 # nodes lo pre)) (hd (nodes (c + u) post @ [0]))"
    using heap_atI [OF w(2)] b(2) by simp
  note e = absorb_extent [OF n p]
  have "W (lo + extent pre1) = W c \<or> nodes lo pre \<noteq> [] \<and> W (lo + extent pre1) = last (nodes lo pre)"
    using e(4) b(2) by (auto simp: nodes_append)
  then have hd: "lower_head 0 (W (lo + extent pre1)) (free_list h) = ?fl" by (rule heap_at.head_after [OF H refl w(6)])
  have "W (lo + extent pre1) \<noteq> 0"
    using w(7) m'(2) by (intro W_nonzero) (auto simp: core_def)
  then have d: "tegrabl_dealloc t (W (c + off + 24)) h = Some (h\<lparr>hmem := m', free_list := ?fl\<rparr>)"
    using m'(1) hd w(3) by (simp add: tegrabl_dealloc_def Let_def)
  have "(c, off, u) \<notin> set (useds lo (pre @ [Lost u] @ post))"
    by (rule useds_fresh [where a = c]) (use w(1,6) b(2) in auto)
  then have us: "set (useds lo (pre @ [Free u] @ post)) = set (useds lo bs) - {(c, off, u)}" using b by (auto simp: useds_append)
  have "useds lo (pre1 @ [Free s2] @ post1) = useds lo (pre @ [Free u] @ post)"
    using useds_absorb(1) [OF n, of lo pre] useds_absorb(2) [OF p, of lo post1] by simp
  moreover have "no_adj (pre1 @ [Free s2] @ post1)" by (rule no_adj_absorb(3) [OF w(4,5) n p])
  ultimately have "releases lo bs h (pre1 @ [Free s2] @ post1) (h\<lparr>hmem := m', free_list := ?fl\<rparr>) (c, off, u)"
    using m'(2,3) e i b(1) us by (auto simp: releases_def heap_inv_def)
  with d show ?thesis by blast
qed

end
