(* ===== verification/Cboot_Memalign.thy ===== *)
theory Cboot_Memalign
  imports Cboot_Heapops
begin

text \<open>
  Aligned allocation: \<open>memalign_inv\<close> says that it returns and that the block it carves is aligned, with the part in
  front of it given back to the free list when it is large enough for a free block.
\<close>


section \<open>Aligned allocation\<close>

definition aligned_ok :: "mem \<Rightarrow> u64 \<Rightarrow> u64 \<Rightarrow> u64 \<Rightarrow> bool" where
  "aligned_ok m alignment n q \<longleftrightarrow> \<not> block_size m q < n \<and> \<not> align_gap alignment q + n > block_size m q"

lemma aligned_fit_find:
  "linked m p xs 0 \<Longrightarrow> aligned_fit m al n (hd (xs @ [0])) = Some (case find (aligned_ok m al n) xs of Some q \<Rightarrow> q | None \<Rightarrow> 0)"
proof (induction xs arbitrary: p)
  case Nil
  then show ?case by (simp add: aligned_fit.simps)
next
  case (Cons a xs)
  then show ?case using Cons.IH [of a] by (subst aligned_fit.simps) (auto simp: aligned_ok_def [of _ _ _ a])
qed

lemma core_aligned_fit:
  assumes c: "core lo bs h"
  shows "\<exists>q. aligned_fit (hmem h) al n (free_list h 0) = Some q \<and>
    (q \<noteq> 0 \<longrightarrow> (\<exists>pre s post. bs = pre @ [Free s] @ post \<and> q = W (lo + extent pre) \<and> \<not> align_gap al q + n > W s))"
proof -
  have l: "linked (hmem h) 0 (nodes lo bs) 0" "free_list h 0 = hd (nodes lo bs @ [0])" using c by (auto simp: core_def)
  show ?thesis
  proof (cases "find (aligned_ok (hmem h) al n) (nodes lo bs)")
    case None
    then show ?thesis using aligned_fit_find [OF l(1)] l(2) by simp
  next
    case (Some q)
    from find_split [OF this] obtain pre s post where b: "bs = pre @ Free s # post" "q = W (lo + extent pre)" "aligned_ok (hmem h) al n q"
      using nodes_split by blast
    have "block_size (hmem h) q = W s" using c b by (auto simp: core_def frees_append frees_ok_def)
    with b Some show ?thesis using aligned_fit_find [OF l(1)] l(2) by (auto simp: aligned_ok_def)
  qed
qed

lemma unat_align_gap:
  assumes "0 < al" "q + 24 < 2 ^ 64"
  shows "unat (align_gap al (W q)) = unat al - (q + 24) mod unat al" "0 < unat (align_gap al (W q))" "unat (align_gap al (W q)) \<le> unat al"
    "unat al dvd q + 24 + unat (align_gap al (W q))"
proof -
  have al: "0 < unat al" using assms(1) by (simp add: word_less_nat_alt)
  have u: "unat (W q + 24) = q + 24" using assms(2) unat_of_nat64 [of "q + 24"] by simp
  then have m: "unat ((W q + 24) mod al) = (q + 24) mod unat al" by (simp add: unat_mod)
  have lt: "(q + 24) mod unat al < unat al" using al by simp
  then show e: "unat (align_gap al (W q)) = unat al - (q + 24) mod unat al"
    unfolding align_gap_def using m by (subst unat_sub) (simp_all add: word_le_nat_alt)
  show "0 < unat (align_gap al (W q))" "unat (align_gap al (W q)) \<le> unat al" unfolding e using lt by auto
  have "q + 24 + (unat al - (q + 24) mod unat al) = (q + 24) - (q + 24) mod unat al + unat al"
    using lt mod_less_eq_dividend [of "q + 24" "unat al"] by linarith
  moreover have "unat al dvd (q + 24) - (q + 24) mod unat al + unat al" by (intro dvd_add dvd_minus_mod dvd_refl)
  ultimately show "unat al dvd q + 24 + unat (align_gap al (W q))" unfolding e by simp
qed

context heap_at
begin

lemma scribble:
  assumes "mid = [Lost k]" "touches (inner a b) (hmem h) m'"
  shows "core lo (pre @ [Lost k] @ post) (h\<lparr>hmem := m'\<rparr>)"
  by (rule replaced [of _ m'])
    (use assms inner_touched [OF assms(2)] inner_neighbours [OF assms(2)] bounds in \<open>auto simp: frees_ok_def useds_ok_def\<close>)

text \<open>The neighbour \<^verbatim>\<open>tegrabl_memalign_generic\<close> finds for the part it gives back, from the links after the split.\<close>

lemma next_after_split:
  assumes "mid = [Lost k]" "post = post0 \<or> (\<exists>r. post = Free r # post0 \<and> y0 = hd (nodes (b + r) post0 @ [0]))"
    and "post = post0 \<longrightarrow> y0 = y" "0 < k"
  shows "(if x = 0 \<and> y0 = 0 then free_list h 0 else if y0 = 0 then block_next (hmem h) x
      else if block_prev (hmem h) y0 \<noteq> x then block_prev (hmem h) y0 else y0) = y"
proof -
  have l: "linked (hmem h) 0 (xs @ ys) 0" "free_list h 0 = hd (xs @ ys @ [0])" by (rule lost_linked [OF assms(1)])+
  then have l1: "linked (hmem h) 0 xs y" "linked (hmem h) x ys 0" by (auto simp only: linked_append nb)
  have n: "x \<noteq> 0 \<Longrightarrow> block_next (hmem h) x = y" using l1(1) x_in by (cases xs rule: rev_cases) (auto simp: linked_append)
  have h0: "x = 0 \<Longrightarrow> free_list h 0 = y" using l(2) x_in nb(2) by auto
  from assms(2) show ?thesis
  proof
    assume "post = post0"
    with assms(3) have "y0 = y" by simp
    moreover have "y \<noteq> 0 \<Longrightarrow> block_prev (hmem h) y = x" using l1(2) y_in by (cases ys) auto
    ultimately show ?thesis using n h0 by auto
  next
    assume "\<exists>r. post = Free r # post0 \<and> y0 = hd (nodes (b + r) post0 @ [0])"
    then obtain r where r: "post = Free r # post0" "y0 = hd (nodes (b + r) post0 @ [0])" by blast
    then have ys: "ys = W b # nodes (b + r) post0" by simp
    have "y = W b" using ys nb(2) by simp
    moreover have "y0 \<noteq> 0 \<Longrightarrow> block_prev (hmem h) y0 = W b" using l1(2) ys r(2) by (cases "nodes (b + r) post0") auto
    moreover have "x \<noteq> 0 \<Longrightarrow> x \<noteq> W b" using sep_xy y_in ys \<open>y = W b\<close> by auto
    moreover have "W b \<noteq> 0" using y_in ys \<open>y = W b\<close> by auto
    ultimately show ?thesis using n h0 by auto
  qed
qed

end


definition losts :: "nat \<Rightarrow> block list" where
  "losts r = (if r = 0 then [] else [Lost r])"

lemma losts_simps [simp]: "extent (losts r) = r" "nodes c (losts r) = []" "useds c (losts r) = []" "frees c (losts r) = []"
  by (simp_all add: losts_def)

context heap_at
begin

lemma freed_front:
  assumes "mid = [Lost s]" "32 \<le> s"
    and "m' = link_next x (W a) (link_prev y (W a) (set_magic (W a) FREE_MAGIC (set_size (W a) (W s) (set_prev (W a) x (set_next (W a) y (hmem h))))))"
  shows "core lo (pre @ [Free s] @ post) (h\<lparr>hmem := m', free_list := lower_head 0 (W a) (free_list h)\<rparr>)"
proof -
  have ab: "0 < a" "a + s = b" "b \<le> 2 ^ 64" using bounds at assms(1) by auto
  have a0: "W a \<noteq> 0" using ab assms(2) by (intro W_nonzero) auto
  have sep: "x = 0 \<or> apart x (W a) \<and> apart (W a) x \<and> W a \<noteq> x" "y = 0 \<or> apart y (W a) \<and> apart (W a) y \<and> W a \<noteq> y"
    using sep_mid [of a] ab assms(2) by auto
  have t: "touched m'" unfolding assms(3) by (intro touch touches_refl) (use ab assms(2) in auto)
  have hd: "lower_head 0 (W a) (free_list h) = (free_list h)(0 := hd (xs @ [W a] @ ys @ [0]))" by (rule head_after [OF assms(1,2)]) simp
  have "relinked (hmem h) m' xs [W a] ys"
    using x_in y_in sep sep_xy nb a0 by (auto simp: relinked_def assms(3) get_link get_set)
  moreover have "block_magic m' (W a) = FREE_MAGIC" "block_size m' (W a) = W s"
    using sep by (auto simp: assms(3) get_link get_set)
  ultimately show ?thesis using t bounds(4) unfolding hd by (intro inserted [OF assms(1,2), of m']) simp_all
qed

lemma given_back:
  assumes "mid = [Lost (g + n + r)]" "32 \<le> g" "32 \<le> n" "block_magic (hmem h) (W (a + g)) = ALLOC_MAGIC"
    and mA: "mA = set_start (W (a + g)) (W (a + g)) (set_size (W (a + g)) (W n) (hmem h))"
    and m': "m' = link_next x (W a) (link_prev y (W a) (set_magic (W a) FREE_MAGIC (set_size (W a) (W g) (set_prev (W a) x (set_next (W a) y mA)))))"
  shows "core lo (pre @ [Free g, Used 0 n] @ losts r @ post) (h\<lparr>hmem := m', free_list := lower_head 0 (W a) (free_list h)\<rparr>)"
proof -
  have ab: "a = lo + extent pre" "b = a + (g + n + r)" using at assms(1) by auto
  have "core lo (pre @ Lost (g + (n + r)) # post) h" using core assms(1) by (simp add: add.assoc)
  then have "core lo (pre @ Lost g # Lost (n + r) # post) h" using assms(2,3) by (subst (asm) core_lost) auto
  then have "core lo ((pre @ [Lost g]) @ [Lost n] @ losts r @ post) h"
    using assms(3) core_lost [of n r lo "pre @ [Lost g]" post h] by (auto simp: losts_def)
  from heap_atI [OF this] have H: "heap_at lo (pre @ [Lost g]) [Lost n] (losts r @ post) h (a + g) (a + g + n) (last (0 # nodes lo (pre @ [Lost g])))
      (hd (nodes (a + g + n) (losts r @ post) @ [0]))" by (simp add: ab add.assoc)
  have i: "W (a + g) \<in> inner (a + g) (a + g + n)" using assms(3) unfolding inner_def by (intro imageI) simp
  have t: "touches (inner (a + g) (a + g + n)) (hmem h) mA" unfolding mA by (intro touches_set touches_refl i)
  have "core lo ((pre @ [Lost g]) @ [Used 0 n] @ losts r @ post) (h\<lparr>hmem := mA\<rparr>)"
    by (rule heap_at.claim [OF H refl t]) (use assms(3,4) in \<open>simp_all add: mA\<close>)
  then have "core lo (pre @ [Lost g] @ ([Used 0 n] @ losts r @ post)) (h\<lparr>hmem := mA\<rparr>)" by simp
  from heap_atI [OF this] have "heap_at lo pre [Lost g] ([Used 0 n] @ losts r @ post) (h\<lparr>hmem := mA\<rparr>) a (a + g) x y"
    using nb ab by (simp add: nodes_append add.assoc)
  from heap_at.freed_front [OF this refl assms(2) refl] show ?thesis unfolding m' by simp
qed

end


text \<open>The header of an aligned block, written \<open>g\<close> bytes into a block of \<open>k\<close> bytes taken at \<open>a\<close>.\<close>

definition mark_aligned :: "nat \<Rightarrow> nat \<Rightarrow> nat \<Rightarrow> mem \<Rightarrow> mem" where
  "mark_aligned a g k m = set_start (W (a + g)) (W a) (set_magic (W (a + g)) ALLOC_MAGIC (set_size (W (a + g)) (W k) (set_start (W a) (W a) m)))"

lemma mark_aligned_get:
  "block_magic (mark_aligned a g k m) (W (a + g)) = ALLOC_MAGIC" "block_size (mark_aligned a g k m) (W (a + g)) = W k"
  "block_start (mark_aligned a g k m) (W (a + g)) = W a"
  by (simp_all only: mark_aligned_def block_near block_same)

definition taken :: "nat \<Rightarrow> nat \<Rightarrow> nat" where
  "taken s n = (if s - n \<le> 32 then s else n)"

definition spare :: "nat \<Rightarrow> nat \<Rightarrow> block list" where
  "spare s n = (if s - n \<le> 32 then [] else [Free (s - n)])"

lemma split_mid_taken: "split_mid s n = Lost (taken s n) # spare s n"
  by (simp add: split_mid_def taken_def spare_def)

lemma taken_bounds: "n \<le> s \<Longrightarrow> n \<le> taken s n \<and> taken s n \<le> s" "n \<le> s \<Longrightarrow> taken s n + extent (spare s n) = s"
  "useds c (spare s n) = []"
  by (auto simp: taken_def spare_def)

context heap_at
begin

lemma marked:
  assumes "mid = [Free s]" "32 \<le> n" "n + g \<le> s" "k = taken s (n + g)"
  shows "\<exists>h1. tegrabl_heap_split_block (W a) (W (n + g)) h = (W a, h1) \<and> block_size (hmem h1) (W a) = W k \<and> max_heap_size h1 = max_heap_size h \<and>
    touched (mark_aligned a g k (hmem h1)) \<and> core lo (pre @ [Lost k] @ spare s (n + g) @ post) (h1\<lparr>hmem := mark_aligned a g k (hmem h1)\<rparr>)"
proof -
  have n2: "32 \<le> n + g" using assms by simp
  obtain h1 where h1: "tegrabl_heap_split_block (W a) (W (n + g)) h = (W a, h1)" "core lo (pre @ split_mid s (n + g) @ post) h1"
      "touched (hmem h1)" "block_size (hmem h1) (W a) = W k" "max_heap_size h1 = max_heap_size h"
    using split_blocks [OF assms(1) n2 assms(3)] unfolding assms(4) taken_def by blast
  have k: "n + g \<le> k" "k \<le> s" using taken_bounds(1) [OF assms(3)] assms(4) by auto
  have b: "b = a + s" using at assms(1) by simp
  have "core lo (pre @ [Lost k] @ (spare s (n + g) @ post)) h1" using h1(2) by (simp add: split_mid_taken assms(4))
  from heap_atI [OF this] have H1: "heap_at lo pre [Lost k] (spare s (n + g) @ post) h1 a (a + k) x (hd (nodes (a + k) (spare s (n + g) @ post) @ [0]))"
    by (simp add: at(1) nb(1))
  have i: "W a \<in> inner a (a + k)" "W (a + g) \<in> inner a (a + k)"
    unfolding inner_def by (intro imageI; use k assms(2) in simp)+
  have t: "touches (inner a (a + k)) (hmem h1) (mark_aligned a g k (hmem h1))"
    unfolding mark_aligned_def by (intro touches_set touches_refl i)
  have "inner a (a + k) \<subseteq> {t. mid_or_link a b xs ys t}" using k b by (auto simp: inner_def mid_or_link_def)
  from touches_trans [OF h1(3) touches_mono [OF t this]] heap_at.scribble [OF H1 refl t] h1 show ?thesis by auto
qed

lemma claimed:
  assumes "mid = [Lost k]" "g + 32 \<le> k" "block_magic (hmem h) (W (a + g)) = ALLOC_MAGIC" "block_size (hmem h) (W (a + g)) = W k" "block_start (hmem h) (W (a + g)) = W a"
  shows "core lo (pre @ [Used g k] @ post) h"
  using claim [OF assms(1) touches_refl assms(2-5)] by simp

end

text \<open>The blocks an aligned request of \<open>n\<close> bytes leaves where a free block of \<open>s\<close> bytes was, the payload \<open>g\<close> bytes on.\<close>

definition aligned_carve :: "nat \<Rightarrow> nat \<Rightarrow> nat \<Rightarrow> block list" where
  "aligned_carve s g n = (if g < 32 then [Used g (taken s (n + g))] else [Free g, Used 0 n] @ losts (taken s (n + g) - (g + n))) @ spare s (n + g)"

context heap_at
begin

lemma given_back_touched:
  assumes "mid = [Free s]" "32 \<le> g" "32 \<le> n" "g + n \<le> s" "touched m" "y' = y \<or> (\<exists>z. y' = W z \<and> a \<le> z \<and> z + 32 \<le> b)"
  shows "touched (link_next x (W a) (link_prev y' (W a) (set_magic (W a) v (set_size (W a) w (set_prev (W a) x (set_next (W a) y'
    (set_start (W (a + g)) p (set_size (W (a + g)) q m))))))))"
proof -
  have b: "b = a + s" using at assms(1) by simp
  note m = assms(5)
  have t: "touched (link_prev y' u m')" if m': "touched m'" for u m'
    using assms(6)
  proof
    assume "\<exists>z. y' = W z \<and> a \<le> z \<and> z + 32 \<le> b"
    then obtain z where z: "y' = W z" "a \<le> z" "z + 32 \<le> b" by blast
    show ?thesis unfolding link_prev_def z(1) using touch(3) [OF m' z(2,3)] m' by simp
  qed (use touch(8) [OF m'] in simp)
  show ?thesis by (intro touch t m) (use b assms in auto)
qed

end


context heap_at
begin

lemma aligned_small:
  assumes "mid = [Free s]" "32 \<le> n" "n + g \<le> s" "k = taken s (n + g)" "g < 32"
  shows "\<exists>h1. tegrabl_heap_split_block (W a) (W (n + g)) h = (W a, h1) \<and> block_size (hmem h1) (W a) = W k \<and> max_heap_size h1 = max_heap_size h \<and>
    touched (mark_aligned a g k (hmem h1)) \<and> core lo (pre @ aligned_carve s g n @ post) (h1\<lparr>hmem := mark_aligned a g k (hmem h1)\<rparr>)"
proof -
  obtain h1 where h1: "tegrabl_heap_split_block (W a) (W (n + g)) h = (W a, h1)" "block_size (hmem h1) (W a) = W k" "max_heap_size h1 = max_heap_size h"
    "touched (mark_aligned a g k (hmem h1))" "core lo (pre @ [Lost k] @ spare s (n + g) @ post) (h1\<lparr>hmem := mark_aligned a g k (hmem h1)\<rparr>)"
    using marked [OF assms(1-4)] by blast
  have "g + 32 \<le> k" using taken_bounds(1) [OF assms(3)] assms(2,4) by simp
  from heap_at.claimed [OF heap_atI [OF h1(5)] refl this] have "core lo (pre @ [Used g k] @ spare s (n + g) @ post) (h1\<lparr>hmem := mark_aligned a g k (hmem h1)\<rparr>)"
    using mark_aligned_get [of a g k "hmem h1"] at(1) by simp
  with h1 show ?thesis using assms(4,5) by (auto simp: aligned_carve_def)
qed

lemma aligned_large:
  assumes "mid = [Free s]" "32 \<le> n" "n + g \<le> s" "k = taken s (n + g)" "32 \<le> g"
  shows "\<exists>h1 h2. tegrabl_heap_split_block (W a) (W (n + g)) h = (W a, h1) \<and> block_size (hmem h1) (W a) = W k \<and>
    give_back 0 (W a) x y (W g) (W n) (h1\<lparr>hmem := mark_aligned a g k (hmem h1)\<rparr>) = h2 \<and>
    max_heap_size h2 = max_heap_size h \<and> touched (hmem h2) \<and> core lo (pre @ aligned_carve s g n @ post) h2"
proof -
  obtain h1 where h1: "tegrabl_heap_split_block (W a) (W (n + g)) h = (W a, h1)" "block_size (hmem h1) (W a) = W k" "max_heap_size h1 = max_heap_size h"
    "touched (mark_aligned a g k (hmem h1))" "core lo (pre @ [Lost k] @ spare s (n + g) @ post) (h1\<lparr>hmem := mark_aligned a g k (hmem h1)\<rparr>)"
    using marked [OF assms(1-4)] by blast
  define hm where "hm = h1\<lparr>hmem := mark_aligned a g k (hmem h1)\<rparr>"
  define y' where "y' = hd (nodes (a + k) (spare s (n + g) @ post) @ [0])"
  define h2 where "h2 = give_back 0 (W a) x y (W g) (W n) hm"
  have k: "n + g \<le> k" "k \<le> s" using taken_bounds(1) [OF assms(3)] assms(4) by auto
  have b: "b = a + s" using at assms(1) by simp
  have H: "heap_at lo pre [Lost k] (spare s (n + g) @ post) hm a (a + k) x y'"
    using heap_atI [OF h1(5)] by (simp add: at(1) nb(1) hm_def y'_def)
  have sp: "spare s (n + g) = [] \<and> k = s \<or> spare s (n + g) = [Free (s - (n + g))] \<and> k = n + g \<and> 32 < s - (n + g)"
    by (auto simp: spare_def assms(4) taken_def)
  then have y': "y' = y \<or> (\<exists>z. y' = W z \<and> a \<le> z \<and> z + 32 \<le> b)"
  proof
    assume s: "spare s (n + g) = [Free (s - (n + g))] \<and> k = n + g \<and> 32 < s - (n + g)"
    then have "n + g + 32 \<le> s" by linarith
    with s have "y' = W (a + (n + g)) \<and> a \<le> a + (n + g) \<and> a + (n + g) + 32 \<le> b" by (simp add: y'_def b)
    then show ?thesis by blast
  qed (simp add: y'_def nb(2) b)
  have "(if x = 0 \<and> y = 0 then free_list hm 0 else if y = 0 then block_next (hmem hm) x
      else if block_prev (hmem hm) y \<noteq> x then block_prev (hmem hm) y else y) = y'"
    by (rule heap_at.next_after_split [OF H refl, of post])
      (use sp assms(2) k in \<open>auto simp: y'_def nb(2) b add.assoc\<close>)
  then have e: "h2 = hm\<lparr>hmem := link_next x (W a) (link_prev y' (W a) (set_magic (W a) FREE_MAGIC (set_size (W a) (W g) (set_prev (W a) x (set_next (W a) y'
      (set_start (W (a + g)) (W (a + g)) (set_size (W (a + g)) (W n) (hmem hm)))))))),
      free_list := lower_head 0 (W a) (free_list hm)\<rparr>"
    unfolding h2_def give_back_def Let_def by simp
  have "touched (hmem h2)" 
    using given_back_touched [OF assms(1,5,2) _ _ y', of "hmem hm" FREE_MAGIC "W g" "W (a + g)" "W n"] assms(3) h1(4)
    by (simp add: e hm_def add.commute [of g n])
  moreover have "[Lost k] = [Lost (g + n + (k - (g + n)))]" using k by simp
  from heap_at.given_back [OF H this assms(5,2) _ refl refl]
  have "core lo (pre @ [Free g, Used 0 n] @ losts (k - (g + n)) @ spare s (n + g) @ post) h2"
    unfolding e using mark_aligned_get(1) [of a g k "hmem h1"] by (simp add: hm_def)
  then have "core lo (pre @ aligned_carve s g n @ post) h2" using assms(4,5) by (simp add: aligned_carve_def)
  moreover have "max_heap_size h2 = max_heap_size h" unfolding e using h1(3) by (simp add: hm_def)
  ultimately show ?thesis using h1(1,2) h2_def hm_def by blast
qed

end


lemma memalign_eval:
  assumes "sz \<noteq> 0" "is_size_alignment_valid 0 al sz h" "n = MAX64 (malloc_size sz) 32"
    and "aligned_fit (hmem h) al n (free_list h 0) = Some (W a)" "W a \<noteq> 0" "align_gap al (W a) = W g"
    and "block_prev (hmem h) (W a) = x" "block_next (hmem h) (W a) = y"
    and "tegrabl_heap_split_block (W a) (n + W g) h = (W a, h1)" "block_size (hmem h1) (W a) = W k"
  shows "tegrabl_memalign_generic 0 al sz h = Some (W (a + g + 24),
    if W g < 32 then h1\<lparr>hmem := mark_aligned a g k (hmem h1)\<rparr> else give_back 0 (W a) x y (W g) n (h1\<lparr>hmem := mark_aligned a g k (hmem h1)\<rparr>))"
proof -
  have n: "MAX64 (ROUND_UP sz 8 + 24) 32 = n" by (simp add: assms(3) malloc_size_def)
  have m: "W a + W g = W (a + g)" "W a + 24 + W g = W (a + g + 24)" by simp_all
  show ?thesis
    by (simp only: tegrabl_memalign_generic_def Let_def n assms(1,2,4-10) m mark_aligned_def case_prod_conv if_False not_True_eq_False option.case block_near)
qed

lemma memalign_carves:
  assumes c: "core lo (pre @ [Free s] @ post) h" and n: "32 \<le> n" "n + g \<le> s" "n = unat (MAX64 (malloc_size sz) 32)"
    and a: "a = lo + extent pre" and g: "align_gap al (W a) = W g"
    and f: "aligned_fit (hmem h) al (W n) (free_list h 0) = Some (W a)" and ok: "sz \<noteq> 0" "is_size_alignment_valid 0 al sz h"
  shows "\<exists>h'. tegrabl_memalign_generic 0 al sz h = Some (W (a + g + 24), h') \<and> core lo (pre @ aligned_carve s g n @ post) h' \<and>
    max_heap_size h' = max_heap_size h \<and> keeps (useds lo (pre @ [Free s] @ post)) (hmem h) (hmem h')"
proof -
  define x where "x = last (0 # nodes lo pre)"
  define y where "y = hd (nodes (a + s) post @ [0])"
  have H: "heap_at lo pre [Free s] post h a (a + s) x y" using heap_atI [OF c] by (simp add: a x_def y_def)
  have nw: "W n = MAX64 (malloc_size sz) 32" by (simp add: n(3))
  have sum: "W n + W g = W (n + g)" by simp
  have b: "0 < lo" "a + s \<le> 2 ^ 64" using heap_at.bounds(1,2) [OF H] by auto
  then have a0: "W a \<noteq> 0" using n a by (intro W_nonzero) auto
  have xy: "block_prev (hmem h) (W a) = x" "block_next (hmem h) (W a) = y"
    using heap_at.linked_around [OF H] by auto
  have g32: "W g < 32 \<longleftrightarrow> g < 32" using W_less [of g 32] b n a by simp
  have us: "useds lo pre @ useds (a + s) post = useds lo (pre @ [Free s] @ post)" by (simp add: useds_append a)
  note eval = memalign_eval [OF ok nw f a0 g xy, unfolded sum g32]
  show ?thesis
  proof (cases "g < 32")
    case True
    from heap_at.aligned_small [OF H refl n(1,2) refl this] obtain h1 where
      h1: "tegrabl_heap_split_block (W a) (W (n + g)) h = (W a, h1)" "block_size (hmem h1) (W a) = W (taken s (n + g))" "max_heap_size h1 = max_heap_size h"
        "touches {t. mid_or_link a (a + s) (nodes lo pre) (nodes (a + s) post) t} (hmem h) (mark_aligned a g (taken s (n + g)) (hmem h1))"
        "core lo (pre @ aligned_carve s g n @ post) (h1\<lparr>hmem := mark_aligned a g (taken s (n + g)) (hmem h1)\<rparr>)" by blast
    from eval [OF h1(1,2)] heap_at.touched_keeps [OF H h1(4)] h1(3,5) True show ?thesis unfolding us by auto
  next
    case False
    then have "32 \<le> g" by simp
    from heap_at.aligned_large [OF H refl n(1,2) refl this] obtain h1 h2 where
      h1: "tegrabl_heap_split_block (W a) (W (n + g)) h = (W a, h1)" "block_size (hmem h1) (W a) = W (taken s (n + g))"
        "give_back 0 (W a) x y (W g) (W n) (h1\<lparr>hmem := mark_aligned a g (taken s (n + g)) (hmem h1)\<rparr>) = h2" "max_heap_size h2 = max_heap_size h"
        "touches {t. mid_or_link a (a + s) (nodes lo pre) (nodes (a + s) post) t} (hmem h) (hmem h2)"
        "core lo (pre @ aligned_carve s g n @ post) h2" by blast
    from eval [OF h1(1,2)] heap_at.touched_keeps [OF H h1(5)] h1(3,4,6) False show ?thesis unfolding us by auto
  qed
qed

lemma aligned_carve_grants:
  assumes "heap_inv lo (pre @ [Free s] @ post) h" "32 \<le> n" "n + g \<le> s" "core lo (pre @ aligned_carve s g n @ post) h'"
    "max_heap_size h' = max_heap_size h" "keeps (useds lo (pre @ [Free s] @ post)) (hmem h) (hmem h')"
  shows "\<exists>c off k. c + off = lo + extent pre + g \<and> off + n \<le> k \<and>
    grants lo (pre @ [Free s] @ post) h (pre @ aligned_carve s g n @ post) h' (c, off, k)"
proof -
  let ?a = "lo + extent pre" and ?k = "taken s (n + g)"
  note t = taken_bounds(1,2) [OF assms(3)]
  note shape = useds_shape [OF assms(1,4,5,6)]
  have e: "extent (aligned_carve s g n) = s" and na: "no_adj (aligned_carve s g n)" and ne: "aligned_carve s g n \<noteq> []"
    using t by (auto simp: aligned_carve_def no_adj_append no_adj_Cons losts_def spare_def taken_def)
  show ?thesis
  proof (cases "g < 32")
    case True
    have "grants lo (pre @ [Free s] @ post) h (pre @ aligned_carve s g n @ post) h' (?a, g, ?k)"
      by (rule shape [OF e _ _ _ na ne]) (use True t in \<open>auto simp: aligned_carve_def useds_append spare_def\<close>)
    then show ?thesis using t(1) by (intro exI [of _ ?a] exI [of _ g] exI [of _ ?k]) simp
  next
    case False
    have "grants lo (pre @ [Free s] @ post) h (pre @ aligned_carve s g n @ post) h' (?a + g, 0, n)"
      by (rule shape [OF e _ _ _ na ne]) (use False t assms(3) in \<open>auto simp: aligned_carve_def useds_append spare_def\<close>)
    then show ?thesis by (intro exI [of _ "?a + g"] exI [of _ 0] exI [of _ n]) simp
  qed
qed


lemma size_alignment_bound:
  assumes "is_size_alignment_valid 0 al sz h" "max_heap_size h 0 = W e" "e < 2 ^ 64"
  shows "unat sz + unat al \<le> e"
proof -
  have "\<not> sz + al < sz" "sz + al \<le> W e" using assms(1,2) by (simp_all add: is_size_alignment_valid_def Let_def not_less)
  then have "unat (sz + al) = unat sz + unat al" "unat (sz + al) \<le> e"
    using assms(3) unat_plus_simple [of sz al] word_le_nat_alt [of "sz + al" "W e"] by (auto simp: not_less)
  then show ?thesis by simp
qed

lemma malloc_size_fits:
  assumes "0 < unat sz" "unat sz + 31 < 2 ^ 64"
  shows "unat sz + 24 \<le> unat (MAX64 (malloc_size sz) 32)" "unat (MAX64 (malloc_size sz) 32) \<le> unat sz + 31"
proof -
  have "unat (ROUND_UP sz 8) = 8 * ((unat sz + 7) div 8)" using unat_ROUND_UP_8 [of sz] assms(2) by simp
  then have r: "unat (ROUND_UP sz 8) \<le> unat sz + 7" "unat sz \<le> unat (ROUND_UP sz 8)" by linarith+
  then have "unat (malloc_size sz) = unat (ROUND_UP sz 8) + 24"
    using assms(2) by (simp add: malloc_size_def unat_plus_if_size word_size)
  with r have "unat (malloc_size sz) \<le> unat sz + 31" "unat sz + 24 \<le> unat (malloc_size sz)" by linarith+
  then show "unat sz + 24 \<le> unat (MAX64 (malloc_size sz) 32)" "unat (MAX64 (malloc_size sz) 32) \<le> unat sz + 31"
    using assms(1) by (simp_all add: unat_MAX64)
qed

lemma memalign_inv:
  assumes i: "heap_inv lo bs h" and lo: "32 \<le> lo" and al: "0 < al"
  shows "\<exists>p h'. tegrabl_memalign_generic 0 al sz h = Some (p, h') \<and>
    (p = 0 \<and> h' = h \<or> (\<exists>bs' c off k. p = W (c + off + 24) \<and> unat al dvd c + off + 24 \<and> off + 24 + unat sz \<le> k \<and> grants lo bs h bs' h' (c, off, k)))"
proof -
  have c: "core lo bs h" and mx: "max_heap_size h 0 = W (extent bs)" using i by (auto simp: heap_inv_def)
  have top: "lo + extent bs \<le> 2 ^ 64" using c by (simp add: core_def)
  define n where "n = unat (MAX64 (malloc_size sz) 32)"
  have nw: "W n = MAX64 (ROUND_UP sz 8 + 24) 32" by (simp add: n_def malloc_size_def)
  obtain q where q: "aligned_fit (hmem h) al (W n) (free_list h 0) = Some q"
      "q \<noteq> 0 \<Longrightarrow> \<exists>pre s post. bs = pre @ [Free s] @ post \<and> q = W (lo + extent pre) \<and> \<not> align_gap al q + W n > W s"
    using core_aligned_fit [OF c] by blast
  show ?thesis
  proof (cases "sz = 0 \<or> \<not> is_size_alignment_valid 0 al sz h \<or> q = 0")
    case True
    then show ?thesis using q(1) nw by (auto simp: tegrabl_memalign_generic_def Let_def)
  next
    case False
    then have ok: "sz \<noteq> 0" "is_size_alignment_valid 0 al sz h" "q \<noteq> 0" by auto
    obtain pre s post where b: "bs = pre @ [Free s] @ post" "q = W (lo + extent pre)" "\<not> align_gap al q + W n > W s" using q(2) ok(3) by blast
    define a where "a = lo + extent pre"
    define g where "g = unat (align_gap al (W a))"
    have wf: "32 \<le> s" using c b(1) by (simp add: core_def)
    have "unat sz + unat al \<le> extent bs" by (rule size_alignment_bound [OF ok(2) mx]) (use top lo in simp)
    moreover have "0 < unat sz" using ok(1) by (simp add: unat_gt_0)
    moreover have "a + 24 < 2 ^ 64" "s < 2 ^ 64" using top lo wf b(1) by (simp_all add: a_def)
    moreover note gap = unat_align_gap [OF al \<open>a + 24 < 2 ^ 64\<close>]
    ultimately have n: "unat sz + 24 \<le> n" "n \<le> unat sz + 31" and gn: "g + n < 2 ^ 64" "32 \<le> n"
      using malloc_size_fits [of sz] top lo by (auto simp: n_def g_def unat_MAX64)
    have gw: "align_gap al (W a) = W g" by (simp add: g_def)
    have "W g + W n = W (n + g)" by simp
    then have "n + g \<le> s" using b(2,3) gw W_le [of "n + g" s] gn(1) \<open>s < 2 ^ 64\<close> by (simp add: a_def [symmetric] not_less del: of_nat_add)
    moreover have c1: "core lo (pre @ [Free s] @ post) h" using c b(1) by simp
    ultimately obtain h' where h': "tegrabl_memalign_generic 0 al sz h = Some (W (a + g + 24), h')" "core lo (pre @ aligned_carve s g n @ post) h'"
        "max_heap_size h' = max_heap_size h" "keeps (useds lo (pre @ [Free s] @ post)) (hmem h) (hmem h')"
      using memalign_carves [OF c1 gn(2) _ n_def a_def gw _ ok(1,2)] q(1) b(2) a_def by auto
    from aligned_carve_grants [OF i [unfolded b(1)] gn(2) \<open>n + g \<le> s\<close> h'(2-4)] obtain c0 off k where
      g: "c0 + off = a + g" "off + n \<le> k" "grants lo bs h (pre @ aligned_carve s g n @ post) h' (c0, off, k)" unfolding b(1) a_def by blast
    have "W (a + g + 24) = W (c0 + off + 24)" "unat al dvd c0 + off + 24" "off + 24 + unat sz \<le> k"
      using g(1,2) gap(4) n(1) by (simp_all add: g_def add.commute add.left_commute)
    with g(3) h'(1) show ?thesis by metis
  qed
qed

end
