(* ===== verification/Cboot_Heapsafe.thy ===== *)
theory Cboot_Heapsafe
  imports Cboot_Memalign
begin

text \<open>
  The allocator with its client: a client's calls and writes as a sequence, the allocations it holds, and the
  properties of every state they reach from \<open>tegrabl_heap_init\<close>. Held allocations lie in the heap and do not overlap,
  no call disturbs them or hangs, and when all is released the heap is one free block again.
\<close>


section \<open>What the client may write\<close>

lemma block_get_cong:
  assumes "\<And>i. i < 24 \<Longrightarrow> m' (p + of_nat i) = m (p + of_nat i)"
  shows "block_magic m' p = block_magic m p" "block_size m' p = block_size m p" "block_prev m' p = block_prev m p"
proof -
  have "load_bytes m' (p + of_nat k) n = load_bytes m (p + of_nat k) n" if "k + n \<le> 24" for k n
  proof (rule nth_equalityI)
    fix i assume "i < length (load_bytes m' (p + of_nat k) n)"
    then show "load_bytes m' (p + of_nat k) n ! i = load_bytes m (p + of_nat k) n ! i"
      using assms [of "k + i"] that by (simp add: add.assoc)
  qed simp
  from this [of 0 4] this [of 8 8] this [of 16 8] show "block_magic m' p = block_magic m p" "block_size m' p = block_size m p" "block_prev m' p = block_prev m p"
    by (simp_all add: block_magic_def block_size_def block_prev_def)
qed

lemma block_next_cong:
  assumes "\<And>i. i < 32 \<Longrightarrow> m' (p + of_nat i) = m (p + of_nat i)"
  shows "block_next m' p = block_next m p"
proof -
  have "load_bytes m' (p + 24) 8 = load_bytes m (p + 24) 8"
  proof (rule nth_equalityI)
    fix i assume "i < length (load_bytes m' (p + 24) 8)"
    then show "load_bytes m' (p + 24) 8 ! i = load_bytes m (p + 24) 8 ! i" using assms [of "24 + i"] by (simp add: add.assoc)
  qed simp
  then show ?thesis by (simp add: block_next_def)
qed

lemma useds_apart:
  assumes "list_all wf_block bs" "(c, off, u) \<in> set (useds lo bs)" "(c', off', u') \<in> set (useds lo bs)" "(c, off, u) \<noteq> (c', off', u')"
  shows "c + u \<le> c' \<or> c' + u' \<le> c"
proof -
  obtain pre post where b: "bs = pre @ [Used off u] @ post" "c = lo + extent pre" using useds_split [OF assms(2)] by blast
  then have "(c', off', u') \<in> set (useds lo pre) \<or> (c', off', u') \<in> set (useds (c + u) post)"
    using assms(3,4) by (auto simp: useds_append)
  then show ?thesis
    using useds_bounds [of pre c' off' u' lo] useds_bounds [of post c' off' u' "c + u"] assms(1) b by auto
qed

lemma used_free_apart:
  assumes "list_all wf_block bs" "(c, off, u) \<in> set (useds lo bs)" "(a, s) \<in> set (frees lo bs)"
  shows "c + u \<le> a \<or> a + 32 \<le> c"
proof -
  obtain pre post where b: "bs = pre @ [Used off u] @ post" "c = lo + extent pre" using useds_split [OF assms(2)] by blast
  then have "(a, s) \<in> set (frees lo pre) \<or> (a, s) \<in> set (frees (c + u) post)"
    using assms(3) by (auto simp: frees_append)
  then show ?thesis
    using frees_bounds [of pre a s lo] frees_bounds [of post a s "c + u"] assms(1) b by auto
qed

text \<open>Writes to the client's part of a used block do not reach the structure of the heap.\<close>

lemma heap_inv_user:
  assumes i: "heap_inv lo bs h" and g: "(c, off, u) \<in> set (useds lo bs)"
    and m: "\<And>z. z < 2 ^ 64 \<Longrightarrow> z < c + off + 24 \<or> c + u \<le> z \<Longrightarrow> m' (W z) = hmem h (W z)"
  shows "heap_inv lo bs (h\<lparr>hmem := m'\<rparr>)"
proof -
  have c: "core lo bs h" and w: "list_all wf_block bs" "lo + extent bs \<le> 2 ^ 64" using i by (auto simp: heap_inv_def core_def)
  have u: "off + 32 \<le> u" using useds_bounds [OF w(1) g] by simp
  have f: "block_magic m' (W a) = block_magic (hmem h) (W a) \<and> block_size m' (W a) = block_size (hmem h) (W a) \<and>
      block_prev m' (W a) = block_prev (hmem h) (W a) \<and> block_next m' (W a) = block_next (hmem h) (W a)" if a: "(a, s) \<in> set (frees lo bs)" for a s
  proof -
    have "m' (W a + W i) = hmem h (W a + W i)" if "i < 32" for i
      using m [of "a + i"] used_free_apart [OF w(1) g a] frees_bounds [OF w(1) a] w(2) u that by auto
    then show ?thesis by (intro conjI block_get_cong block_next_cong) auto
  qed
  have us: "block_magic m' (W (a + o')) = block_magic (hmem h) (W (a + o')) \<and> block_size m' (W (a + o')) = block_size (hmem h) (W (a + o')) \<and>
      block_prev m' (W (a + o')) = block_prev (hmem h) (W (a + o'))" if a: "(a, o', s) \<in> set (useds lo bs)" for a o' s
  proof -
    have "m' (W (a + o') + W i) = hmem h (W (a + o') + W i)" if "i < 24" for i
      using m [of "a + o' + i"] useds_apart [OF w(1) g a] useds_bounds [OF w(1) a] w(2) u that by (cases "(c, off, u) = (a, o', s)") auto
    then show ?thesis by (intro conjI block_get_cong) auto
  qed
  have "linked m' 0 (nodes lo bs) 0 = linked (hmem h) 0 (nodes lo bs) 0"
    by (rule linked_cong) (use f nodes_in in metis)
  then show ?thesis using i f us by (auto simp: heap_inv_def core_def frees_ok_def useds_ok_def)
qed

section \<open>The allocator and its client\<close>

text \<open>
  The calls of a client and the bytes it writes, one after the other, with the allocations it holds: from each
  pointer it was given and has not released to the number of bytes it asked for. \<open>allowed\<close> is the contract of the
  interface: release what is held (or \<^verbatim>\<open>NULL\<close>), write what is held, align to a positive number.
\<close>

datatype heap_call =
    Malloc u64 | Alloc u32 u64 | Calloc u64 u64 | Memalign u64 u64 | Alloc_align u32 u64 u64
  | Release u64 | Dealloc u32 u64 | Store u64 u64 u8

type_synonym live = "u64 \<rightharpoonup> nat"

fun allowed :: "live \<Rightarrow> heap_call \<Rightarrow> bool" where
  "allowed L (Memalign al sz) \<longleftrightarrow> 0 < al"
| "allowed L (Alloc_align t al sz) \<longleftrightarrow> 0 < al"
| "allowed L (Release p) \<longleftrightarrow> p = 0 \<or> p \<in> dom L"
| "allowed L (Dealloc t p) \<longleftrightarrow> p = 0 \<or> p \<in> dom L"
| "allowed L (Store p i v) \<longleftrightarrow> (case L p of None \<Rightarrow> False | Some n \<Rightarrow> unat i < n)"
| "allowed L _ \<longleftrightarrow> True"

definition got :: "live \<Rightarrow> nat \<Rightarrow> u64 \<times> tegrabl_heap \<Rightarrow> tegrabl_heap \<times> live" where
  "got L n = (\<lambda>(p, h). (h, if p = 0 then L else L(p \<mapsto> n)))"

fun heap_exec :: "clib_dma \<Rightarrow> heap_call \<Rightarrow> tegrabl_heap \<times> live \<Rightarrow> (tegrabl_heap \<times> live) option" where
  "heap_exec dma (Malloc sz) (h, L) = map_option (got L (unat sz)) (tegrabl_malloc sz h)"
| "heap_exec dma (Alloc t sz) (h, L) = map_option (got L (unat sz)) (tegrabl_alloc t sz h)"
| "heap_exec dma (Calloc n sz) (h, L) = map_option (got L (unat n * unat sz)) (tegrabl_calloc dma n sz h)"
| "heap_exec dma (Memalign al sz) (h, L) = map_option (got L (unat sz)) (tegrabl_memalign al sz h)"
| "heap_exec dma (Alloc_align t al sz) (h, L) = map_option (got L (unat sz)) (tegrabl_alloc_align t al sz h)"
| "heap_exec dma (Release p) (h, L) = map_option (\<lambda>h'. (h', L(p := None))) (tegrabl_free p h)"
| "heap_exec dma (Dealloc t p) (h, L) = map_option (\<lambda>h'. (h', L(p := None))) (tegrabl_dealloc t p h)"
| "heap_exec dma (Store p i v) (h, L) = Some (h\<lparr>hmem := (hmem h)(p + i := v)\<rparr>, L)"

inductive heap_runs :: "clib_dma \<Rightarrow> heap_call list \<Rightarrow> tegrabl_heap \<times> live \<Rightarrow> tegrabl_heap \<times> live \<Rightarrow> bool" for dma where
  finished: "heap_runs dma [] w w"
| called: "allowed (snd w) c \<Longrightarrow> heap_exec dma c w = Some w1 \<Longrightarrow> heap_runs dma cs w1 w2 \<Longrightarrow> heap_runs dma (c # cs) w w2"

inductive_cases heap_runs_ConsE: "heap_runs dma (c # cs) w w2"
inductive_simps heap_runs_Nil: "heap_runs dma [] w w2"

fun aligning :: "heap_call \<Rightarrow> bool" where
  "aligning (Memalign al sz) = True" | "aligning (Alloc_align t al sz) = True" | "aligning _ = False"


section \<open>The invariant of the system\<close>

definition ptr :: "nat \<times> nat \<times> nat \<Rightarrow> u64" where
  "ptr = (\<lambda>(c, off, u). W (c + off + 24))"

definition tracks :: "nat \<Rightarrow> block list \<Rightarrow> live \<Rightarrow> bool" where
  "tracks lo bs L \<longleftrightarrow> dom L = ptr ` set (useds lo bs) \<and>
     (\<forall>(c, off, u) \<in> set (useds lo bs). \<exists>n. L (ptr (c, off, u)) = Some n \<and> off + 24 + n \<le> u)"

text \<open>\<open>clean\<close> histories lose nothing: there is no block that is neither free nor held.\<close>

definition world_inv :: "nat \<Rightarrow> nat \<Rightarrow> bool \<Rightarrow> tegrabl_heap \<times> live \<Rightarrow> bool" where
  "world_inv lo e clean = (\<lambda>(h, L). 32 \<le> lo \<and> (\<exists>bs. heap_inv lo bs h \<and> extent bs = e \<and> tracks lo bs L \<and> (clean \<longrightarrow> (\<forall>l. Lost l \<notin> set bs))))"

lemma ptr_inj:
  assumes "heap_inv lo bs h"
  shows "inj_on ptr (set (useds lo bs))"
proof (rule inj_onI)
  fix g g' assume g: "g \<in> set (useds lo bs)" "g' \<in> set (useds lo bs)" "ptr g = ptr g'"
  obtain c off u c' off' u' where e: "g = (c, off, u)" "g' = (c', off', u')" by (cases g, cases g') auto
  have w: "list_all wf_block bs" "lo + extent bs \<le> 2 ^ 64" using assms by (auto simp: heap_inv_def core_def)
  have b: "off + 32 \<le> u" "c + u \<le> 2 ^ 64" "off' + 32 \<le> u'" "c' + u' \<le> 2 ^ 64"
    using useds_bounds [OF w(1)] g(1,2) w(2) unfolding e by force+
  then have "c + off + 24 = c' + off' + 24" using g(3) W_eq [of "c + off + 24" "c' + off' + 24"] by (simp add: ptr_def e del: of_nat_add)
  then show "g = g'" using useds_apart [OF w(1), of c off u lo c' off' u'] g(1,2) b unfolding e by force
qed

lemma live_used:
  assumes "tracks lo bs L" "L p = Some n"
  shows "\<exists>c off u. (c, off, u) \<in> set (useds lo bs) \<and> p = ptr (c, off, u) \<and> off + 24 + n \<le> u"
proof -
  have "p \<in> ptr ` set (useds lo bs)" using assms by (auto simp: tracks_def)
  then obtain c off u where g: "(c, off, u) \<in> set (useds lo bs)" "p = ptr (c, off, u)" by (force simp: ptr_def)
  with assms show ?thesis by (fastforce simp: tracks_def)
qed

lemma tracks_grant:
  assumes "grants lo bs h bs' h' (c, off, u)" "tracks lo bs L" "off + 24 + n \<le> u"
  shows "tracks lo bs' (L(ptr (c, off, u) \<mapsto> n))"
proof -
  have g: "(c, off, u) \<notin> set (useds lo bs)" "set (useds lo bs') = insert (c, off, u) (set (useds lo bs))" "heap_inv lo bs' h'"
    using assms(1) by (auto simp: grants_def)
  then have "ptr (c, off, u) \<notin> ptr ` set (useds lo bs)" using ptr_inj [OF g(3)] by (auto simp: inj_on_def)
  with g assms(2,3) show ?thesis unfolding tracks_def by (auto simp: image_iff)
qed

lemma tracks_release:
  assumes "heap_inv lo bs h" "releases lo bs h bs' h' g" "tracks lo bs L" "g \<in> set (useds lo bs)"
  shows "tracks lo bs' (L(ptr g := None))"
proof -
  have u: "set (useds lo bs') = set (useds lo bs) - {g}" using assms(2) by (auto simp: releases_def)
  have j: "inj_on ptr (set (useds lo bs))" by (rule ptr_inj [OF assms(1)])
  then have "ptr ` set (useds lo bs') = ptr ` set (useds lo bs) - {ptr g}"
    using assms(4) unfolding u by (auto simp: inj_on_def)
  moreover have "ptr g' \<noteq> ptr g" if "g' \<in> set (useds lo bs')" for g' using that j assms(4) u by (auto simp: inj_on_def)
  ultimately show ?thesis using assms(3) u unfolding tracks_def by auto
qed

lemma keeps_live:
  assumes "keeps (useds lo bs) m m'" "tracks lo bs L" "L p = Some n" "unat i < n"
  shows "m' (p + i) = m (p + i)"
proof -
  obtain c off u where g: "(c, off, u) \<in> set (useds lo bs)" "p = ptr (c, off, u)" "off + 24 + n \<le> u" using live_used [OF assms(2,3)] by blast
  have "p + i = W (c + off + 24 + unat i)" by (simp add: g(2) ptr_def)
  moreover have "c \<le> c + off + 24 + unat i" "c + off + 24 + unat i < c + u" using g(3) assms(4) by auto
  ultimately show ?thesis using assms(1) g(1) unfolding keeps_def by fastforce
qed


lemma filled_W:
  assumes "z < 2 ^ 64" "d + n \<le> 2 ^ 64" "z < d \<or> d + n \<le> z"
  shows "filled (W d) v n m (W z) = m (W z)"
proof (cases "n = 0")
  case False
  then have u: "unat (W d) = d" "unat (W z) = z" using assms by (auto intro!: unat_of_nat64)
  have "\<not> unat (W z - W d) < n"
  proof (cases "z < d")
    case True
    then have "unat (W z - W d) = 2 ^ 64 + z - d" using unat_sub_of_nat_small [of "W z" d] u assms False by simp
    then show ?thesis using assms True by linarith
  next
    case False
    then have "unat (W z - W d) = z - d" using unat_sub_of_nat [of d "W z"] u assms by simp
    then show ?thesis using assms False by linarith
  qed
  then show ?thesis by (simp add: filled_apply)
qed (simp add: filled_apply)

lemma grants_nonzero:
  assumes "grants lo bs h bs' h' (c, off, k)"
  shows "W (c + off + 24) \<noteq> 0" "off + 32 \<le> k" "c + k \<le> 2 ^ 64"
proof -
  have "list_all wf_block bs'" "(c, off, k) \<in> set (useds lo bs')" "lo + extent bs' \<le> 2 ^ 64" "0 < lo"
    using assms by (auto simp: grants_def heap_inv_def core_def)
  then have "off + 32 \<le> k" "c + k \<le> 2 ^ 64" "0 < c" using useds_bounds [of bs' c off k lo] by auto
  then show "W (c + off + 24) \<noteq> 0" "off + 32 \<le> k" "c + k \<le> 2 ^ 64" using W_nonzero [of "c + off + 24"] by simp_all
qed

lemma cleared_grants:
  assumes g: "grants lo bs h bs' h1 (c, off, k)" and n: "off + 24 + n \<le> k"
  shows "grants lo bs h bs' (h1\<lparr>hmem := filled (W (c + off + 24)) v n (hmem h1)\<rparr>) (c, off, k)"
proof -
  define m' where "m' = filled (W (c + off + 24)) v n (hmem h1)"
  have gi: "heap_inv lo bs' h1" "(c, off, k) \<in> set (useds lo bs')" "set (useds lo bs) \<subseteq> set (useds lo bs')" "(c, off, k) \<notin> set (useds lo bs)"
    using g by (auto simp: grants_def)
  have w: "list_all wf_block bs'" "lo + extent bs' \<le> 2 ^ 64" using gi(1) by (auto simp: heap_inv_def core_def)
  have top: "c + k \<le> 2 ^ 64" using useds_bounds [OF w(1) gi(2)] w(2) by simp
  have far: "m' (W z) = hmem h1 (W z)" if "z < 2 ^ 64" "z < c + off + 24 \<or> c + k \<le> z" for z
    unfolding m'_def by (rule filled_W) (use that n top in auto)
  have "heap_inv lo bs' (h1\<lparr>hmem := m'\<rparr>)" by (rule heap_inv_user [OF gi(1,2) far])
  moreover have "keeps (useds lo bs) (hmem h1) m'" unfolding keeps_def
  proof (intro ballI, clarify)
    fix c' off' u' x assume x: "(c', off', u') \<in> set (useds lo bs)" "c' \<le> x" "x < c' + u'"
    then have x': "(c', off', u') \<in> set (useds lo bs')" "(c, off, k) \<noteq> (c', off', u')" using gi(3,4) by auto
    have "c + k \<le> c' \<or> c' + u' \<le> c" by (rule useds_apart [OF w(1) gi(2) x'])
    moreover have "c' + u' \<le> 2 ^ 64" using useds_bounds [OF w(1) x'(1)] w(2) by auto
    ultimately show "m' (W x) = hmem h1 (W x)" using far [of x] x n by auto
  qed
  ultimately show ?thesis using g unfolding m'_def [symmetric] by (auto simp: grants_def intro: keeps_trans)
qed

lemma calloc_inv:
  assumes i: "heap_inv lo bs h" and dma: "dma_set_ok dma"
  shows "\<exists>p h'. tegrabl_calloc dma nmemb sz h = Some (p, h') \<and>
    (p = 0 \<and> h' = h \<or> (\<exists>bs' c k. p = W (c + 24) \<and> 24 + unat nmemb * unat sz \<le> k \<and> grants lo bs h bs' h' (c, 0, k) \<and>
      (\<forall>l. Lost l \<in> set bs' \<longrightarrow> Lost l \<in> set bs) \<and> (\<forall>i. unat i < unat nmemb * unat sz \<longrightarrow> hmem h' (p + i) = 0)))"
proof (cases "sz = 0 \<or> nmemb > max_heap_size h 0 div sz")
  case False
  then have "unat nmemb \<le> unat (max_heap_size h 0) div unat sz" and sz: "0 < unat sz"
    by (auto simp: not_less word_le_nat_alt unat_div unat_gt_0)
  then have "unat nmemb * unat sz \<le> unat (max_heap_size h 0)" by (simp add: less_eq_div_iff_mult_less_eq)
  then have small: "unat nmemb * unat sz < 2 ^ 64" using unat_lt64 [of "max_heap_size h 0"] by linarith
  then have un: "unat (sz * nmemb) = unat nmemb * unat sz" by (simp add: unat_word_ariths mult.commute)
  obtain p h1 where m: "tegrabl_malloc (sz * nmemb) h = Some (p, h1)" "p = 0 \<and> h1 = h \<or> (\<exists>bs' c k. p = W (c + 24) \<and>
      24 + unat nmemb * unat sz \<le> k \<and> grants lo bs h bs' h1 (c, 0, k) \<and> (\<forall>l. Lost l \<in> set bs' \<longrightarrow> Lost l \<in> set bs))"
    using malloc_inv [OF i, of "sz * nmemb"] unfolding un by blast
  have e: "tegrabl_calloc dma nmemb sz h = Some (if p \<noteq> 0 then (p, h1\<lparr>hmem := filled p 0 (unat nmemb * unat sz) (hmem h1)\<rparr>) else (p, h1))"
    using False m(1) memset_filled [OF dma, of p 0 "sz * nmemb" "hmem h1"] by (simp add: tegrabl_calloc_def un)
  show ?thesis
  proof (cases "p = 0")
    case True
    then have "h1 = h" using m(2) grants_nonzero(1) [of lo bs h _ h1 _ 0] by auto
    then show ?thesis using e True by simp
  next
    case p0: False
    then obtain bs' c k where g: "p = W (c + 24)" "24 + unat nmemb * unat sz \<le> k" "grants lo bs h bs' h1 (c, 0, k)"
        "\<forall>l. Lost l \<in> set bs' \<longrightarrow> Lost l \<in> set bs" using m(2) by blast
    have "grants lo bs h bs' (h1\<lparr>hmem := filled p 0 (unat nmemb * unat sz) (hmem h1)\<rparr>) (c, 0, k)"
      using cleared_grants [OF g(3), of "unat nmemb * unat sz" 0] g(1,2) by simp
    then show ?thesis using e p0 g(1,2,4) by (auto simp: filled_apply)
  qed
qed (auto simp: tegrabl_calloc_def)


definition undisturbed :: "tegrabl_heap \<times> live \<Rightarrow> tegrabl_heap \<times> live \<Rightarrow> bool" where
  "undisturbed w w' \<longleftrightarrow> (\<forall>p n i. snd w p = Some n \<longrightarrow> snd w' p \<noteq> None \<longrightarrow> unat i < n \<longrightarrow>
     snd w' p = Some n \<and> hmem (fst w') (p + i) = hmem (fst w) (p + i))"

definition allocated :: "nat \<Rightarrow> bool \<Rightarrow> nat \<Rightarrow> block list \<Rightarrow> tegrabl_heap \<Rightarrow> u64 \<Rightarrow> tegrabl_heap \<Rightarrow> bool" where
  "allocated lo clean n bs h p h' \<longleftrightarrow> p = 0 \<and> h' = h \<or> (\<exists>bs' c off k. p = ptr (c, off, k) \<and> off + 24 + n \<le> k \<and>
     grants lo bs h bs' h' (c, off, k) \<and> (clean \<longrightarrow> (\<forall>l. Lost l \<in> set bs' \<longrightarrow> Lost l \<in> set bs)))"

lemma got_step:
  assumes w: "32 \<le> lo" "heap_inv lo bs h" "tracks lo bs L" "clean \<longrightarrow> (\<forall>l. Lost l \<notin> set bs)" and a: "allocated lo clean n bs h p h'"
  shows "world_inv lo (extent bs) clean (got L n (p, h')) \<and> undisturbed (h, L) (got L n (p, h'))"
  using a unfolding allocated_def
proof
  assume "p = 0 \<and> h' = h"
  then show ?thesis using w by (auto simp: got_def world_inv_def undisturbed_def)
next
  assume "\<exists>bs' c off k. p = ptr (c, off, k) \<and> off + 24 + n \<le> k \<and>
     grants lo bs h bs' h' (c, off, k) \<and> (clean \<longrightarrow> (\<forall>l. Lost l \<in> set bs' \<longrightarrow> Lost l \<in> set bs))"
  then obtain bs' c off k where g: "p = ptr (c, off, k)" "off + 24 + n \<le> k" "grants lo bs h bs' h' (c, off, k)"
    "clean \<longrightarrow> (\<forall>l. Lost l \<in> set bs' \<longrightarrow> Lost l \<in> set bs)" by blast
  have p0: "p \<noteq> 0" using grants_nonzero(1) [OF g(3)] by (simp add: g(1) ptr_def)
  have t: "tracks lo bs' (L(p \<mapsto> n))" unfolding g(1) by (rule tracks_grant [OF g(3) w(3) g(2)])
  have u: "(c, off, k) \<notin> set (useds lo bs)" "set (useds lo bs') = insert (c, off, k) (set (useds lo bs))" "heap_inv lo bs' h'" "extent bs' = extent bs"
      "keeps (useds lo bs) (hmem h) (hmem h')" using g(3) by (auto simp: grants_def)
  then have "p \<notin> dom L" using ptr_inj [OF u(3)] w(3) by (auto simp: tracks_def g(1) inj_on_def)
  then have "undisturbed (h, L) (h', L(p \<mapsto> n))" using keeps_live [OF u(5) w(3)] by (auto simp: undisturbed_def)
  with p0 t u g(4) w(1,4) show ?thesis by (auto simp: got_def world_inv_def)
qed

lemma allocated_plain:
  assumes "\<exists>p h'. r = Some (p, h') \<and> (p = 0 \<and> h' = h \<or> (\<exists>bs' c k. p = W (c + 24) \<and> 24 + n \<le> k \<and> grants lo bs h bs' h' (c, 0, k) \<and>
      (\<forall>l. Lost l \<in> set bs' \<longrightarrow> Lost l \<in> set bs) \<and> P p h'))"
  shows "\<exists>p h'. r = Some (p, h') \<and> allocated lo clean n bs h p h'"
proof -
  obtain p h' where r: "r = Some (p, h')" and d: "p = 0 \<and> h' = h \<or> (\<exists>bs' c k. p = W (c + 24) \<and> 24 + n \<le> k \<and> grants lo bs h bs' h' (c, 0, k) \<and>
      (\<forall>l. Lost l \<in> set bs' \<longrightarrow> Lost l \<in> set bs) \<and> P p h')" using assms by blast
  from d have "allocated lo clean n bs h p h'"
  proof
    assume "\<exists>bs' c k. p = W (c + 24) \<and> 24 + n \<le> k \<and> grants lo bs h bs' h' (c, 0, k) \<and> (\<forall>l. Lost l \<in> set bs' \<longrightarrow> Lost l \<in> set bs) \<and> P p h'"
    then obtain bs' c k where "p = W (c + 24)" "24 + n \<le> k" "grants lo bs h bs' h' (c, 0, k)" "\<forall>l. Lost l \<in> set bs' \<longrightarrow> Lost l \<in> set bs" by blast
    then show ?thesis unfolding allocated_def
      by (intro disjI2 exI [of _ bs'] exI [of _ c] exI [of _ 0] exI [of _ k]) (simp add: ptr_def)
  qed (simp add: allocated_def)
  with r show ?thesis by blast
qed

lemma malloc_allocated:
  assumes "heap_inv lo bs h"
  shows "\<exists>p h'. tegrabl_malloc sz h = Some (p, h') \<and> allocated lo clean (unat sz) bs h p h'"
    "\<exists>p h'. tegrabl_alloc t sz h = Some (p, h') \<and> allocated lo clean (unat sz) bs h p h'"
proof -
  show m: "\<exists>p h'. tegrabl_malloc sz h = Some (p, h') \<and> allocated lo clean (unat sz) bs h p h'"
    using malloc_inv [OF assms, of sz] by (intro allocated_plain [where P = "\<lambda>_ _. True"]) simp
  have "free_list h 1 = 0" using assms by (simp add: heap_inv_def core_def)
  then show "\<exists>p h'. tegrabl_alloc t sz h = Some (p, h') \<and> allocated lo clean (unat sz) bs h p h'"
    using m by (simp add: tegrabl_alloc_def)
qed

lemma calloc_allocated:
  assumes "heap_inv lo bs h" "dma_set_ok dma"
  shows "\<exists>p h'. tegrabl_calloc dma nm sz h = Some (p, h') \<and> allocated lo clean (unat nm * unat sz) bs h p h'"
  by (rule allocated_plain) (rule calloc_inv [OF assms])

lemma memalign_allocated:
  assumes "heap_inv lo bs h" "32 \<le> lo" "0 < al"
  shows "\<exists>p h'. tegrabl_memalign al sz h = Some (p, h') \<and> allocated lo False (unat sz) bs h p h'"
    "\<exists>p h'. tegrabl_alloc_align t al sz h = Some (p, h') \<and> allocated lo False (unat sz) bs h p h'"
proof -
  show m: "\<exists>p h'. tegrabl_memalign al sz h = Some (p, h') \<and> allocated lo False (unat sz) bs h p h'"
    using memalign_inv [OF assms, of sz] by (simp add: allocated_def ptr_def tegrabl_memalign_def) blast
  have "free_list h 1 = 0" using assms by (simp add: heap_inv_def core_def)
  then show "\<exists>p h'. tegrabl_alloc_align t al sz h = Some (p, h') \<and> allocated lo False (unat sz) bs h p h'"
    using m by (simp add: tegrabl_alloc_align_def tegrabl_memalign_def)
qed

lemma release_step:
  assumes w: "32 \<le> lo" "heap_inv lo bs h" "tracks lo bs L" "clean \<longrightarrow> (\<forall>l. Lost l \<notin> set bs)" and p: "p = 0 \<or> p \<in> dom L"
  shows "\<exists>h'. tegrabl_dealloc t p h = Some h' \<and> world_inv lo (extent bs) clean (h', L(p := None)) \<and> undisturbed (h, L) (h', L(p := None))"
proof (cases "p \<in> dom L")
  case True
  then obtain c off u where g: "(c, off, u) \<in> set (useds lo bs)" "p = ptr (c, off, u)" using live_used [OF w(3)] by blast
  obtain bs' h' where r: "tegrabl_dealloc t p h = Some h'" "releases lo bs h bs' h' (c, off, u)"
    using dealloc_inv [OF w(2) g(1), of t] g(2) by (auto simp: ptr_def)
  have tr: "tracks lo bs' (L(p := None))" unfolding g(2) by (rule tracks_release [OF w(2) r(2) w(3) g(1)])
  then have "undisturbed (h, L) (h', L(p := None))"
    using keeps_live [of lo bs' "hmem h" "hmem h'", OF _ tr] r(2) by (auto simp: undisturbed_def releases_def split: if_splits)
  with tr r w(1,4) show ?thesis by (auto simp: world_inv_def releases_def)
next
  case False
  then have "L(p := None) = L" "p = 0" using p by auto
  then show ?thesis using w by (auto simp: tegrabl_dealloc_def tegrabl_generic_free_def world_inv_def undisturbed_def Let_def)
qed

lemma store_step:
  assumes w: "heap_inv lo bs h" "tracks lo bs L" and p: "L p = Some n" "unat i < n"
  shows "heap_inv lo bs (h\<lparr>hmem := (hmem h)(p + i := v)\<rparr>)"
proof -
  obtain c off u where g: "(c, off, u) \<in> set (useds lo bs)" "p = ptr (c, off, u)" "off + 24 + n \<le> u" using live_used [OF w(2) p(1)] by blast
  have b: "list_all wf_block bs" "lo + extent bs \<le> 2 ^ 64" using w(1) by (auto simp: heap_inv_def core_def)
  then have top: "c + u \<le> 2 ^ 64" using useds_bounds [OF b(1) g(1)] by simp
  have a: "p + i = W (c + off + 24 + unat i)" by (simp add: g(2) ptr_def)
  show ?thesis
  proof (rule heap_inv_user [OF w(1) g(1)])
    fix z :: nat assume z: "z < 2 ^ 64" "z < c + off + 24 \<or> c + u \<le> z"
    then have "W z \<noteq> p + i" unfolding a using W_eq [of z "c + off + 24 + unat i"] top g(3) p(2) by auto
    then show "((hmem h)(p + i := v)) (W z) = hmem h (W z)" by simp
  qed
qed


lemma exec_inv:
  assumes w: "world_inv lo e clean w" and ok: "allowed (snd w) c" "dma_set_ok dma" "clean \<longrightarrow> \<not> aligning c"
  shows "\<exists>w'. heap_exec dma c w = Some w' \<and> world_inv lo e clean w' \<and> ((\<forall>p i v. c \<noteq> Store p i v) \<longrightarrow> undisturbed w w')"
proof -
  obtain h L bs where hL: "w = (h, L)" and e: "extent bs = e" and b: "32 \<le> lo" "heap_inv lo bs h" "tracks lo bs L" "clean \<longrightarrow> (\<forall>l. Lost l \<notin> set bs)"
    using w by (cases w) (auto simp: world_inv_def)
  note step = got_step [OF b, unfolded e] and rel = release_step [OF b, unfolded e]
  show ?thesis
  proof (cases c)
    case (Malloc sz)
    with malloc_allocated(1) [OF b(2), of sz clean] step show ?thesis by (fastforce simp: hL)
  next
    case (Alloc t sz)
    with malloc_allocated(2) [OF b(2), of t sz clean] step show ?thesis by (fastforce simp: hL)
  next
    case (Calloc n sz)
    with calloc_allocated [OF b(2) ok(2), of n sz clean] step show ?thesis by (fastforce simp: hL)
  next
    case (Memalign al sz)
    with memalign_allocated(1) [OF b(2,1), of al sz] step ok show ?thesis by (fastforce simp: hL)
  next
    case (Alloc_align t al sz)
    with memalign_allocated(2) [OF b(2,1), of al t sz] step ok show ?thesis by (fastforce simp: hL)
  next
    case (Release p)
    with rel [of p 0] ok show ?thesis by (auto simp: hL tegrabl_free_def)
  next
    case (Dealloc t p)
    with rel [of p t] ok show ?thesis by (auto simp: hL)
  next
    case (Store p i v)
    then obtain n where "L p = Some n" "unat i < n" using ok by (auto simp: hL split: option.splits)
    from store_step [OF b(2,3) this] show ?thesis using Store b(1,3,4) e by (auto simp: hL world_inv_def)
  qed
qed

lemma runs_inv:
  assumes "heap_runs dma cs w w'" "dma_set_ok dma" "world_inv lo e clean w" "clean \<longrightarrow> (\<forall>c \<in> set cs. \<not> aligning c)"
  shows "world_inv lo e clean w'"
  using assms
proof (induction rule: heap_runs.induct)
  case (called w c w1 cs w2)
  then show ?case using exec_inv [of lo e clean w c dma] by auto
qed

lemma heap_init_ok:
  assumes "tegrabl_heap_init 0 start sz h0 = (TEGRABL_NO_ERROR, h)"
  shows "32 \<le> sz" "h = h0\<lparr>hmem := set_magic start FREE_MAGIC (set_size start sz (set_next start 0 (set_prev start 0 (hmem h0)))),
      free_list := (free_list h0)(0 := start), max_heap_size := (max_heap_size h0)(0 := sz)\<rparr>"
  using assms by (auto simp: tegrabl_heap_init_def heap_error_def Let_def not_less split: if_splits)

lemma init_inv:
  assumes s: "32 \<le> start" "unat start + unat sz \<le> 2 ^ 64" "free_list h0 1 = 0" and i: "tegrabl_heap_init 0 start sz h0 = (TEGRABL_NO_ERROR, h)"
  shows "heap_inv (unat start) [Free (unat sz)] h" "world_inv (unat start) (unat sz) True (h, Map.empty)"
proof -
  note h = heap_init_ok [OF i]
  have u: "32 \<le> unat start" "32 \<le> unat sz" using s(1) h(1) by (simp_all add: word_le_nat_alt)
  then have "start \<noteq> 0" by auto
  then show b: "heap_inv (unat start) [Free (unat sz)] h"
    using u s unfolding heap_inv_def core_def by (simp add: h(2) frees_ok_def useds_ok_def no_adj_Cons)
  then show "world_inv (unat start) (unat sz) True (h, Map.empty)"
    using u(1) unfolding world_inv_def by (auto intro!: exI [of _ "[Free (unat sz)]"] simp: tracks_def)
qed


section \<open>A fresh heap\<close>

text \<open>What a boot stage promises the allocator: a region above the first 32 bytes that ends in the address space.\<close>

locale fresh_heap =
  fixes start sz :: u64 and h0 h :: tegrabl_heap
  assumes region: "32 \<le> start" "unat start + unat sz \<le> 2 ^ 64" "free_list h0 1 = 0"
    and started: "tegrabl_heap_init 0 start sz h0 = (TEGRABL_NO_ERROR, h)"

sublocale fresh_heap \<subseteq> whole: heap_at "unat start" "[]" "[Free (unat sz)]" "[]" h "unat start" "unat start + unat sz" 0 0
  using init_inv(1) [OF region started] by unfold_locales (simp_all add: heap_inv_def)

context fresh_heap
begin

lemma reachable:
  assumes "heap_runs dma cs (h, Map.empty) w" "dma_set_ok dma"
  shows "world_inv (unat start) (unat sz) (\<forall>c \<in> set cs. \<not> aligning c) w"
proof (rule runs_inv [OF assms])
  show "world_inv (unat start) (unat sz) (\<forall>c \<in> set cs. \<not> aligning c) (h, Map.empty)"
    using init_inv(2) [OF region started] by (auto simp: world_inv_def)
qed simp

lemma held_regions:
  assumes "heap_runs dma cs (h, Map.empty) (h', L)" "dma_set_ok dma" "L p = Some n"
  shows "unat start + 24 \<le> unat p" "unat p + n \<le> unat start + unat sz"
    and "\<And>q k. L q = Some k \<Longrightarrow> q \<noteq> p \<Longrightarrow> unat p + n + 24 \<le> unat q \<or> unat q + k + 24 \<le> unat p"
proof -
  obtain bs where bs: "heap_inv (unat start) bs h'" "extent bs = unat sz" "tracks (unat start) bs L"
    using reachable [OF assms(1,2)] by (auto simp: world_inv_def)
  then have w: "list_all wf_block bs" by (simp add: heap_inv_def core_def)
  have used: "\<exists>c off u. (c, off, u) \<in> set (useds (unat start) bs) \<and> unat q = c + off + 24 \<and> off + 24 + k \<le> u \<and>
      unat start \<le> c \<and> c + u \<le> unat start + unat sz \<and> q = ptr (c, off, u)" if Lq: "L q = Some k" for q k
  proof -
    obtain c off u where g: "(c, off, u) \<in> set (useds (unat start) bs)" "q = ptr (c, off, u)" "off + 24 + k \<le> u"
      using live_used [OF bs(3) Lq] by blast
    then have "unat start \<le> c" "off + 32 \<le> u" "c + u \<le> unat start + unat sz" using useds_bounds [OF w g(1)] bs(2) by auto
    moreover from this have "unat q = c + off + 24" using region(2) unfolding g(2) ptr_def by (simp add: unat_of_nat64 del: of_nat_add)
    ultimately show ?thesis using g by blast
  qed
  obtain c off u where p: "(c, off, u) \<in> set (useds (unat start) bs)" "unat p = c + off + 24" "off + 24 + n \<le> u"
      "unat start \<le> c" "c + u \<le> unat start + unat sz" "p = ptr (c, off, u)"
    using used [OF assms(3)] by blast
  then show "unat start + 24 \<le> unat p" "unat p + n \<le> unat start + unat sz" by simp_all
  fix q k assume q: "L q = Some k" "q \<noteq> p"
  obtain c' off' u' where g: "(c', off', u') \<in> set (useds (unat start) bs)" "unat q = c' + off' + 24" "off' + 24 + k \<le> u'" "q = ptr (c', off', u')"
    using used [OF q(1)] by blast
  have "c + u \<le> c' \<or> c' + u' \<le> c" by (rule useds_apart [OF w p(1) g(1)]) (use q(2) p(6) g(4) in auto)
  then show "unat p + n + 24 \<le> unat q \<or> unat q + k + 24 \<le> unat p" using p g by linarith
qed

lemma all_released:
  assumes "heap_runs dma cs (h, Map.empty) (h', Map.empty)" "dma_set_ok dma" "\<forall>c \<in> set cs. \<not> aligning c"
  shows "heap_inv (unat start) [Free (unat sz)] h'"
proof -
  obtain bs where bs: "heap_inv (unat start) bs h'" "extent bs = unat sz" "useds (unat start) bs = []" "\<forall>l. Lost l \<notin> set bs"
    using reachable [OF assms(1,2)] assms(3) by (auto simp: world_inv_def tracks_def)
  have free: "\<forall>b \<in> set bs. is_free b"
  proof
    fix b assume b: "b \<in> set bs"
    then obtain xs ys where "bs = xs @ b # ys" by (meson split_list)
    with bs(3,4) b show "is_free b" by (cases b) (auto simp: useds_append)
  qed
  have "0 < unat sz" using heap_init_ok(1) [OF started] by (simp add: word_le_nat_alt)
  then obtain b rest where c: "bs = b # rest" using bs(2) by (cases bs) auto
  moreover have "rest = []" using bs(1) free c by (cases rest) (auto simp: heap_inv_def no_adj_Cons)
  ultimately have "bs = [Free (unat sz)]" using free bs(2) by (cases b) auto
  then show ?thesis using bs(1) by simp
qed

end

definition boot_heap :: tegrabl_heap where
  "boot_heap = snd (tegrabl_heap_init 0 0xA0000000 0x400000 \<lparr>hmem = \<lambda>_. 0, free_list = \<lambda>_. 0, max_heap_size = \<lambda>_. 0\<rparr>)"

interpretation boot: fresh_heap "0xA0000000" "0x400000" "\<lparr>hmem = \<lambda>_. 0, free_list = \<lambda>_. 0, max_heap_size = \<lambda>_. 0\<rparr>" boot_heap
  by unfold_locales (simp_all add: boot_heap_def tegrabl_heap_init_def)


section \<open>Properties of the allocator\<close>

lemma boot_malloc_at: "\<exists>h1. tegrabl_malloc 100 boot_heap = Some (0xA0000018, h1)"
proof -
  have "map_option fst (tegrabl_malloc 100 boot_heap) = Some 0xA0000018"
    by (simp add: boot_heap_def tegrabl_heap_init_def tegrabl_malloc_def tegrabl_generic_malloc_def first_fit.simps
      tegrabl_heap_split_block_def Let_def malloc_size_def ROUND_UP_def DIV_CEIL_def MAX64_def)
  then show ?thesis by auto
qed

lemma boot_malloc: "\<exists>h1. heap_exec dma (Malloc 100) (boot_heap, Map.empty) = Some (h1, [0xA0000018 \<mapsto> 100])"
proof -
  obtain h1 where "tegrabl_malloc 100 boot_heap = Some (0xA0000018, h1)" using boot_malloc_at by blast
  then show ?thesis by (simp add: got_def)
qed

lemma boot_started: "tegrabl_heap_init 0 0xA0000000 0x400000 \<lparr>hmem = \<lambda>_. 0, free_list = \<lambda>_. 0, max_heap_size = \<lambda>_. 0\<rparr> = (TEGRABL_NO_ERROR, boot_heap)"
  by (rule boot.started)

lemma no_dma_ok: "dma_set_ok \<lparr>memcpy_callback = None, memcpy_threshold = 0, memset_callback = None, memset_threshold = 0\<rparr>"
  by (simp add: dma_set_ok_def)

text \<open>
  (C1) Memory safety of the heap. After any sequence of calls and writes that a client may make, every allocation it
  holds lies inside the heap, with room for its header in front, and no two of them overlap.
\<close>
theorem heap_safety:
  assumes "32 \<le> start" "unat start + unat sz \<le> 2 ^ 64" "free_list h0 1 = 0" "tegrabl_heap_init 0 start sz h0 = (TEGRABL_NO_ERROR, h)"
    and "dma_set_ok dma" "heap_runs dma cs (h, Map.empty) (h', L)" "L p = Some n"
  shows "unat start + 24 \<le> unat p \<and> unat p + n \<le> unat start + unat sz \<and>
    (\<forall>q k. L q = Some k \<longrightarrow> q \<noteq> p \<longrightarrow> unat p + n + 24 \<le> unat q \<or> unat q + k + 24 \<le> unat p)"
proof -
  have "fresh_heap start sz h0 h" using assms by unfold_locales
  from fresh_heap.held_regions [OF this assms(6,5,7)] show ?thesis by blast
qed

theorem heap_safety_witness:
  "unat (0xA0000000 :: u64) + 24 \<le> unat (0xA0000018 :: u64) \<and> unat (0xA0000018 :: u64) + 100 \<le> unat (0xA0000000 :: u64) + unat (0x400000 :: u64)"
proof -
  define dma where "dma = \<lparr>memcpy_callback = None, memcpy_threshold = 0, memset_callback = None, memset_threshold = 0\<rparr>"
  obtain h1 where "heap_exec dma (Malloc 100) (boot_heap, Map.empty) = Some (h1, [0xA0000018 \<mapsto> 100])" using boot_malloc by blast
  then have "heap_runs dma [Malloc 100] (boot_heap, Map.empty) (h1, [0xA0000018 \<mapsto> 100])"
    by (auto intro!: heap_runs.intros)
  from heap_safety [OF _ _ _ boot_started _ this, of "0xA0000018" 100] show ?thesis using no_dma_ok by (simp add: dma_def)
qed

text \<open>
  (C13) No call of a client that keeps the contract hangs or meets a corrupted header: in every reachable state every
  allowed call returns.
\<close>
theorem heap_calls_return:
  assumes "32 \<le> start" "unat start + unat sz \<le> 2 ^ 64" "free_list h0 1 = 0" "tegrabl_heap_init 0 start sz h0 = (TEGRABL_NO_ERROR, h)"
    and "dma_set_ok dma" "heap_runs dma cs (h, Map.empty) (h', L)" "allowed L c"
  shows "\<exists>w. heap_exec dma c (h', L) = Some w"
proof -
  have "fresh_heap start sz h0 h" using assms by unfold_locales
  from fresh_heap.reachable [OF this assms(6,5)] have "world_inv (unat start) (unat sz) False (h', L)" by (auto simp: world_inv_def)
  from exec_inv [OF this, of c dma] assms(5,7) show ?thesis by auto
qed

theorem heap_calls_return_witness:
  "\<exists>h1 w. heap_exec \<lparr>memcpy_callback = None, memcpy_threshold = 0, memset_callback = None, memset_threshold = 0\<rparr> (Malloc 100) (boot_heap, Map.empty) = Some (h1, [0xA0000018 \<mapsto> 100]) \<and>
     heap_exec \<lparr>memcpy_callback = None, memcpy_threshold = 0, memset_callback = None, memset_threshold = 0\<rparr> (Release 0xA0000018) (h1, [0xA0000018 \<mapsto> 100]) = Some w"
proof -
  define dma where "dma = \<lparr>memcpy_callback = None, memcpy_threshold = 0, memset_callback = None, memset_threshold = 0\<rparr>"
  obtain h1 where h1: "heap_exec dma (Malloc 100) (boot_heap, Map.empty) = Some (h1, [0xA0000018 \<mapsto> 100])" using boot_malloc by blast
  then have "heap_runs dma [Malloc 100] (boot_heap, Map.empty) (h1, [0xA0000018 \<mapsto> 100])"
    by (auto intro!: heap_runs.intros)
  from heap_calls_return [OF _ _ _ boot_started _ this, of "Release 0xA0000018"] h1 show ?thesis using no_dma_ok unfolding dma_def by auto
qed

text \<open>
  (C7) No call disturbs what the client keeps: every byte of an allocation that is held before and after a call of the
  allocator has the same value, and its size is the same.
\<close>
theorem heap_keeps_data:
  assumes "32 \<le> start" "unat start + unat sz \<le> 2 ^ 64" "free_list h0 1 = 0" "tegrabl_heap_init 0 start sz h0 = (TEGRABL_NO_ERROR, h)"
    and "dma_set_ok dma" "heap_runs dma cs (h, Map.empty) (h1, L1)" "allowed L1 c" "heap_exec dma c (h1, L1) = Some (h2, L2)"
    and "\<forall>p i v. c \<noteq> Store p i v" "L1 p = Some n" "L2 p \<noteq> None" "unat i < n"
  shows "L2 p = Some n \<and> hmem h2 (p + i) = hmem h1 (p + i)"
proof -
  have "fresh_heap start sz h0 h" using assms by unfold_locales
  from fresh_heap.reachable [OF this assms(6,5)] have "world_inv (unat start) (unat sz) False (h1, L1)" by (auto simp: world_inv_def)
  from exec_inv [OF this, of c dma] have "undisturbed (h1, L1) (h2, L2)" using assms(5,7-9) by auto
  with assms(10-12) show ?thesis by (simp add: undisturbed_def)
qed

theorem heap_keeps_data_witness:
  "\<exists>h1 h2 L2. heap_exec \<lparr>memcpy_callback = None, memcpy_threshold = 0, memset_callback = None, memset_threshold = 0\<rparr> (Malloc 100) (boot_heap, Map.empty) = Some (h1, [0xA0000018 \<mapsto> 100]) \<and>
     heap_exec \<lparr>memcpy_callback = None, memcpy_threshold = 0, memset_callback = None, memset_threshold = 0\<rparr> (Malloc 8) (h1, [0xA0000018 \<mapsto> 100]) = Some (h2, L2) \<and>
     L2 0xA0000018 = Some 100 \<and> hmem h2 (0xA0000018 + 99) = hmem h1 (0xA0000018 + 99)"
proof -
  define dma where "dma = \<lparr>memcpy_callback = None, memcpy_threshold = 0, memset_callback = None, memset_threshold = 0\<rparr>"
  obtain h1 where h1: "heap_exec dma (Malloc 100) (boot_heap, Map.empty) = Some (h1, [0xA0000018 \<mapsto> 100])" using boot_malloc by blast
  then have r: "heap_runs dma [Malloc 100] (boot_heap, Map.empty) (h1, [0xA0000018 \<mapsto> 100])"
    by (auto intro!: heap_runs.intros)
  have ok: "dma_set_ok dma" using no_dma_ok by (simp add: dma_def)
  obtain h2 L2 where f: "heap_exec dma (Malloc 8) (h1, [0xA0000018 \<mapsto> 100]) = Some (h2, L2)"
    using exec_inv [OF boot.reachable [OF r ok], of "Malloc 8" dma] ok by auto
  then have "L2 0xA0000018 \<noteq> None" by (auto simp: got_def split: if_splits)
  with heap_keeps_data [OF _ _ _ boot_started ok r _ f, of "0xA0000018" 100 99] h1 f show ?thesis unfolding dma_def by auto
qed


lemma heap_runs_snoc:
  assumes "heap_runs dma cs w w1" "allowed (snd w1) c" "heap_exec dma c w1 = Some w2"
  shows "heap_runs dma (cs @ [c]) w w2"
  using assms
proof (induction rule: heap_runs.induct)
  case (called w d w1 cs w2)
  then show ?case using heap_runs.called [of w d dma w1 "cs @ [c]"] by simp
qed (auto intro: heap_runs.intros)

text \<open>
  (C12) Nothing is lost and nothing stays fragmented: when a client that does not ask for alignment has released all
  it held, in whatever order, the heap is again one free block of its whole size, as after its initialisation.
\<close>
theorem heap_no_leak:
  assumes "32 \<le> start" "unat start + unat sz \<le> 2 ^ 64" "free_list h0 1 = 0" "tegrabl_heap_init 0 start sz h0 = (TEGRABL_NO_ERROR, h)"
    and "dma_set_ok dma" "heap_runs dma cs (h, Map.empty) (h', Map.empty)" "\<forall>c \<in> set cs. \<not> aligning c"
  shows "free_list h' 0 = start \<and> block_magic (hmem h') start = FREE_MAGIC \<and> block_size (hmem h') start = sz \<and>
    block_prev (hmem h') start = 0 \<and> block_next (hmem h') start = 0"
proof -
  have "fresh_heap start sz h0 h" using assms by unfold_locales
  from fresh_heap.all_released [OF this assms(6,5,7)] show ?thesis by (simp add: heap_inv_def core_def frees_ok_def)
qed

theorem heap_no_leak_witness:
  "\<exists>h1 h2. heap_exec \<lparr>memcpy_callback = None, memcpy_threshold = 0, memset_callback = None, memset_threshold = 0\<rparr> (Malloc 100) (boot_heap, Map.empty) = Some (h1, [0xA0000018 \<mapsto> 100]) \<and>
     heap_exec \<lparr>memcpy_callback = None, memcpy_threshold = 0, memset_callback = None, memset_threshold = 0\<rparr> (Release 0xA0000018) (h1, [0xA0000018 \<mapsto> 100]) = Some (h2, Map.empty) \<and>
     free_list h2 0 = 0xA0000000 \<and> block_size (hmem h2) 0xA0000000 = 0x400000"
proof -
  define dma where "dma = \<lparr>memcpy_callback = None, memcpy_threshold = 0, memset_callback = None, memset_threshold = 0\<rparr>"
  have ok: "dma_set_ok dma" using no_dma_ok by (simp add: dma_def)
  obtain h1 where h1: "heap_exec dma (Malloc 100) (boot_heap, Map.empty) = Some (h1, [0xA0000018 \<mapsto> 100])" using boot_malloc by blast
  then have r: "heap_runs dma [Malloc 100] (boot_heap, Map.empty) (h1, [0xA0000018 \<mapsto> 100])" by (auto intro!: heap_runs.intros)
  obtain h2 L2 where h2: "heap_exec dma (Release 0xA0000018) (h1, [0xA0000018 \<mapsto> 100]) = Some (h2, L2)"
    using exec_inv [OF boot.reachable [OF r ok], of "Release 0xA0000018" dma] ok by auto
  then have L2: "L2 = Map.empty" by auto
  then have "heap_runs dma [Malloc 100, Release 0xA0000018] (boot_heap, Map.empty) (h2, Map.empty)" using h1 h2 by (auto intro!: heap_runs.intros)
  from heap_no_leak [OF _ _ _ boot_started ok this] h1 h2 L2 show ?thesis unfolding dma_def by auto
qed

text \<open>
  (C17) An aligned allocation is aligned: the pointer that \<open>tegrabl_memalign\<close> returns in a reachable state, when it
  returns one, is a multiple of the alignment asked for, any positive number, not only a power of two.
\<close>
theorem memalign_aligned:
  assumes "32 \<le> start" "unat start + unat sz \<le> 2 ^ 64" "free_list h0 1 = 0" "tegrabl_heap_init 0 start sz h0 = (TEGRABL_NO_ERROR, h)"
    and "dma_set_ok dma" "heap_runs dma cs (h, Map.empty) (h1, L1)" "0 < alignment" "tegrabl_memalign alignment n h1 = Some (p, h2)" "p \<noteq> 0"
  shows "unat alignment dvd unat p"
proof -
  have "fresh_heap start sz h0 h" using assms by unfold_locales
  from fresh_heap.reachable [OF this assms(6,5)] obtain bs where b: "heap_inv (unat start) bs h1" "32 \<le> unat start" by (auto simp: world_inv_def)
  from memalign_inv [OF this assms(7), of n] assms(8,9) obtain bs' c off k where
    g: "p = W (c + off + 24)" "unat alignment dvd c + off + 24" "grants (unat start) bs h1 bs' h2 (c, off, k)"
    by (auto simp: tegrabl_memalign_def)
  have "unat p = c + off + 24" unfolding g(1) by (rule unat_of_nat64) (use grants_nonzero(2,3) [OF g(3)] in simp)
  with g(2) show ?thesis by simp
qed

lemma boot_memalign: "map_option fst (tegrabl_memalign 0x3000 100 boot_heap) = Some 0xA0002000"
  by (simp add: boot_heap_def tegrabl_heap_init_def tegrabl_memalign_def tegrabl_memalign_generic_def aligned_fit.simps is_size_alignment_valid_def
      tegrabl_heap_split_block_def align_gap_def Let_def ROUND_UP_def DIV_CEIL_def MAX64_def split: prod.splits)

theorem memalign_aligned_witness:
  "map_option fst (tegrabl_memalign 0x3000 100 boot_heap) = Some 0xA0002000 \<and> unat (0x3000 :: u64) dvd unat (0xA0002000 :: u64)"
proof -
  define dma where "dma = \<lparr>memcpy_callback = None, memcpy_threshold = 0, memset_callback = None, memset_threshold = 0\<rparr>"
  have ok: "dma_set_ok dma" using no_dma_ok by (simp add: dma_def)
  obtain h2 where h2: "tegrabl_memalign 0x3000 100 boot_heap = Some (0xA0002000, h2)" using boot_memalign by auto
  have "heap_runs dma [] (boot_heap, Map.empty) (boot_heap, Map.empty)" by (rule heap_runs.finished)
  from memalign_aligned [OF _ _ _ boot_started ok this _ h2] h2 show ?thesis by simp
qed

text \<open>
  (C40) A cleared allocation is cleared: every byte of the array that \<open>tegrabl_calloc\<close> returns in a reachable state is
  zero, and the product of its arguments has not wrapped around.
\<close>
theorem calloc_clears:
  assumes "32 \<le> start" "unat start + unat sz \<le> 2 ^ 64" "free_list h0 1 = 0" "tegrabl_heap_init 0 start sz h0 = (TEGRABL_NO_ERROR, h)"
    and "dma_set_ok dma" "heap_runs dma cs (h, Map.empty) (h1, L1)" "tegrabl_calloc dma nmemb n h1 = Some (p, h2)" "p \<noteq> 0" "unat i < unat nmemb * unat n"
  shows "hmem h2 (p + i) = 0 \<and> unat p + unat nmemb * unat n \<le> unat start + unat sz"
proof -
  have f: "fresh_heap start sz h0 h" using assms by unfold_locales
  from fresh_heap.reachable [OF this assms(6,5)] obtain bs where b: "heap_inv (unat start) bs h1" by (auto simp: world_inv_def)
  from calloc_inv [OF this assms(5), of nmemb n] assms(7,8,9) have z: "hmem h2 (p + i) = 0" by auto
  have "heap_exec dma (Calloc nmemb n) (h1, L1) = Some (h2, L1(p \<mapsto> unat nmemb * unat n))" using assms(7,8) by (simp add: got_def)
  then have "heap_runs dma (cs @ [Calloc nmemb n]) (h, Map.empty) (h2, L1(p \<mapsto> unat nmemb * unat n))"
    using heap_runs_snoc [OF assms(6)] by simp
  from fresh_heap.held_regions(2) [OF f this assms(5)] z show ?thesis by simp
qed

theorem calloc_clears_witness:
  "\<exists>h2. tegrabl_calloc \<lparr>memcpy_callback = None, memcpy_threshold = 0, memset_callback = None, memset_threshold = 0\<rparr> 4 25 boot_heap = Some (0xA0000018, h2) \<and>
     hmem h2 (0xA0000018 + 99) = 0 \<and> unat (0xA0000018 :: u64) + unat (4 :: u64) * unat (25 :: u64) \<le> unat (0xA0000000 :: u64) + unat (0x400000 :: u64)"
proof -
  define dma where "dma = \<lparr>memcpy_callback = None, memcpy_threshold = 0, memset_callback = None, memset_threshold = 0\<rparr>"
  have ok: "dma_set_ok dma" using no_dma_ok by (simp add: dma_def)
  obtain h1 where "tegrabl_malloc 100 boot_heap = Some (0xA0000018, h1)" using boot_malloc_at by blast
  moreover have "max_heap_size boot_heap 0 = 0x400000" by (simp add: boot_heap_def tegrabl_heap_init_def Let_def)
  ultimately obtain h2 where h2: "tegrabl_calloc dma 4 25 boot_heap = Some (0xA0000018, h2)" by (simp add: tegrabl_calloc_def)
  have "heap_runs dma [] (boot_heap, Map.empty) (boot_heap, Map.empty)" by (rule heap_runs.finished)
  from calloc_clears [OF _ _ _ boot_started ok this h2, of 99] h2 show ?thesis unfolding dma_def by simp
qed

end
