(* ===== verification/Cboot_Ivc.thy ===== *)
theory Cboot_Ivc
  imports Cboot_Blockio
begin

text \<open>
  Inter-processor channels, \<^verbatim>\<open>common/lib/ipc/tegra-ivc.c\<close>: rings of frames in memory that two processors share, each end
  the owner of some of the counters. The model covers every operation of the file. The lemmas read the counters and
  positions of a channel as the queue of the frames that are under way, and show that a write appends to the queue and
  a read takes from it, also when the 32-bit counters wrap around.
\<close>


section \<open>Channels\<close>

abbreviation (input) IVC_ALIGN :: u64 where "IVC_ALIGN \<equiv> 64"
abbreviation (input) ivc_state_established :: u32 where "ivc_state_established \<equiv> 0"
abbreviation (input) ivc_state_sync :: u32 where "ivc_state_sync \<equiv> 1"
abbreviation (input) ivc_state_ack :: u32 where "ivc_state_ack \<equiv> 2"
abbreviation (input) E2BIG :: int where "E2BIG \<equiv> 7"
abbreviation (input) EAGAIN :: int where "EAGAIN \<equiv> 11"
abbreviation (input) ENOMEM :: int where "ENOMEM \<equiv> 12"
abbreviation (input) EINVAL :: int where "EINVAL \<equiv> 22"
abbreviation (input) ECONNRESET :: int where "ECONNRESET \<equiv> 104"

text \<open>
  A channel in shared memory: the counter and the state that its sender owns, the counter that its receiver owns, and
  the bytes behind the header that hold the frames. The shared memory maps the address of a channel to it.
\<close>

record ivc_channel_header =
  w_count :: u32
  ch_state :: u32
  r_count :: u32
  area :: bytes

type_synonym ivc_mem = "u64 \<Rightarrow> ivc_channel_header"

record ivc =
  rx_channel :: u64
  tx_channel :: u64
  w_pos :: u32
  r_pos :: u32
  nframes :: u32
  frame_size :: u32
  notifies :: nat

definition ivc_channel_empty :: "ivc \<Rightarrow> ivc_channel_header \<Rightarrow> bool" where
  "ivc_channel_empty ivc ch = (if w_count ch - r_count ch > nframes ivc then True else w_count ch = r_count ch)"

definition ivc_channel_full :: "ivc \<Rightarrow> ivc_channel_header \<Rightarrow> bool" where
  "ivc_channel_full ivc ch \<longleftrightarrow> w_count ch - r_count ch \<ge> nframes ivc"

definition ivc_channel_avail_count :: "ivc_channel_header \<Rightarrow> u32" where
  "ivc_channel_avail_count ch = w_count ch - r_count ch"

definition ivc_advance_tx :: "ivc \<Rightarrow> ivc_mem \<Rightarrow> ivc \<times> ivc_mem" where
  "ivc_advance_tx ivc sh =
     (ivc\<lparr>w_pos := if w_pos ivc = nframes ivc - 1 then 0 else w_pos ivc + 1\<rparr>,
      sh(tx_channel ivc := (sh (tx_channel ivc))\<lparr>w_count := w_count (sh (tx_channel ivc)) + 1\<rparr>))"

definition ivc_advance_rx :: "ivc \<Rightarrow> ivc_mem \<Rightarrow> ivc \<times> ivc_mem" where
  "ivc_advance_rx ivc sh =
     (ivc\<lparr>r_pos := if r_pos ivc = nframes ivc - 1 then 0 else r_pos ivc + 1\<rparr>,
      sh(rx_channel ivc := (sh (rx_channel ivc))\<lparr>r_count := r_count (sh (rx_channel ivc)) + 1\<rparr>))"

text \<open>
  The cache operations between the two looks at a counter are empty functions here (weak symbols that nothing
  overrides), and the barriers order accesses that the model orders anyway.
\<close>

definition ivc_check_read :: "ivc \<Rightarrow> ivc_mem \<Rightarrow> int" where
  "ivc_check_read ivc sh =
     (if ch_state (sh (tx_channel ivc)) \<noteq> ivc_state_established then - ECONNRESET
      else if \<not> ivc_channel_empty ivc (sh (rx_channel ivc)) then 0
      else if ivc_channel_empty ivc (sh (rx_channel ivc)) then - ENOMEM else 0)"

definition ivc_check_write :: "ivc \<Rightarrow> ivc_mem \<Rightarrow> int" where
  "ivc_check_write ivc sh =
     (if ch_state (sh (tx_channel ivc)) \<noteq> ivc_state_established then - ECONNRESET
      else if \<not> ivc_channel_full ivc (sh (tx_channel ivc)) then 0
      else if ivc_channel_full ivc (sh (tx_channel ivc)) then - ENOMEM else 0)"

definition tegra_ivc_can_read :: "ivc \<Rightarrow> ivc_mem \<Rightarrow> bool" where
  "tegra_ivc_can_read ivc sh \<longleftrightarrow> ivc_check_read ivc sh = 0"

definition tegra_ivc_can_write :: "ivc \<Rightarrow> ivc_mem \<Rightarrow> bool" where
  "tegra_ivc_can_write ivc sh \<longleftrightarrow> ivc_check_write ivc sh = 0"

definition tegra_ivc_tx_empty :: "ivc \<Rightarrow> ivc_mem \<Rightarrow> bool" where
  "tegra_ivc_tx_empty ivc sh = ivc_channel_empty ivc (sh (tx_channel ivc))"

text \<open>A frame is named by its offset behind the header; copies that leave the frame area are \<open>None\<close>.\<close>

definition ivc_frame_pointer :: "ivc \<Rightarrow> u32 \<Rightarrow> nat" where
  "ivc_frame_pointer ivc frame = unat (frame_size ivc * frame)"

definition area_load :: "ivc_channel_header \<Rightarrow> nat \<Rightarrow> nat \<Rightarrow> bytes option" where
  "area_load ch p n = (if p + n \<le> length (area ch) then Some (take n (drop p (area ch))) else None)"

definition area_store :: "nat \<Rightarrow> bytes \<Rightarrow> ivc_channel_header \<Rightarrow> ivc_channel_header option" where
  "area_store p data ch = (if p + length data \<le> length (area ch) then Some (ch\<lparr>area := patch_at p data (area ch)\<rparr>) else None)"

definition ivc_notify :: "bool \<Rightarrow> ivc \<Rightarrow> ivc" where
  "ivc_notify c ivc = (if c then ivc\<lparr>notifies := notifies ivc + 1\<rparr> else ivc)"

text \<open>The conversion of a \<^verbatim>\<open>size_t\<close> to the \<^verbatim>\<open>int\<close> that is returned.\<close>

definition int_of_size :: "u64 \<Rightarrow> int" where
  "int_of_size n = sint (ucast n :: u32)"


section \<open>Receiving\<close>

definition rx_done :: "ivc \<Rightarrow> ivc_mem \<Rightarrow> ivc \<times> ivc_mem" where
  "rx_done ivc sh =
     (case ivc_advance_rx ivc sh of (ivc1, sh1) \<Rightarrow>
        (ivc_notify (ivc_channel_avail_count (sh1 (rx_channel ivc1)) = nframes ivc1 - 1) ivc1, sh1))"

definition tegra_ivc_read :: "ivc \<Rightarrow> u64 \<Rightarrow> ivc_mem \<Rightarrow> (int \<times> bytes \<times> ivc \<times> ivc_mem) option" where
  "tegra_ivc_read ivc max_read sh =
     (if max_read > ucast (frame_size ivc) then Some (- E2BIG, [], ivc, sh)
      else let result = ivc_check_read ivc sh
           in if result \<noteq> 0 then Some (result, [], ivc, sh)
              else case area_load (sh (rx_channel ivc)) (ivc_frame_pointer ivc (r_pos ivc)) (unat max_read) of
                     None \<Rightarrow> None
                   | Some buf \<Rightarrow> (case rx_done ivc sh of (ivc1, sh1) \<Rightarrow> Some (int_of_size max_read, buf, ivc1, sh1)))"

definition tegra_ivc_read_peek :: "ivc \<Rightarrow> u64 \<Rightarrow> u64 \<Rightarrow> ivc_mem \<Rightarrow> (int \<times> bytes) option" where
  "tegra_ivc_read_peek ivc off count sh =
     (if off > ucast (frame_size ivc) \<or> off + count > ucast (frame_size ivc) then Some (- E2BIG, [])
      else let result = ivc_check_read ivc sh
           in if result \<noteq> 0 then Some (result, [])
              else map_option (Pair (int_of_size count))
                     (area_load (sh (rx_channel ivc)) (ivc_frame_pointer ivc (r_pos ivc) + unat off) (unat count)))"

definition tegra_ivc_read_get_next_frame :: "ivc \<Rightarrow> ivc_mem \<Rightarrow> nat option" where
  "tegra_ivc_read_get_next_frame ivc sh = (if ivc_check_read ivc sh \<noteq> 0 then None else Some (ivc_frame_pointer ivc (r_pos ivc)))"

definition tegra_ivc_read_advance :: "ivc \<Rightarrow> ivc_mem \<Rightarrow> int \<times> ivc \<times> ivc_mem" where
  "tegra_ivc_read_advance ivc sh =
     (let result = ivc_check_read ivc sh in if result \<noteq> 0 then (result, ivc, sh) else (0, rx_done ivc sh))"


section \<open>Sending\<close>

definition tx_done :: "ivc \<Rightarrow> ivc_mem \<Rightarrow> ivc \<times> ivc_mem" where
  "tx_done ivc sh =
     (case ivc_advance_tx ivc sh of (ivc1, sh1) \<Rightarrow>
        (ivc_notify (ivc_channel_avail_count (sh1 (tx_channel ivc1)) = 1) ivc1, sh1))"

definition tegra_ivc_write :: "ivc \<Rightarrow> bytes \<Rightarrow> u64 \<Rightarrow> ivc_mem \<Rightarrow> (int \<times> ivc \<times> ivc_mem) option" where
  "tegra_ivc_write ivc buf sz sh =
     (if sz > ucast (frame_size ivc) then Some (- E2BIG, ivc, sh)
      else let result = ivc_check_write ivc sh
           in if result \<noteq> 0 then Some (result, ivc, sh)
              else if length buf < unat sz then None
              else let p = ivc_frame_pointer ivc (w_pos ivc); T = tx_channel ivc
                   in case area_store p (take (unat sz) buf) (sh T) of
                        None \<Rightarrow> None
                      | Some ch1 \<Rightarrow>
                          (case area_store (p + unat sz) (replicate (unat (ucast (frame_size ivc) - sz)) 0) ch1 of
                             None \<Rightarrow> None
                           | Some ch2 \<Rightarrow> (case tx_done ivc (sh(T := ch2)) of (ivc1, sh1) \<Rightarrow> Some (int_of_size sz, ivc1, sh1))))"

definition tegra_ivc_write_poke :: "ivc \<Rightarrow> bytes \<Rightarrow> u64 \<Rightarrow> u64 \<Rightarrow> ivc_mem \<Rightarrow> (int \<times> ivc_mem) option" where
  "tegra_ivc_write_poke ivc buf off count sh =
     (if off > ucast (frame_size ivc) \<or> off + count > ucast (frame_size ivc) then Some (- E2BIG, sh)
      else let result = ivc_check_write ivc sh
           in if result \<noteq> 0 then Some (result, sh)
              else if length buf < unat count then None
              else case area_store (ivc_frame_pointer ivc (w_pos ivc) + unat off) (take (unat count) buf) (sh (tx_channel ivc)) of
                     None \<Rightarrow> None
                   | Some ch1 \<Rightarrow> Some (int_of_size count, sh(tx_channel ivc := ch1)))"

definition tegra_ivc_write_get_next_frame :: "ivc \<Rightarrow> ivc_mem \<Rightarrow> nat option" where
  "tegra_ivc_write_get_next_frame ivc sh = (if ivc_check_write ivc sh \<noteq> 0 then None else Some (ivc_frame_pointer ivc (w_pos ivc)))"

definition tegra_ivc_write_advance :: "ivc \<Rightarrow> ivc_mem \<Rightarrow> int \<times> ivc \<times> ivc_mem" where
  "tegra_ivc_write_advance ivc sh =
     (let result = ivc_check_write ivc sh in if result \<noteq> 0 then (result, ivc, sh) else (0, tx_done ivc sh))"


section \<open>Reset\<close>

definition set_tx_state :: "u32 \<Rightarrow> ivc \<Rightarrow> ivc_mem \<Rightarrow> ivc_mem" where
  "set_tx_state st ivc sh = sh(tx_channel ivc := (sh (tx_channel ivc))\<lparr>ch_state := st\<rparr>)"

definition tegra_ivc_channel_reset :: "ivc \<Rightarrow> ivc_mem \<Rightarrow> ivc \<times> ivc_mem" where
  "tegra_ivc_channel_reset ivc sh = (ivc_notify True ivc, set_tx_state ivc_state_sync ivc sh)"

text \<open>Both branches that reset the counters do it in the same way.\<close>

definition clear_counters :: "ivc \<Rightarrow> ivc_mem \<Rightarrow> ivc \<times> ivc_mem" where
  "clear_counters ivc sh =
     (let sh1 = sh(tx_channel ivc := (sh (tx_channel ivc))\<lparr>w_count := 0\<rparr>);
          sh2 = sh1(rx_channel ivc := (sh1 (rx_channel ivc))\<lparr>r_count := 0\<rparr>)
      in (ivc\<lparr>w_pos := 0, r_pos := 0\<rparr>, sh2))"

definition tegra_ivc_channel_notified :: "ivc \<Rightarrow> ivc_mem \<Rightarrow> int \<times> ivc \<times> ivc_mem" where
  "tegra_ivc_channel_notified ivc sh =
     (let peer_state = ch_state (sh (rx_channel ivc));
          (ivc1, sh1) =
            (if peer_state = ivc_state_sync then
               (case clear_counters ivc sh of (i, s) \<Rightarrow> (ivc_notify True i, set_tx_state ivc_state_ack i s))
             else if ch_state (sh (tx_channel ivc)) = ivc_state_sync \<and> peer_state = ivc_state_ack then
               (case clear_counters ivc sh of (i, s) \<Rightarrow> (ivc_notify True i, set_tx_state ivc_state_established i s))
             else if ch_state (sh (tx_channel ivc)) = ivc_state_ack then
               (ivc_notify True ivc, set_tx_state ivc_state_established ivc sh)
             else (ivc, sh))
      in (if ch_state (sh1 (tx_channel ivc1)) = ivc_state_established then 0 else - EAGAIN, ivc1, sh1))"

definition tegra_ivc_channel_sync :: "ivc option \<Rightarrow> ivc_mem \<Rightarrow> int \<times> ivc option" where
  "tegra_ivc_channel_sync ivc sh =
     (case ivc of None \<Rightarrow> (- EINVAL, ivc)
      | Some i \<Rightarrow> if nframes i = 0 then (- EINVAL, ivc)
                  else (0, Some (i\<lparr>w_pos := w_count (sh (tx_channel i)) mod nframes i, r_pos := r_count (sh (rx_channel i)) mod nframes i\<rparr>)))"


section \<open>Setup\<close>

definition tegra_ivc_align :: "u64 \<Rightarrow> u64" where
  "tegra_ivc_align sz = (sz + (IVC_ALIGN - 1)) AND NOT (IVC_ALIGN - 1)"

definition tegra_ivc_total_queue_size :: "u32 \<Rightarrow> u32" where
  "tegra_ivc_total_queue_size queue_size = (if queue_size AND 63 \<noteq> 0 then 0 else queue_size + 128)"

definition check_ivc_params :: "u64 \<Rightarrow> u64 \<Rightarrow> u32 \<Rightarrow> u32 \<Rightarrow> int" where
  "check_ivc_params queue_base1 queue_base2 n fsize =
     (if (ucast n :: u64) * ucast fsize \<ge> 0x100000000 then - EINVAL
      else if queue_base1 AND (IVC_ALIGN - 1) \<noteq> 0 then - EINVAL
      else if queue_base2 AND (IVC_ALIGN - 1) \<noteq> 0 then - EINVAL
      else if fsize AND 63 \<noteq> 0 then - EINVAL
      else if queue_base1 < queue_base2
           then if queue_base1 + ucast (fsize * n) > queue_base2 then - EINVAL else 0
           else if queue_base2 + ucast (fsize * n) > queue_base1 then - EINVAL else 0)"

definition tegra_ivc_init :: "ivc \<Rightarrow> u64 \<Rightarrow> u64 \<Rightarrow> u32 \<Rightarrow> u32 \<Rightarrow> int \<times> ivc" where
  "tegra_ivc_init ivc rx_base tx_base n fsize =
     (let result = check_ivc_params rx_base tx_base n fsize
      in if result \<noteq> 0 then (result, ivc)
         else if fsize > push_bit 31 1 then (- E2BIG, ivc)
         else (0, ivc\<lparr>rx_channel := rx_base, tx_channel := tx_base, frame_size := fsize, nframes := n, w_pos := 0, r_pos := 0\<rparr>))"


section \<open>The frames in a channel\<close>

definition frame_of :: "nat \<Rightarrow> nat \<Rightarrow> ivc_channel_header \<Rightarrow> bytes" where
  "frame_of fs i ch = take fs (drop (i * fs) (area ch))"

text \<open>
  The abstract channel: \<open>holds n fs ch wp rp q\<close> says that the frames \<open>q\<close> have been sent and not received, in that
  order, with the sender at position \<open>wp\<close> and the receiver at \<open>rp\<close>. The counters may have wrapped around.
\<close>

definition holds :: "nat \<Rightarrow> nat \<Rightarrow> ivc_channel_header \<Rightarrow> u32 \<Rightarrow> u32 \<Rightarrow> bytes list \<Rightarrow> bool" where
  "holds n fs ch wp rp q \<longleftrightarrow> unat (w_count ch - r_count ch) = length q \<and> length q \<le> n \<and> unat rp < n \<and>
     unat wp = (unat rp + length q) mod n \<and> (\<forall>i < length q. frame_of fs ((unat rp + i) mod n) ch = q ! i)"

text \<open>What \<open>tegra_ivc_init\<close> guarantees of the geometry of a channel.\<close>

locale ivc_ring =
  fixes n fs :: u32
  assumes n_pos: "0 < unat n" and fits: "unat n * unat fs < 2 ^ 32"

definition shaped :: "u32 \<Rightarrow> u32 \<Rightarrow> ivc \<Rightarrow> ivc_mem \<Rightarrow> bool" where
  "shaped n fs ivc sh \<longleftrightarrow> nframes ivc = n \<and> frame_size ivc = fs \<and> rx_channel ivc \<noteq> tx_channel ivc \<and>
     length (area (sh (rx_channel ivc))) = unat n * unat fs \<and> length (area (sh (tx_channel ivc))) = unat n * unat fs"

definition padded :: "u32 \<Rightarrow> bytes \<Rightarrow> u64 \<Rightarrow> bytes" where
  "padded fs buf sz = take (unat sz) buf @ replicate (unat fs - unat sz) 0"

lemma succ_mod:
  fixes p n :: u32
  assumes "unat p < unat n"
  shows "unat (if p = n - 1 then 0 else p + 1) = (unat p + 1) mod unat n"
proof -
  have "1 \<le> n" using assms by (simp add: word_le_nat_alt)
  then have "unat (n - 1) = unat n - 1" by (simp add: unat_sub)
  then have e: "p = n - 1 \<longleftrightarrow> unat p = unat n - 1" by (simp add: word_unat_eq_iff)
  show ?thesis
  proof (cases "p = n - 1")
    case True
    then show ?thesis using e assms by simp
  next
    case False
    then have "unat p + 1 < unat n" using e assms by simp
    moreover from this have "unat (p + 1) = unat p + 1" using unsigned_less [of n, where 'a = nat] by (simp add: unat_plus_if_size word_size)
    ultimately show ?thesis using False by simp
  qed
qed

lemma patch_at_here: "x + length d \<le> length xs \<Longrightarrow> take (length d) (drop x (patch_at x d xs)) = d"
  by (simp add: patch_at_def)

lemma unat_ucast_fs: "unat (ucast (fs :: u32) :: u64) = unat fs"
  by (simp add: unsigned_ucast_eq take_bit_nat_eq_self_iff) (use unsigned_less [of fs, where 'a = nat] in simp)

context ivc_ring
begin

lemma frame_fits: "i < unat n \<Longrightarrow> i * unat fs + unat fs \<le> unat n * unat fs"
  using mult_le_mono1 [of "i + 1" "unat n" "unat fs"] by simp

lemma pointer:
  assumes "shaped n fs ivc sh" "unat p < unat n"
  shows "ivc_frame_pointer ivc p = unat p * unat fs"
proof -
  have "unat p * unat fs \<le> unat n * unat fs" using assms(2) by (intro mult_le_mono1) simp
  from le_less_trans [OF this fits] have "unat fs * unat p < 2 ^ 32" by (simp only: mult.commute)
  then show ?thesis using assms(1) by (simp add: ivc_frame_pointer_def shaped_def unat_word_ariths mult.commute)
qed

lemma full_iff: "shaped n fs ivc sh \<Longrightarrow> holds (unat n) k ch wp rp q \<Longrightarrow> ivc_channel_full ivc ch \<longleftrightarrow> length q = unat n"
  by (auto simp: ivc_channel_full_def holds_def shaped_def word_le_nat_alt)

lemma empty_iff: "shaped n fs ivc sh \<Longrightarrow> holds (unat n) k ch wp rp q \<Longrightarrow> ivc_channel_empty ivc ch \<longleftrightarrow> q = []"
  by (auto simp: ivc_channel_empty_def holds_def shaped_def word_less_nat_alt unat_eq_zero)

lemma wp_bound: "holds (unat n) k ch wp rp q \<Longrightarrow> unat wp < unat n"
  using n_pos by (simp add: holds_def)

lemma word_succ_diff:
  fixes a b :: u32
  assumes "unat (a - b) + 1 < 2 ^ 32"
  shows "unat (a + 1 - b) = unat (a - b) + 1"
proof -
  have "a + 1 - b = (a - b) + 1" by simp
  then show ?thesis using assms by (simp only: unat_plus_if_size word_size) simp
qed

lemma holds_put:
  assumes h: "holds (unat n) (unat fs) ch wp rp q" "length (area ch) = unat n * unat fs" "length q < unat n" and f: "length f = unat fs"
    and c: "ch' = ch\<lparr>area := patch_at (unat wp * unat fs) f (area ch), w_count := w_count ch + 1\<rparr>"
  shows "holds (unat n) (unat fs) ch' (if wp = n - 1 then 0 else wp + 1) rp (q @ [f])"
proof -
  have wp: "unat wp < unat n" "unat wp = (unat rp + length q) mod unat n" using h(1) n_pos by (auto simp: holds_def)
  note room = frame_fits [OF wp(1)]
  have "unat (w_count ch - r_count ch) = length q" using h(1) by (simp add: holds_def)
  then have "unat (w_count ch' - r_count ch') = length (q @ [f])"
    using word_succ_diff [of "w_count ch" "r_count ch"] h(3) unsigned_less [of n, where 'a = nat] by (simp add: c)
  moreover have "frame_of (unat fs) ((unat rp + i) mod unat n) ch' = (q @ [f]) ! i" if "i < length (q @ [f])" for i
  proof (cases "i = length q")
    case True
    then have "(unat rp + i) mod unat n = unat wp" using wp by simp
    then show ?thesis using True room h(2) f patch_at_here [of "unat wp * unat fs" f "area ch"] by (simp add: frame_of_def c)
  next
    case False
    with that have i: "i < length q" by simp
    define j where "j = (unat rp + i) mod unat n"
    have jn: "j < unat n" using n_pos by (simp add: j_def)
    have "j \<noteq> unat wp"
    proof
      assume "j = unat wp"
      then have "(unat rp + i) mod unat n = (unat rp + length q) mod unat n" using wp(2) by (simp add: j_def)
      then have "unat n dvd (unat rp + length q) - (unat rp + i)" using mod_eq_dvd_iff_nat [of "unat rp + i" "unat rp + length q" "unat n"] i by simp
      then have "unat n dvd length q - i" by simp
      then show False using i h(3) by (auto dest: dvd_imp_le)
    qed
    then have "j * unat fs + unat fs \<le> unat wp * unat fs \<or> unat wp * unat fs + length f \<le> j * unat fs"
      using mult_le_mono1 [of "j + 1" "unat wp" "unat fs"] mult_le_mono1 [of "unat wp + 1" j "unat fs"] f by (cases "j < unat wp") auto
    then have "frame_of (unat fs) j ch' = frame_of (unat fs) j ch"
      using patch_at_elsewhere [of "unat wp * unat fs" f "area ch" "j * unat fs" "unat fs"] room h(2) f by (simp add: frame_of_def c)
    then show ?thesis using h(1) i by (simp add: holds_def j_def nth_append)
  qed
  moreover have "unat (if wp = n - 1 then 0 else wp + 1) = (unat rp + length (q @ [f])) mod unat n"
    using succ_mod [OF wp(1)] wp(2) by (simp add: mod_simps)
  ultimately show ?thesis using h by (simp add: holds_def)
qed

lemma holds_get:
  assumes h: "holds (unat n) (unat fs) ch wp rp (f # q)" and c: "ch' = ch\<lparr>r_count := r_count ch + 1\<rparr>"
  shows "holds (unat n) (unat fs) ch' wp (if rp = n - 1 then 0 else rp + 1) q"
proof -
  have rp: "unat rp < unat n" "unat wp = (unat rp + Suc (length q)) mod unat n" "unat (w_count ch - r_count ch) = Suc (length q)" using h by (auto simp: holds_def)
  define rp' where "rp' = (if rp = n - 1 then 0 else rp + 1)"
  have rp': "unat rp' = (unat rp + 1) mod unat n" unfolding rp'_def by (rule succ_mod [OF rp(1)])
  have "w_count ch' - r_count ch' = (w_count ch - r_count ch) - 1" by (simp add: c)
  moreover have "1 \<le> w_count ch - r_count ch" using rp(3) by (simp add: word_le_nat_alt)
  ultimately have "unat (w_count ch' - r_count ch') = length q" using rp(3) by (simp add: unat_sub)
  moreover have "frame_of (unat fs) ((unat rp' + i) mod unat n) ch' = q ! i" if "i < length q" for i
  proof -
    have "(unat rp' + i) mod unat n = (unat rp + Suc i) mod unat n" unfolding rp' by (simp add: mod_simps)
    then show ?thesis using h that by (auto simp: holds_def frame_of_def c dest: spec [of _ "Suc i"])
  qed
  moreover have "unat rp' < unat n" "unat wp = (unat rp' + length q) mod unat n" using rp' n_pos rp(2) by (simp_all add: mod_simps)
  ultimately show ?thesis using h unfolding rp'_def [symmetric] by (simp add: holds_def)
qed

end


lemma ivc_notify_simps [simp]:
  "rx_channel (ivc_notify c ivc) = rx_channel ivc" "tx_channel (ivc_notify c ivc) = tx_channel ivc" "w_pos (ivc_notify c ivc) = w_pos ivc"
  "r_pos (ivc_notify c ivc) = r_pos ivc" "nframes (ivc_notify c ivc) = nframes ivc" "frame_size (ivc_notify c ivc) = frame_size ivc"
  by (simp_all add: ivc_notify_def)

context ivc_ring
begin

lemma write_puts:
  assumes s: "shaped n fs ivc sh" and h: "holds (unat n) (unat fs) (sh (tx_channel ivc)) (w_pos ivc) rp q"
    and e: "ch_state (sh (tx_channel ivc)) = ivc_state_established" and b: "sz \<le> ucast fs" "unat sz \<le> length buf"
  shows "if length q < unat n
     then \<exists>c. tegra_ivc_write ivc buf sz sh = Some (int_of_size sz,
        ivc_notify c (ivc\<lparr>w_pos := if w_pos ivc = n - 1 then 0 else w_pos ivc + 1\<rparr>),
        sh(tx_channel ivc := (sh (tx_channel ivc))\<lparr>area := patch_at (unat (w_pos ivc) * unat fs) (padded fs buf sz) (area (sh (tx_channel ivc))),
           w_count := w_count (sh (tx_channel ivc)) + 1\<rparr>))
     else tegra_ivc_write ivc buf sz sh = Some (- ENOMEM, ivc, sh)"
proof (cases "length q < unat n")
  case True
  let ?ch = "sh (tx_channel ivc)" and ?p = "unat (w_pos ivc) * unat fs"
  have g: "nframes ivc = n" "frame_size ivc = fs" "length (area ?ch) = unat n * unat fs" using s by (auto simp: shaped_def)
  have wp: "unat (w_pos ivc) < unat n" by (rule wp_bound [OF h])
  note room = frame_fits [OF wp]
  have sz: "unat sz \<le> unat fs" using b(1) by (simp add: word_le_nat_alt unat_ucast_fs)
  then have rest: "unat (ucast fs - sz :: u64) = unat fs - unat sz" using b(1) by (simp add: unat_sub unat_ucast_fs)
  have "\<not> ivc_channel_full ivc ?ch" using full_iff [OF s h] True by simp
  then have c: "ivc_check_write ivc sh = 0" using e by (simp add: ivc_check_write_def)
  have st1: "area_store ?p (take (unat sz) buf) ?ch = Some (?ch\<lparr>area := patch_at ?p (take (unat sz) buf) (area ?ch)\<rparr>)"
    using room sz g b(2) by (simp add: area_store_def)
  have st2: "area_store (?p + unat sz) (replicate (unat fs - unat sz) 0) (?ch\<lparr>area := patch_at ?p (take (unat sz) buf) (area ?ch)\<rparr>)
      = Some (?ch\<lparr>area := patch_at ?p (padded fs buf sz) (area ?ch)\<rparr>)"
    using room sz g b(2) patch_at_append [of ?p "take (unat sz) buf" "replicate (unat fs - unat sz) 0" "area ?ch"]
    by (simp add: area_store_def length_patch_at padded_def)
  show ?thesis using True g b c st1 st2 rest pointer [OF s wp]
    by (auto simp: tegra_ivc_write_def tx_done_def ivc_advance_tx_def Let_def not_less)
next
  case False
  then have "ivc_channel_full ivc (sh (tx_channel ivc))" using full_iff [OF s h] h by (simp add: holds_def)
  then show ?thesis using False e b(1) s by (auto simp: tegra_ivc_write_def ivc_check_write_def shaped_def)
qed

lemma read_gets:
  assumes s: "shaped n fs ivc sh" and h: "holds (unat n) (unat fs) (sh (rx_channel ivc)) wp (r_pos ivc) q"
    and e: "ch_state (sh (tx_channel ivc)) = ivc_state_established" and b: "m \<le> ucast fs"
  shows "if q \<noteq> []
     then \<exists>c. tegra_ivc_read ivc m sh = Some (int_of_size m, take (unat m) (hd q),
        ivc_notify c (ivc\<lparr>r_pos := if r_pos ivc = n - 1 then 0 else r_pos ivc + 1\<rparr>),
        sh(rx_channel ivc := (sh (rx_channel ivc))\<lparr>r_count := r_count (sh (rx_channel ivc)) + 1\<rparr>))
     else tegra_ivc_read ivc m sh = Some (- ENOMEM, [], ivc, sh)"
proof (cases "q = []")
  case False
  let ?ch = "sh (rx_channel ivc)" and ?p = "unat (r_pos ivc) * unat fs"
  have g: "nframes ivc = n" "frame_size ivc = fs" "length (area ?ch) = unat n * unat fs" using s by (auto simp: shaped_def)
  have rp: "unat (r_pos ivc) < unat n" using h by (simp add: holds_def)
  note room = frame_fits [OF rp]
  have m: "unat m \<le> unat fs" using b by (simp add: word_le_nat_alt unat_ucast_fs)
  have "\<not> ivc_channel_empty ivc ?ch" using empty_iff [OF s h] False by simp
  then have c: "ivc_check_read ivc sh = 0" using e by (simp add: ivc_check_read_def)
  have "frame_of (unat fs) (unat (r_pos ivc)) ?ch = hd q" using h False rp by (cases q) (auto simp: holds_def dest: spec [of _ 0])
  then have "area_load ?ch ?p (unat m) = Some (take (unat m) (hd q))" using room g m
    by (simp add: area_load_def frame_of_def flip: \<open>frame_of (unat fs) (unat (r_pos ivc)) ?ch = hd q\<close>)
  then show ?thesis using False g b c pointer [OF s rp]
    by (auto simp: tegra_ivc_read_def rx_done_def ivc_advance_rx_def Let_def not_less)
next
  case True
  then have "ivc_channel_empty ivc (sh (rx_channel ivc))" using empty_iff [OF s h] by simp
  then show ?thesis using True e b s by (auto simp: tegra_ivc_read_def ivc_check_read_def shaped_def)
qed

end

end
