(* ===== verification/Cboot_Ivclink.thy ===== *)
theory Cboot_Ivclink
  imports Cboot_Ivc "HOL-Library.Sublist"
begin

text \<open>
  Two ends that share a pair of channels and send, receive, reset and handle notifications in any order: an invariant of
  all reachable states, that data arrives in order, that no call leaves the frames, and that the handshake of a reset
  completes.
\<close>


section \<open>Two ends of a link\<close>

text \<open>
  Two processors, \<^term>\<open>True\<close> and \<^term>\<open>False\<close>, each the sender of one channel and the receiver of the other. The logs
  are not part of the program: the frames an end has sent and the data it has received since it last cleared its counters.
\<close>

record ivc_link =
  ends :: "bool \<Rightarrow> ivc"
  shm :: ivc_mem
  sent :: "bool \<Rightarrow> bytes list"
  rcvd :: "bool \<Rightarrow> bytes list"

datatype ivc_call = Send bytes u64 | Receive u64 | Reset | Notified

definition own_state :: "ivc_link \<Rightarrow> bool \<Rightarrow> u32" where
  "own_state lk s = ch_state (shm lk (tx_channel (ends lk s)))"

definition clears :: "u32 \<Rightarrow> u32 \<Rightarrow> bool" where
  "clears own peer \<longleftrightarrow> peer = ivc_state_sync \<or> own = ivc_state_sync \<and> peer = ivc_state_ack"

fun link_call :: "bool \<Rightarrow> ivc_call \<Rightarrow> ivc_link \<Rightarrow> ivc_link option" where
  "link_call s (Send buf sz) lk =
     (case tegra_ivc_write (ends lk s) buf sz (shm lk) of None \<Rightarrow> None
      | Some (r, i, sh) \<Rightarrow>
          Some (lk\<lparr>ends := (ends lk)(s := i), shm := sh,
                   sent := if r \<ge> 0 then (sent lk)(s := sent lk s @ [padded (frame_size i) buf sz]) else sent lk\<rparr>))"
| "link_call s (Receive m) lk =
     (case tegra_ivc_read (ends lk s) m (shm lk) of None \<Rightarrow> None
      | Some (r, buf, i, sh) \<Rightarrow>
          Some (lk\<lparr>ends := (ends lk)(s := i), shm := sh, rcvd := if r \<ge> 0 then (rcvd lk)(s := rcvd lk s @ [buf]) else rcvd lk\<rparr>))"
| "link_call s Reset lk =
     (case tegra_ivc_channel_reset (ends lk s) (shm lk) of (i, sh) \<Rightarrow> Some (lk\<lparr>ends := (ends lk)(s := i), shm := sh\<rparr>))"
| "link_call s Notified lk =
     (case tegra_ivc_channel_notified (ends lk s) (shm lk) of (r, i, sh) \<Rightarrow>
        Some (lk\<lparr>ends := (ends lk)(s := i), shm := sh,
                 sent := if clears (own_state lk s) (own_state lk (\<not> s)) then (sent lk)(s := []) else sent lk,
                 rcvd := if clears (own_state lk s) (own_state lk (\<not> s)) then (rcvd lk)(s := []) else rcvd lk\<rparr>))"

fun call_ok :: "ivc_call \<Rightarrow> bool" where
  "call_ok (Send buf sz) \<longleftrightarrow> unat sz \<le> length buf" | "call_ok _ \<longleftrightarrow> True"

inductive link_runs :: "(bool \<times> ivc_call) list \<Rightarrow> ivc_link \<Rightarrow> ivc_link \<Rightarrow> bool" where
  idle: "link_runs [] lk lk"
| step: "call_ok c \<Longrightarrow> link_call s c lk = Some lk1 \<Longrightarrow> link_runs cs lk1 lk2 \<Longrightarrow> link_runs ((s, c) # cs) lk lk2"

inductive_simps link_runs_Nil [simp]: "link_runs [] lk lk'"
inductive_simps link_runs_Cons: "link_runs ((s, c) # cs) lk lk'"

lemma link_runs_append: "link_runs (xs @ ys) lk lk' \<longleftrightarrow> (\<exists>m. link_runs xs lk m \<and> link_runs ys m lk')"
proof (induction xs arbitrary: lk)
  case (Cons x xs)
  obtain s c where "x = (s, c)" by fastforce
  with Cons show ?case by (auto simp: link_runs_Cons)
qed simp

definition wired :: "u32 \<Rightarrow> u32 \<Rightarrow> ivc_link \<Rightarrow> bool" where
  "wired n fs lk \<longleftrightarrow> (\<forall>s. shaped n fs (ends lk s) (shm lk) \<and> rx_channel (ends lk s) = tx_channel (ends lk (\<not> s)))"

definition flows :: "u32 \<Rightarrow> u32 \<Rightarrow> ivc_link \<Rightarrow> bool \<Rightarrow> bool" where
  "flows n fs lk s \<longleftrightarrow> (\<exists>d q. holds (unat n) (unat fs) (shm lk (tx_channel (ends lk s))) (w_pos (ends lk s)) (r_pos (ends lk (\<not> s))) q \<and>
     sent lk s = d @ q \<and> list_all2 prefix (rcvd lk (\<not> s)) d)"

definition pristine :: "ivc_link \<Rightarrow> bool \<Rightarrow> bool" where
  "pristine lk s \<longleftrightarrow> w_count (shm lk (tx_channel (ends lk s))) = 0 \<and> r_count (shm lk (rx_channel (ends lk s))) = 0 \<and>
     w_pos (ends lk s) = 0 \<and> r_pos (ends lk s) = 0 \<and> sent lk s = [] \<and> rcvd lk s = []"

text \<open>
  While a reset is under way (an end is in the sync state and the other one has seen it) nothing is known of the
  counters; otherwise both channels flow.
\<close>

definition resetting :: "ivc_link \<Rightarrow> bool" where
  "resetting lk \<longleftrightarrow> (\<exists>s. own_state lk s = ivc_state_sync \<and> own_state lk (\<not> s) \<noteq> ivc_state_established)"

definition link_inv :: "u32 \<Rightarrow> u32 \<Rightarrow> ivc_link \<Rightarrow> bool" where
  "link_inv n fs lk \<longleftrightarrow> wired n fs lk \<and> (\<forall>s. own_state lk s \<in> {0, 1, 2}) \<and> (\<forall>s. own_state lk s = ivc_state_ack \<longrightarrow> pristine lk s) \<and>
     (\<not> resetting lk \<longrightarrow> (\<forall>s. flows n fs lk s))"

lemma all_sides: "(\<forall>s :: bool. P s) \<longleftrightarrow> P t \<and> P (\<not> t)"
  by (cases t) (auto simp: all_bool_eq)

lemma ex_sides: "(\<exists>s :: bool. P s) \<longleftrightarrow> P t \<or> P (\<not> t)"
  by (cases t) (auto simp: ex_bool_eq)

lemma not_resetting_est: "own_state lk s = ivc_state_established \<Longrightarrow> \<not> resetting lk"
  unfolding resetting_def ex_sides [of _ s] by simp

lemma pristine_flows:
  assumes "pristine lk s" "pristine lk (\<not> s)" "wired n fs lk" "0 < unat n"
  shows "flows n fs lk s"
proof -
  have "rx_channel (ends lk (\<not> s)) = tx_channel (ends lk s)" using assms(3) by (auto simp: wired_def)
  then show ?thesis using assms unfolding flows_def pristine_def by (intro exI [of _ "[]"]) (simp add: holds_def)
qed


text \<open>The sizes that the functions return fit an \<^verbatim>\<open>int\<close>.\<close>

locale ivc_frames = ivc_ring +
  assumes small: "unat fs < 2 ^ 31"

lemma int_of_size_val:
  assumes "unat m < 2 ^ 31"
  shows "int_of_size m = int (unat m)"
proof -
  have "unat (ucast m :: u32) = unat m" using assms by (simp add: unat_ucast_u32)
  then have u: "uint (ucast m :: u32) = int (unat m)" by (metis uint_nat)
  have "int (unat m) < int (2 ^ 31)" using assms by (simp only: of_nat_less_iff)
  then have "int (unat m) < 2 ^ 31" by (simp only: of_nat_power of_nat_numeral)
  moreover have "- (2 ^ 31) \<le> int (unat m)" by (rule order_trans [of _ 0]) simp_all
  ultimately have "signed_take_bit 31 (int (unat m)) = int (unat m)" by (intro signed_take_bit_int_eq_self)
  then show ?thesis unfolding int_of_size_def sint_uint u by simp
qed

lemma wired_update:
  assumes "wired n fs lk" "\<And>t. rx_channel (ends lk' t) = rx_channel (ends lk t)" "\<And>t. tx_channel (ends lk' t) = tx_channel (ends lk t)"
    and "\<And>t. nframes (ends lk' t) = nframes (ends lk t)" "\<And>t. frame_size (ends lk' t) = frame_size (ends lk t)"
    and "\<And>a. length (area (shm lk' a)) = length (area (shm lk a))"
  shows "wired n fs lk'"
  using assms(1) unfolding wired_def shaped_def assms(2-6) .

lemma data_step_inv:
  assumes "link_inv n fs lk" "own_state lk s = ivc_state_established" "wired n fs lk'" "\<And>t. own_state lk' t = own_state lk t"
    and "pristine lk (\<not> s) \<Longrightarrow> pristine lk' (\<not> s)" "flows n fs lk' s" "flows n fs lk' (\<not> s)"
  shows "link_inv n fs lk'"
proof -
  have "\<forall>t. own_state lk' t = ivc_state_ack \<longrightarrow> pristine lk' t"
    using assms(1,2,4,5) unfolding all_sides [of _ s] link_inv_def by auto
  moreover have "\<forall>t. flows n fs lk' t" using assms(6,7) unfolding all_sides [of _ s] by simp
  ultimately show ?thesis using assms(1,3,4) by (simp add: link_inv_def)
qed

context ivc_frames
begin

lemma link_ends:
  assumes "link_inv n fs lk"
  shows "wired n fs lk" "shaped n fs (ends lk s) (shm lk)" "nframes (ends lk s) = n" "frame_size (ends lk s) = fs"
    "rx_channel (ends lk s) = tx_channel (ends lk (\<not> s))" "rx_channel (ends lk (\<not> s)) = tx_channel (ends lk s)"
    "tx_channel (ends lk (\<not> s)) \<noteq> tx_channel (ends lk s)" "length (area (shm lk (tx_channel (ends lk s)))) = unat n * unat fs"
proof -
  show w: "wired n fs lk" using assms by (simp add: link_inv_def)
  then show a: "shaped n fs (ends lk s) (shm lk)" "rx_channel (ends lk s) = tx_channel (ends lk (\<not> s))"
    unfolding wired_def by blast+
  show "rx_channel (ends lk (\<not> s)) = tx_channel (ends lk s)" using w spec [of _ "\<not> s"] unfolding wired_def by fastforce
  show "nframes (ends lk s) = n" "frame_size (ends lk s) = fs" "length (area (shm lk (tx_channel (ends lk s)))) = unat n * unat fs"
    using a(1) by (simp_all add: shaped_def)
  show "tx_channel (ends lk (\<not> s)) \<noteq> tx_channel (ends lk s)" using a by (auto simp: shaped_def)
qed

lemma send_room:
  assumes i: "link_inv n fs lk" and e: "own_state lk s = ivc_state_established" and b: "sz \<le> ucast fs" "unat sz \<le> length buf"
    and h: "holds (unat n) (unat fs) (shm lk (tx_channel (ends lk s))) (w_pos (ends lk s)) (r_pos (ends lk (\<not> s))) q"
      "sent lk s = d @ q" "list_all2 prefix (rcvd lk (\<not> s)) d" "flows n fs lk (\<not> s)" and r: "length q < unat n"
  shows "\<exists>lk'. link_call s (Send buf sz) lk = Some lk' \<and> link_inv n fs lk'"
proof -
  let ?i = "ends lk s" and ?sh = "shm lk"
  note l = link_ends(1) [OF i] link_ends(2-8) [OF i, of s]
  define ch where "ch = (?sh (tx_channel ?i))\<lparr>area := patch_at (unat (w_pos ?i) * unat fs) (padded fs buf sz) (area (?sh (tx_channel ?i))),
       w_count := w_count (?sh (tx_channel ?i)) + 1\<rparr>"
  have e': "ch_state (?sh (tx_channel ?i)) = ivc_state_established" using e by (simp add: own_state_def)
  obtain c where wc: "tegra_ivc_write ?i buf sz ?sh = Some (int_of_size sz,
      ivc_notify c (?i\<lparr>w_pos := if w_pos ?i = n - 1 then 0 else w_pos ?i + 1\<rparr>), ?sh(tx_channel ?i := ch))"
    using write_puts [OF l(2) h(1) e' b] r by (auto simp: ch_def)
  have sz: "unat sz \<le> unat fs" using b(1) by (simp add: word_le_nat_alt unat_ucast_fs)
  then have pl: "length (padded fs buf sz) = unat fs" using b by (simp add: padded_def)
  have lc: "length (area ch) = length (area (?sh (tx_channel ?i)))"
    unfolding ch_def using frame_fits [OF wp_bound [OF h(1)]] l(8) pl by (simp add: length_patch_at)
  have put: "holds (unat n) (unat fs) ch (if w_pos ?i = n - 1 then 0 else w_pos ?i + 1) (r_pos (ends lk (\<not> s))) (q @ [padded fs buf sz])"
    by (rule holds_put [OF h(1) l(8) r pl]) (simp add: ch_def)
  define lk' where "lk' = lk\<lparr>ends := (ends lk)(s := ivc_notify c (?i\<lparr>w_pos := if w_pos ?i = n - 1 then 0 else w_pos ?i + 1\<rparr>)),
      shm := ?sh(tx_channel ?i := ch), sent := (sent lk)(s := sent lk s @ [padded fs buf sz])\<rparr>"
  have "link_call s (Send buf sz) lk = Some lk'" using wc l(4) int_of_size_val [of sz] sz small by (simp add: lk'_def)
  moreover have "link_inv n fs lk'"
  proof (rule data_step_inv [OF i e])
    show "wired n fs lk'" by (rule wired_update [OF l(1)]) (use lc in \<open>auto simp: lk'_def\<close>)
    show "own_state lk' t = own_state lk t" for t by (auto simp: own_state_def lk'_def ch_def)
    show "flows n fs lk' s" using put h(2,3) unfolding flows_def by (intro exI [of _ d] exI [of _ "q @ [padded fs buf sz]"]) (simp add: lk'_def)
    show "flows n fs lk' (\<not> s)" using h(4) l(5-7) unfolding flows_def lk'_def by auto
    show "pristine lk (\<not> s) \<Longrightarrow> pristine lk' (\<not> s)" using l(5-7) by (auto simp: pristine_def lk'_def ch_def)
  qed
  ultimately show ?thesis by blast
qed

lemma send_inv:
  assumes i: "link_inv n fs lk" and b: "unat sz \<le> length buf"
  shows "\<exists>lk'. link_call s (Send buf sz) lk = Some lk' \<and> link_inv n fs lk'"
proof -
  note l = link_ends(1) [OF i] link_ends(2-8) [OF i, of s]
  consider "sz > ucast fs" | "own_state lk s \<noteq> ivc_state_established" "\<not> sz > ucast fs" | "own_state lk s = ivc_state_established" "sz \<le> ucast fs" by force
  then show ?thesis
  proof cases
    case 3
    have "flows n fs lk s" "flows n fs lk (\<not> s)" using i not_resetting_est [OF 3(1)] by (auto simp: link_inv_def)
    then obtain d q where h: "holds (unat n) (unat fs) (shm lk (tx_channel (ends lk s))) (w_pos (ends lk s)) (r_pos (ends lk (\<not> s))) q"
        "sent lk s = d @ q" "list_all2 prefix (rcvd lk (\<not> s)) d" "flows n fs lk (\<not> s)" unfolding flows_def by blast
    have e: "ch_state (shm lk (tx_channel (ends lk s))) = ivc_state_established" using 3(1) by (simp add: own_state_def)
    show ?thesis
    proof (cases "length q < unat n")
      case False
      then show ?thesis using write_puts [OF l(2) h(1) e 3(2) b] i by simp
    qed (rule send_room [OF i 3(1,2) b h])
  qed (use i l in \<open>simp_all add: tegra_ivc_write_def ivc_check_write_def own_state_def\<close>)
qed

lemma receive_data:
  assumes i: "link_inv n fs lk" and e: "own_state lk s = ivc_state_established" and b: "m \<le> ucast fs"
    and h: "holds (unat n) (unat fs) (shm lk (tx_channel (ends lk (\<not> s)))) (w_pos (ends lk (\<not> s))) (r_pos (ends lk s)) (f # q)"
      "sent lk (\<not> s) = d @ f # q" "list_all2 prefix (rcvd lk s) d" "flows n fs lk s"
  shows "\<exists>lk'. link_call s (Receive m) lk = Some lk' \<and> link_inv n fs lk'"
proof -
  let ?i = "ends lk s" and ?sh = "shm lk"
  note l = link_ends(1) [OF i] link_ends(2-8) [OF i, of s]
  define ch where "ch = (?sh (rx_channel ?i))\<lparr>r_count := r_count (?sh (rx_channel ?i)) + 1\<rparr>"
  have e': "ch_state (?sh (tx_channel ?i)) = ivc_state_established" using e by (simp add: own_state_def)
  have h': "holds (unat n) (unat fs) (?sh (rx_channel ?i)) (w_pos (ends lk (\<not> s))) (r_pos ?i) (f # q)" using h(1) l(5) by simp
  obtain c where rc: "tegra_ivc_read ?i m ?sh = Some (int_of_size m, take (unat m) f,
      ivc_notify c (?i\<lparr>r_pos := if r_pos ?i = n - 1 then 0 else r_pos ?i + 1\<rparr>), ?sh(rx_channel ?i := ch))"
    using read_gets [OF l(2) h' e' b] by (auto simp: ch_def)
  have m: "unat m \<le> unat fs" using b by (simp add: word_le_nat_alt unat_ucast_fs)
  have get: "holds (unat n) (unat fs) ch (w_pos (ends lk (\<not> s))) (if r_pos ?i = n - 1 then 0 else r_pos ?i + 1) q"
    by (rule holds_get [OF h']) (simp add: ch_def)
  define lk' where "lk' = lk\<lparr>ends := (ends lk)(s := ivc_notify c (?i\<lparr>r_pos := if r_pos ?i = n - 1 then 0 else r_pos ?i + 1\<rparr>)),
      shm := ?sh(rx_channel ?i := ch), rcvd := (rcvd lk)(s := rcvd lk s @ [take (unat m) f])\<rparr>"
  have "link_call s (Receive m) lk = Some lk'" using rc int_of_size_val [of m] m small by (simp add: lk'_def)
  moreover have "link_inv n fs lk'"
  proof (rule data_step_inv [OF i e])
    show "wired n fs lk'" by (rule wired_update [OF l(1)]) (auto simp: lk'_def ch_def)
    show "own_state lk' t = own_state lk t" for t by (auto simp: own_state_def lk'_def ch_def)
    have "list_all2 prefix (rcvd lk s @ [take (unat m) f]) (d @ [f])" using h(3) by (simp add: list_all2_appendI take_is_prefix)
    then show "flows n fs lk' (\<not> s)" using get h(2) l(5) unfolding flows_def
      by (intro exI [of _ "d @ [f]"] exI [of _ q]) (simp add: lk'_def)
    show "flows n fs lk' s" using h(4) l(5-7) unfolding flows_def lk'_def by auto
    show "pristine lk (\<not> s) \<Longrightarrow> pristine lk' (\<not> s)" using l(5-7) by (auto simp: pristine_def lk'_def ch_def)
  qed
  ultimately show ?thesis by blast
qed

lemma receive_inv:
  assumes i: "link_inv n fs lk"
  shows "\<exists>lk'. link_call s (Receive m) lk = Some lk' \<and> link_inv n fs lk'"
proof -
  note l = link_ends(1) [OF i] link_ends(2-8) [OF i, of s]
  consider "m > ucast fs" | "own_state lk s \<noteq> ivc_state_established" "\<not> m > ucast fs" | "own_state lk s = ivc_state_established" "m \<le> ucast fs" by force
  then show ?thesis
  proof cases
    case 3
    have fl: "flows n fs lk (\<not> s)" "flows n fs lk s" using i not_resetting_est [OF 3(1)] by (auto simp: link_inv_def)
    then obtain d q where h: "holds (unat n) (unat fs) (shm lk (tx_channel (ends lk (\<not> s)))) (w_pos (ends lk (\<not> s))) (r_pos (ends lk s)) q"
        "sent lk (\<not> s) = d @ q" "list_all2 prefix (rcvd lk s) d" unfolding flows_def by auto
    have e: "ch_state (shm lk (tx_channel (ends lk s))) = ivc_state_established" using 3(1) by (simp add: own_state_def)
    show ?thesis
    proof (cases q)
      case Nil
      then show ?thesis using read_gets [OF l(2) _ e 3(2), of _ q] h(1) l(5) i by simp
    next
      case (Cons f q')
      then show ?thesis using receive_data [OF i 3(1,2), of f q' d] h fl(2) by simp
    qed
  qed (use i l in \<open>simp_all add: tegra_ivc_read_def ivc_check_read_def own_state_def\<close>)
qed

end


definition next_state :: "u32 \<Rightarrow> u32 \<Rightarrow> u32" where
  "next_state own peer = (if peer = ivc_state_sync then ivc_state_ack else if own = ivc_state_sync \<and> peer = ivc_state_ack then ivc_state_established
     else if own = ivc_state_ack then ivc_state_established else own)"

context ivc_frames
begin

lemma reset_inv:
  assumes i: "link_inv n fs lk"
  shows "\<exists>lk'. link_call s Reset lk = Some lk' \<and> link_inv n fs lk' \<and> own_state lk' s = ivc_state_sync"
proof -
  note l = link_ends(1) [OF i] link_ends(2-8) [OF i, of s]
  define lk' where "lk' = lk\<lparr>ends := (ends lk)(s := ivc_notify True (ends lk s)), shm := set_tx_state ivc_state_sync (ends lk s) (shm lk)\<rparr>"
  have st: "own_state lk' s = ivc_state_sync" "own_state lk' (\<not> s) = own_state lk (\<not> s)"
    using l(7) by (simp_all add: own_state_def lk'_def set_tx_state_def)
  have "wired n fs lk'" by (rule wired_update [OF l(1)]) (auto simp: lk'_def set_tx_state_def)
  moreover have "pristine lk' (\<not> s) = pristine lk (\<not> s)" using l(5-7) by (auto simp: pristine_def lk'_def set_tx_state_def)
  moreover have "flows n fs lk' t = flows n fs lk t" for t by (auto simp: flows_def lk'_def set_tx_state_def holds_def frame_of_def)
  moreover have "\<not> resetting lk' \<Longrightarrow> \<not> resetting lk"
    using st unfolding resetting_def ex_sides [of _ s] by auto
  ultimately have "link_inv n fs lk'" using i st unfolding link_inv_def all_sides [of _ s] by auto
  then show ?thesis using st(1) by (simp add: lk'_def tegra_ivc_channel_reset_def)
qed

lemma wired_ends:
  assumes "wired n fs lk"
  shows "rx_channel (ends lk s) = tx_channel (ends lk (\<not> s))" "rx_channel (ends lk (\<not> s)) = tx_channel (ends lk s)"
    "tx_channel (ends lk (\<not> s)) \<noteq> tx_channel (ends lk s)"
proof -
  show a: "rx_channel (ends lk s) = tx_channel (ends lk (\<not> s))" using assms unfolding wired_def by blast
  show "rx_channel (ends lk (\<not> s)) = tx_channel (ends lk s)" using assms spec [of _ "\<not> s"] unfolding wired_def by fastforce
  have "shaped n fs (ends lk s) (shm lk)" using assms unfolding wired_def by blast
  then show "tx_channel (ends lk (\<not> s)) \<noteq> tx_channel (ends lk s)" using a by (auto simp: shaped_def)
qed

lemma notified_effect:
  assumes w: "wired n fs lk"
  shows "\<exists>lk'. link_call s Notified lk = Some lk' \<and> wired n fs lk' \<and> own_state lk' s = next_state (own_state lk s) (own_state lk (\<not> s)) \<and>
    own_state lk' (\<not> s) = own_state lk (\<not> s) \<and> pristine lk' (\<not> s) = pristine lk (\<not> s) \<and>
    (if clears (own_state lk s) (own_state lk (\<not> s)) then pristine lk' s
     else pristine lk' s = pristine lk s \<and> (\<forall>t. flows n fs lk' t = flows n fs lk t))"
proof -
  let ?i = "ends lk s" and ?st = "next_state (own_state lk s) (own_state lk (\<not> s))"
  note r = wired_ends [OF w, of s]
  show ?thesis
  proof (cases "clears (own_state lk s) (own_state lk (\<not> s))")
    case True
    define lk' where "lk' = lk\<lparr>ends := (ends lk)(s := ivc_notify True (?i\<lparr>w_pos := 0, r_pos := 0\<rparr>)),
      shm := set_tx_state ?st ?i (snd (clear_counters ?i (shm lk))), sent := (sent lk)(s := []), rcvd := (rcvd lk)(s := [])\<rparr>"
    have "link_call s Notified lk = Some lk'"
      using True r by (auto simp: lk'_def tegra_ivc_channel_notified_def clears_def next_state_def own_state_def clear_counters_def set_tx_state_def Let_def)
    moreover have "wired n fs lk'" by (rule wired_update [OF w]) (auto simp: lk'_def set_tx_state_def clear_counters_def Let_def)
    moreover have "own_state lk' s = ?st" "own_state lk' (\<not> s) = own_state lk (\<not> s)" "pristine lk' s" "pristine lk' (\<not> s) = pristine lk (\<not> s)"
      using r by (auto simp: own_state_def pristine_def lk'_def set_tx_state_def clear_counters_def Let_def)
    ultimately show ?thesis using True by auto
  next
    case False
    define lk' where "lk' = lk\<lparr>ends := (ends lk)(s := ivc_notify (own_state lk s = ivc_state_ack) ?i), shm := set_tx_state ?st ?i (shm lk)\<rparr>"
    have "set_tx_state (own_state lk s) ?i (shm lk) = shm lk" by (simp add: set_tx_state_def own_state_def)
    then have "link_call s Notified lk = Some lk'"
      using False r by (auto simp: lk'_def tegra_ivc_channel_notified_def clears_def next_state_def own_state_def ivc_notify_def Let_def)
    moreover have "wired n fs lk'" by (rule wired_update [OF w]) (auto simp: lk'_def set_tx_state_def)
    moreover have "own_state lk' s = ?st" "own_state lk' (\<not> s) = own_state lk (\<not> s)" "pristine lk' s = pristine lk s" "pristine lk' (\<not> s) = pristine lk (\<not> s)"
      using r by (auto simp: own_state_def pristine_def lk'_def set_tx_state_def)
    moreover have "flows n fs lk' t = flows n fs lk t" for t by (auto simp: flows_def lk'_def set_tx_state_def holds_def frame_of_def)
    ultimately show ?thesis using False by auto
  qed
qed

lemma notified_inv:
  assumes i: "link_inv n fs lk"
  shows "\<exists>lk'. link_call s Notified lk = Some lk' \<and> link_inv n fs lk'"
proof -
  let ?own = "own_state lk s" and ?peer = "own_state lk (\<not> s)"
  obtain lk' where c: "link_call s Notified lk = Some lk'" and w: "wired n fs lk'"
    and st: "own_state lk' s = next_state ?own ?peer" "own_state lk' (\<not> s) = ?peer" and p: "pristine lk' (\<not> s) = pristine lk (\<not> s)"
    and e: "if clears ?own ?peer then pristine lk' s else pristine lk' s = pristine lk s \<and> (\<forall>t. flows n fs lk' t = flows n fs lk t)"
    using notified_effect [of lk s] i by (auto simp: link_inv_def)
  have vals: "?own \<in> {0, 1, 2}" "?peer \<in> {0, 1, 2}" and ack: "?own = 2 \<Longrightarrow> pristine lk s" "?peer = 2 \<Longrightarrow> pristine lk (\<not> s)"
    and fl: "\<not> resetting lk \<Longrightarrow> \<forall>t. flows n fs lk t" using i by (auto simp: link_inv_def)
  have both: "\<forall>t. flows n fs lk' t" if "pristine lk' s" "pristine lk' (\<not> s)"
    using that pristine_flows [OF _ _ w n_pos, of s] pristine_flows [OF _ _ w n_pos, of "\<not> s"] unfolding all_sides [of _ s] by simp
  have "\<forall>t. own_state lk' t \<in> {0, 1, 2}" using vals unfolding all_sides [of _ s] st by (auto simp: next_state_def)
  moreover have "\<forall>t. own_state lk' t = ivc_state_ack \<longrightarrow> pristine lk' t"
    using ack e p unfolding all_sides [of _ s] st by (auto simp: next_state_def clears_def split: if_splits)
  moreover have "\<forall>t. flows n fs lk' t" if "\<not> resetting lk'"
  proof (cases "clears ?own ?peer")
    case True
    then have "?peer = 2" using that st unfolding resetting_def ex_sides [of _ s] by (auto simp: clears_def next_state_def)
    then show ?thesis using both e True ack(2) p by simp
  next
    case False
    then have "\<not> resetting lk" using vals unfolding resetting_def ex_sides [of _ s] by (auto simp: clears_def)
    then show ?thesis using fl e False by simp
  qed
  ultimately have "link_inv n fs lk'" using w by (simp add: link_inv_def)
  then show ?thesis using c by blast
qed

lemma call_inv: "link_inv n fs lk \<Longrightarrow> call_ok c \<Longrightarrow> \<exists>lk'. link_call s c lk = Some lk' \<and> link_inv n fs lk'"
  using send_inv receive_inv reset_inv notified_inv by (cases c) fastforce+

lemma link_runs_inv: "link_runs cs lk lk' \<Longrightarrow> link_inv n fs lk \<Longrightarrow> link_inv n fs lk'"
proof (induction rule: link_runs.induct)
  case (step c s lk lk1 cs lk2)
  then show ?case using call_inv [of lk c s] by auto
qed

end


section \<open>Opening a link\<close>

lemma unat_ucast_mult:
  fixes a b :: u32
  shows "unat (ucast a * ucast b :: u64) = unat a * unat b"
proof -
  have "unat a * unat b \<le> (2 ^ 32 - 1) * (2 ^ 32 - 1)" using unsigned_less [of a, where 'a = nat] unsigned_less [of b, where 'a = nat] by (intro mult_le_mono) auto
  then have "unat a * unat b < 2 ^ 64" by (rule le_less_trans) simp
  then show ?thesis by (simp add: unat_word_ariths unat_ucast_fs)
qed

lemma ivc_init_ok:
  assumes "tegra_ivc_init i rx tx n fs = (0, e)"
  shows "unat n * unat fs < 2 ^ 32" "rx_channel e = rx" "tx_channel e = tx" "nframes e = n" "frame_size e = fs"
proof -
  have c: "check_ivc_params rx tx n fs = 0"
    using assms by (auto simp: tegra_ivc_init_def Let_def split: if_splits)
  then have "\<not> (0x100000000 :: u64) \<le> ucast n * ucast fs" by (auto simp: check_ivc_params_def split: if_splits)
  then show "unat n * unat fs < 2 ^ 32" by (simp add: word_le_nat_alt unat_ucast_mult not_le)
  show "rx_channel e = rx" "tx_channel e = tx" "nframes e = n" "frame_size e = fs"
    using assms c by (auto simp: tegra_ivc_init_def Let_def split: if_splits)
qed

text \<open>A link after both ends have been initialised, over memory with any contents.\<close>

locale ivc_opened =
  fixes n fs :: u32 and a b :: u64 and e0 e1 :: ivc and sh :: ivc_mem and lk0 :: ivc_link
  assumes opened: "\<exists>i. tegra_ivc_init i a b n fs = (0, e0)" "\<exists>i. tegra_ivc_init i b a n fs = (0, e1)"
    and frames: "0 < unat n" "unat fs < 2 ^ 31" and apart: "a \<noteq> b"
    and areas: "length (area (sh a)) = unat n * unat fs" "length (area (sh b)) = unat n * unat fs"
    and start: "lk0 = \<lparr>ends = case_bool e0 e1, shm = sh, sent = \<lambda>_. [], rcvd = \<lambda>_. []\<rparr>"

sublocale ivc_opened \<subseteq> ivc_frames n fs
  using opened(1) ivc_init_ok(1) frames by unfold_locales auto

context ivc_opened
begin

lemma start_wired: "wired n fs lk0"
proof -
  obtain i0 i1 where i: "tegra_ivc_init i0 a b n fs = (0, e0)" "tegra_ivc_init i1 b a n fs = (0, e1)" using opened by blast
  show ?thesis unfolding wired_def shaped_def start using ivc_init_ok(2-5) [OF i(1)] ivc_init_ok(2-5) [OF i(2)] apart areas
    by (simp add: all_bool_eq)
qed

lemma both_reset:
  assumes "link_runs [(True, Reset), (False, Reset)] lk0 lk"
  shows "link_inv n fs lk"
proof -
  note w = wired_ends [OF start_wired, of True]
  have lk: "lk = lk0\<lparr>ends := \<lambda>s. ivc_notify True (ends lk0 s), shm := set_tx_state ivc_state_sync (ends lk0 False) (set_tx_state ivc_state_sync (ends lk0 True) (shm lk0))\<rparr>"
    using assms by (cases lk0) (simp add: link_runs_Cons tegra_ivc_channel_reset_def fun_eq_iff)
  have st: "own_state lk s = ivc_state_sync" for s
    using w unfolding lk by (cases s) (auto simp: own_state_def set_tx_state_def)
  have "wired n fs lk" by (rule wired_update [OF start_wired]) (auto simp: lk set_tx_state_def)
  then show ?thesis using st by (auto simp: link_inv_def resetting_def)
qed

lemma reachable_inv:
  assumes "link_runs ([(True, Reset), (False, Reset)] @ cs) lk0 lk"
  shows "link_inv n fs lk"
proof -
  from assms obtain m where "link_runs [(True, Reset), (False, Reset)] lk0 m" "link_runs cs m lk" unfolding link_runs_append by blast
  then show ?thesis using both_reset link_runs_inv by blast
qed

end


text \<open>Rounds of notifications: in each, both ends look at the other one, the named end first.\<close>

definition rounds :: "bool list \<Rightarrow> (bool \<times> ivc_call) list" where
  "rounds ss = concat (map (\<lambda>s. [(s, Notified), (\<not> s, Notified)]) ss)"

definition settled :: "ivc_link \<Rightarrow> bool" where
  "settled lk \<longleftrightarrow> (\<forall>s. (own_state lk s = ivc_state_established \<or> own_state lk s = ivc_state_ack) \<and> pristine lk s)"

definition waiting :: "ivc_link \<Rightarrow> bool" where
  "waiting lk \<longleftrightarrow> (\<exists>s. own_state lk s = ivc_state_sync \<and> own_state lk (\<not> s) = ivc_state_ack \<and> pristine lk (\<not> s))"

context ivc_frames
begin

lemma one_notified:
  assumes w: "wired n fs lk" and s: "own_state lk s = x" "own_state lk (\<not> s) = y"
  obtains lk' where "link_runs [(s, Notified)] lk lk'" "wired n fs lk'" "own_state lk' s = next_state x y" "own_state lk' (\<not> s) = y"
    "pristine lk' (\<not> s) = pristine lk (\<not> s)" "clears x y \<or> pristine lk s \<Longrightarrow> pristine lk' s"
  using notified_effect [OF w, of s] s by (auto simp: link_runs_Cons split: if_splits)

text \<open>A round of notifications, in either order, from the states \<open>x\<close> and \<open>y\<close>.\<close>

lemma round:
  assumes w: "wired n fs lk" and s: "own_state lk s = x" "own_state lk (\<not> s) = y"
  obtains lk' where "link_runs [(s, Notified), (\<not> s, Notified)] lk lk'" "wired n fs lk'" "own_state lk' s = next_state x y"
    "own_state lk' (\<not> s) = next_state y (next_state x y)"
    "clears x y \<or> pristine lk s \<Longrightarrow> pristine lk' s" "clears y (next_state x y) \<or> pristine lk (\<not> s) \<Longrightarrow> pristine lk' (\<not> s)"
proof -
  obtain l1 where l1: "link_runs [(s, Notified)] lk l1" "wired n fs l1" "own_state l1 s = next_state x y" "own_state l1 (\<not> s) = y"
    "pristine l1 (\<not> s) = pristine lk (\<not> s)" "clears x y \<or> pristine lk s \<Longrightarrow> pristine l1 s"
    using one_notified [OF w s] by blast
  obtain l2 where l2: "link_runs [(\<not> s, Notified)] l1 l2" "wired n fs l2" "own_state l2 (\<not> s) = next_state y (next_state x y)" "own_state l2 s = next_state x y"
    "pristine l2 s = pristine l1 s" "clears y (next_state x y) \<or> pristine l1 (\<not> s) \<Longrightarrow> pristine l2 (\<not> s)"
    using one_notified [OF l1(2,4), of "next_state x y"] l1(3) by auto
  have "link_runs ([(s, Notified)] @ [(\<not> s, Notified)]) lk l2" unfolding link_runs_append using l1(1) l2(1) by blast
  then show ?thesis using that l1 l2 by simp
qed

lemma round_again:
  assumes "wired n fs lk"
  obtains lk' where "link_runs (rounds [s]) lk lk'" "wired n fs lk'" "own_state lk' s = next_state (own_state lk s) (own_state lk (\<not> s))"
    "own_state lk' (\<not> s) = next_state (own_state lk (\<not> s)) (own_state lk' s)"
    "clears (own_state lk s) (own_state lk (\<not> s)) \<or> pristine lk s \<Longrightarrow> pristine lk' s"
    "clears (own_state lk (\<not> s)) (own_state lk' s) \<or> pristine lk (\<not> s) \<Longrightarrow> pristine lk' (\<not> s)"
  using round [OF assms refl refl, of s] unfolding rounds_def by (simp del: not_True_eq_False) metis

lemma round_from_sync:
  assumes i: "link_inv n fs lk" and r: "own_state lk t = ivc_state_sync"
  shows "\<exists>lk'. link_runs (rounds [s]) lk lk' \<and> wired n fs lk' \<and> (settled lk' \<or> waiting lk')"
proof -
  define x y where "x = own_state lk s" and "y = own_state lk (\<not> s)"
  have w: "wired n fs lk" and v: "x \<in> {0, 1, 2}" "y \<in> {0, 1, 2}" and p: "x = 2 \<Longrightarrow> pristine lk s" "y = 2 \<Longrightarrow> pristine lk (\<not> s)"
    using i by (auto simp: link_inv_def x_def y_def)
  have one: "x = 1 \<or> y = 1" using r by (cases "t = s") (auto simp: x_def y_def)
  obtain l where l: "link_runs (rounds [s]) lk l" "wired n fs l" "own_state l s = next_state x y" "own_state l (\<not> s) = next_state y (own_state l s)"
    "clears x y \<or> pristine lk s \<Longrightarrow> pristine l s" "clears y (own_state l s) \<or> pristine lk (\<not> s) \<Longrightarrow> pristine l (\<not> s)"
    using round_again [OF w, of s] unfolding x_def y_def by metis
  have "settled l \<or> waiting l"
    using v one p l(3-6) unfolding settled_def waiting_def all_sides [of _ s] ex_sides [of _ s] by (auto simp: next_state_def clears_def)
  then show ?thesis using l(1,2) by blast
qed

lemma round_from_waiting:
  assumes w: "wired n fs lk" and r: "settled lk \<or> waiting lk"
  shows "\<exists>lk'. link_runs (rounds [s]) lk lk' \<and> wired n fs lk' \<and> settled lk'"
proof -
  obtain l where l: "link_runs (rounds [s]) lk l" "wired n fs l" "own_state l s = next_state (own_state lk s) (own_state lk (\<not> s))"
    "own_state l (\<not> s) = next_state (own_state lk (\<not> s)) (own_state l s)"
    "clears (own_state lk s) (own_state lk (\<not> s)) \<or> pristine lk s \<Longrightarrow> pristine l s"
    "clears (own_state lk (\<not> s)) (own_state l s) \<or> pristine lk (\<not> s) \<Longrightarrow> pristine l (\<not> s)"
    using round_again [OF w, of s] by metis
  have "settled l"
    using r l(3-6) unfolding settled_def waiting_def all_sides [of _ s] ex_sides [of _ s] by (auto simp: next_state_def clears_def)
  then show ?thesis using l(1,2) by blast
qed

lemma round_from_settled:
  assumes w: "wired n fs lk" and r: "settled lk"
  shows "\<exists>lk'. link_runs (rounds [s]) lk lk' \<and> wired n fs lk' \<and> (\<forall>t. own_state lk' t = ivc_state_established \<and> pristine lk' t)"
proof -
  obtain l where l: "link_runs (rounds [s]) lk l" "wired n fs l" "own_state l s = next_state (own_state lk s) (own_state lk (\<not> s))"
    "own_state l (\<not> s) = next_state (own_state lk (\<not> s)) (own_state l s)"
    "clears (own_state lk s) (own_state lk (\<not> s)) \<or> pristine lk s \<Longrightarrow> pristine l s"
    "clears (own_state lk (\<not> s)) (own_state l s) \<or> pristine lk (\<not> s) \<Longrightarrow> pristine l (\<not> s)"
    using round_again [OF w, of s] by metis
  have "\<forall>t. own_state l t = ivc_state_established \<and> pristine l t"
    using r l(3-6) unfolding settled_def all_sides [of _ s] by (auto simp: next_state_def clears_def)
  then show ?thesis using l(1,2) by blast
qed

lemma three_rounds:
  assumes "link_inv n fs lk" "own_state lk t = ivc_state_sync"
  shows "\<exists>lk'. link_runs (rounds [s1, s2, s3]) lk lk' \<and> wired n fs lk' \<and> (\<forall>s. own_state lk' s = ivc_state_established \<and> pristine lk' s)"
proof -
  obtain l1 where l1: "link_runs (rounds [s1]) lk l1" "wired n fs l1" "settled l1 \<or> waiting l1" using round_from_sync [OF assms] by blast
  obtain l2 where l2: "link_runs (rounds [s2]) l1 l2" "wired n fs l2" "settled l2" using round_from_waiting [OF l1(2,3)] by blast
  obtain l3 where l3: "link_runs (rounds [s3]) l2 l3" "wired n fs l3" "\<forall>s. own_state l3 s = ivc_state_established \<and> pristine l3 s"
    using round_from_settled [OF l2(2,3)] by blast
  have "rounds [s1, s2, s3] = rounds [s1] @ rounds [s2] @ rounds [s3]" by (simp add: rounds_def)
  then show ?thesis using l1(1) l2(1) l3 by (auto simp: link_runs_append)
qed

end

context ivc_opened
begin

lemma reachable_calls:
  assumes "link_runs ([(True, Reset), (False, Reset)] @ cs) lk0 lk" "call_ok c"
  shows "\<exists>lk'. link_call s c lk = Some lk'"
  using call_inv [OF reachable_inv [OF assms(1)] assms(2)] by blast

lemma reachable_flow:
  assumes "link_runs ([(True, Reset), (False, Reset)] @ cs) lk0 lk" "own_state lk s = ivc_state_established"
  shows "\<exists>d q. sent lk (\<not> s) = d @ q \<and> length q \<le> unat n \<and> list_all2 prefix (rcvd lk s) d"
proof -
  have "flows n fs lk (\<not> s)" using reachable_inv [OF assms(1)] not_resetting_est [OF assms(2)] by (simp add: link_inv_def)
  then obtain d q where "sent lk (\<not> s) = d @ q" "length q \<le> unat n" "list_all2 prefix (rcvd lk s) d" by (auto simp: flows_def holds_def)
  then show ?thesis by blast
qed

lemma reset_recovers:
  assumes "link_runs ([(True, Reset), (False, Reset)] @ cs @ [(t, Reset)]) lk0 lk"
  shows "\<exists>lk'. link_runs (rounds [s1, s2, s3]) lk lk' \<and> (\<forall>s. own_state lk' s = ivc_state_established \<and>
    tegra_ivc_tx_empty (ends lk' s) (shm lk') \<and> tegra_ivc_can_write (ends lk' s) (shm lk'))"
proof -
  obtain l where l: "link_runs ([(True, Reset), (False, Reset)] @ cs) lk0 l" "link_call t Reset l = Some lk"
    using assms by (auto simp: link_runs_append link_runs_Cons simp flip: append_assoc)
  then have "link_inv n fs lk" "own_state lk t = ivc_state_sync" using reset_inv [OF reachable_inv [OF l(1)], of t] by auto
  from three_rounds [OF this] obtain lk' where lk': "link_runs (rounds [s1, s2, s3]) lk lk'" "wired n fs lk'"
      "\<And>s. own_state lk' s = ivc_state_established \<and> pristine lk' s" by blast
  have "tegra_ivc_tx_empty (ends lk' s) (shm lk') \<and> tegra_ivc_can_write (ends lk' s) (shm lk')" for s
  proof -
    have c: "w_count (shm lk' (tx_channel (ends lk' s))) = 0" "r_count (shm lk' (tx_channel (ends lk' s))) = 0"
      using lk'(3) [of s] lk'(3) [of "\<not> s"] wired_ends(2) [OF lk'(2), of s] by (auto simp: pristine_def)
    have "nframes (ends lk' s) = n" using lk'(2) by (simp add: wired_def shaped_def)
    then show ?thesis using c n_pos lk'(3) [of s]
      by (auto simp: tegra_ivc_tx_empty_def tegra_ivc_can_write_def ivc_check_write_def ivc_channel_empty_def ivc_channel_full_def own_state_def unat_gt_0)
  qed
  then show ?thesis using lk'(1,3) by blast
qed

end


section \<open>Properties of the channels\<close>

text \<open>The channel to the power management processor: one frame, in the addresses of the T194.\<close>

definition blank_ivc :: ivc where
  "blank_ivc = \<lparr>rx_channel = 0, tx_channel = 0, w_pos = 0, r_pos = 0, nframes = 0, frame_size = 0, notifies = 0\<rparr>"

definition bpmp_end :: "u64 \<Rightarrow> u64 \<Rightarrow> ivc" where
  "bpmp_end rx tx = snd (tegra_ivc_init blank_ivc rx tx 1 (ucast (tegra_ivc_align 256)))"

definition bpmp_link :: ivc_link where
  "bpmp_link = \<lparr>ends = case_bool (bpmp_end 0x4004f000 0x4004e000) (bpmp_end 0x4004e000 0x4004f000),
     shm = \<lambda>_. \<lparr>w_count = 0xFFFFFFFF, ch_state = 7, r_count = 3, area = replicate 256 0\<rparr>, sent = \<lambda>_. [], rcvd = \<lambda>_. []\<rparr>"

lemma bpmp_init:
  "tegra_ivc_init blank_ivc 0x4004f000 0x4004e000 1 256 = (0, bpmp_end 0x4004f000 0x4004e000)"
  "tegra_ivc_init blank_ivc 0x4004e000 0x4004f000 1 256 = (0, bpmp_end 0x4004e000 0x4004f000)"
  by (simp_all add: bpmp_end_def tegra_ivc_align_def tegra_ivc_init_def check_ivc_params_def)

interpretation bpmp: ivc_opened 1 256 "0x4004f000" "0x4004e000" "bpmp_end 0x4004f000 0x4004e000" "bpmp_end 0x4004e000 0x4004f000"
  "\<lambda>_. \<lparr>w_count = 0xFFFFFFFF, ch_state = 7, r_count = 3, area = replicate 256 0\<rparr>" bpmp_link
  using bpmp_init by unfold_locales (auto simp: bpmp_link_def)

lemma bpmp_talks:
  "\<exists>lk. link_runs ([(True, Reset), (False, Reset)] @ rounds [True, False, True] @ [(True, Send [1, 2, 3] 3), (False, Receive 2)]) bpmp_link lk \<and>
     own_state lk False = ivc_state_established \<and> rcvd lk False = [[1, 2]]"
  by (simp add: link_runs_Cons rounds_def bpmp_link_def bpmp_end_def blank_ivc_def tegra_ivc_align_def tegra_ivc_init_def check_ivc_params_def own_state_def
    tegra_ivc_channel_reset_def tegra_ivc_channel_notified_def clear_counters_def set_tx_state_def ivc_notify_def clears_def Let_def
    tegra_ivc_write_def tegra_ivc_read_def ivc_check_write_def ivc_check_read_def ivc_channel_full_def ivc_channel_empty_def area_store_def area_load_def
    ivc_frame_pointer_def tx_done_def rx_done_def ivc_advance_tx_def ivc_advance_rx_def ivc_channel_avail_count_def patch_at_def int_of_size_def)


lemma opened_link:
  assumes "tegra_ivc_init i0 a b n fs = (0, e0)" "tegra_ivc_init i1 b a n fs = (0, e1)" "0 < unat n" "unat fs < 2 ^ 31" "a \<noteq> b"
    and "length (area (sh a)) = unat n * unat fs" "length (area (sh b)) = unat n * unat fs"
  shows "ivc_opened n fs a b e0 e1 sh \<lparr>ends = case_bool e0 e1, shm = sh, sent = \<lambda>_. [], rcvd = \<lambda>_. []\<rparr>"
  using assms by unfold_locales auto

text \<open>
  (C6) First in, first out, across resets. Two ends initialise a channel over memory with any contents and reset it;
  then they send, receive, reset and handle notifications in any order. Whenever an end is established, what it has
  received since the last reset are the first frames, each cut to the length asked for, that the other end has sent since
  then, in order, and at most the capacity of the channel is under way. The 32-bit counters may wrap around.
\<close>
theorem ivc_fifo:
  assumes "tegra_ivc_init i0 a b n fs = (0, e0)" "tegra_ivc_init i1 b a n fs = (0, e1)" "0 < unat n" "unat fs < 2 ^ 31" "a \<noteq> b"
    and "length (area (sh a)) = unat n * unat fs" "length (area (sh b)) = unat n * unat fs"
    and "link_runs ([(True, Reset), (False, Reset)] @ cs) \<lparr>ends = case_bool e0 e1, shm = sh, sent = \<lambda>_. [], rcvd = \<lambda>_. []\<rparr> lk"
    and "own_state lk s = ivc_state_established"
  shows "\<exists>d q. sent lk (\<not> s) = d @ q \<and> length q \<le> unat n \<and> list_all2 prefix (rcvd lk s) d"
  by (rule ivc_opened.reachable_flow [OF opened_link [OF assms(1-7)] assms(8,9)])

lemma bpmp_link_eq: "\<lparr>ends = case_bool (bpmp_end 0x4004f000 0x4004e000) (bpmp_end 0x4004e000 0x4004f000),
     shm = \<lambda>_. \<lparr>w_count = 0xFFFFFFFF, ch_state = 7, r_count = 3, area = replicate 256 0\<rparr>, sent = \<lambda>_. [], rcvd = \<lambda>_. []\<rparr> = bpmp_link"
  by (simp add: bpmp_link_def)

theorem ivc_fifo_witness:
  "\<exists>lk d q. link_runs ([(True, Reset), (False, Reset)] @ rounds [True, False, True] @ [(True, Send [1, 2, 3] 3), (False, Receive 2)]) bpmp_link lk \<and>
     rcvd lk False = [[1, 2]] \<and> sent lk True = d @ q \<and> length q \<le> unat (1 :: u32) \<and> list_all2 prefix (rcvd lk False) d"
proof -
  obtain lk where lk: "link_runs ([(True, Reset), (False, Reset)] @ rounds [True, False, True] @ [(True, Send [1, 2, 3] 3), (False, Receive 2)]) bpmp_link lk"
     "own_state lk False = ivc_state_established" "rcvd lk False = [[1, 2]]" using bpmp_talks by blast
  from ivc_fifo [OF bpmp_init _ _ _ _ _ lk(1) [folded bpmp_link_eq] lk(2)] lk(1,3) show ?thesis by fastforce
qed

text \<open>
  No call on a channel reaches memory outside its frames, in any state that two ends can bring it to: every call
  returns, for every length and for arbitrary contents of the memory at the start.
\<close>
theorem ivc_calls_stay_inside:
  assumes "tegra_ivc_init i0 a b n fs = (0, e0)" "tegra_ivc_init i1 b a n fs = (0, e1)" "0 < unat n" "unat fs < 2 ^ 31" "a \<noteq> b"
    and "length (area (sh a)) = unat n * unat fs" "length (area (sh b)) = unat n * unat fs"
    and "link_runs ([(True, Reset), (False, Reset)] @ cs) \<lparr>ends = case_bool e0 e1, shm = sh, sent = \<lambda>_. [], rcvd = \<lambda>_. []\<rparr> lk"
    and "call_ok c"
  shows "\<exists>lk'. link_call s c lk = Some lk'"
  by (rule ivc_opened.reachable_calls [OF opened_link [OF assms(1-7)] assms(8,9)])

theorem ivc_calls_stay_inside_witness:
  "\<exists>lk lk'. link_runs ([(True, Reset), (False, Reset)] @ rounds [True, False, True] @ [(True, Send [1, 2, 3] 3), (False, Receive 2)]) bpmp_link lk \<and>
     link_call False (Send (replicate 300 5) 256) lk = Some lk'"
proof -
  obtain lk where lk: "link_runs ([(True, Reset), (False, Reset)] @ rounds [True, False, True] @ [(True, Send [1, 2, 3] 3), (False, Receive 2)]) bpmp_link lk"
    using bpmp_talks by blast
  have "\<exists>lk'. link_call False (Send (replicate 300 5) 256) lk = Some lk'"
    by (rule ivc_calls_stay_inside [OF bpmp_init _ _ _ _ _ lk [folded bpmp_link_eq]]) simp_all
  with lk show ?thesis by blast
qed

text \<open>
  (C14) A reset recovers the channel: in any state, after either end has reset it, three rounds in which both ends handle
  a notification, in whatever order within each round, bring both to the established state with both channels empty and
  writable.
\<close>
theorem ivc_reset_recovers:
  assumes "tegra_ivc_init i0 a b n fs = (0, e0)" "tegra_ivc_init i1 b a n fs = (0, e1)" "0 < unat n" "unat fs < 2 ^ 31" "a \<noteq> b"
    and "length (area (sh a)) = unat n * unat fs" "length (area (sh b)) = unat n * unat fs"
    and "link_runs ([(True, Reset), (False, Reset)] @ cs @ [(t, Reset)]) \<lparr>ends = case_bool e0 e1, shm = sh, sent = \<lambda>_. [], rcvd = \<lambda>_. []\<rparr> lk"
  shows "\<exists>lk'. link_runs (rounds [s1, s2, s3]) lk lk' \<and> (\<forall>s. own_state lk' s = ivc_state_established \<and>
    tegra_ivc_tx_empty (ends lk' s) (shm lk') \<and> tegra_ivc_can_write (ends lk' s) (shm lk'))"
  by (rule ivc_opened.reset_recovers [OF opened_link [OF assms(1-7)] assms(8)])

theorem ivc_reset_recovers_witness:
  "\<exists>lk lk'. link_runs ([(True, Reset), (False, Reset)] @ (rounds [True, False, True] @ [(True, Send [1, 2, 3] 3), (False, Receive 2)]) @ [(False, Reset)]) bpmp_link lk \<and>
     link_runs (rounds [False, True, False]) lk lk' \<and> (\<forall>s. own_state lk' s = ivc_state_established \<and> tegra_ivc_tx_empty (ends lk' s) (shm lk') \<and> tegra_ivc_can_write (ends lk' s) (shm lk'))"
proof -
  obtain l where l: "link_runs ([(True, Reset), (False, Reset)] @ rounds [True, False, True] @ [(True, Send [1, 2, 3] 3), (False, Receive 2)]) bpmp_link l"
    using bpmp_talks by blast
  obtain lk where "link_call False Reset l = Some lk" by (simp add: tegra_ivc_channel_reset_def)
  then have "link_runs (([(True, Reset), (False, Reset)] @ rounds [True, False, True] @ [(True, Send [1, 2, 3] 3), (False, Receive 2)]) @ [(False, Reset)]) bpmp_link lk"
    using l unfolding link_runs_append [of _ "[(False, Reset)]"] by (auto simp: link_runs_Cons)
  then have lk: "link_runs ([(True, Reset), (False, Reset)] @ (rounds [True, False, True] @ [(True, Send [1, 2, 3] 3), (False, Receive 2)]) @ [(False, Reset)]) bpmp_link lk"
    by simp
  have "\<exists>lk'. link_runs (rounds [False, True, False]) lk lk' \<and> (\<forall>s. own_state lk' s = ivc_state_established \<and> tegra_ivc_tx_empty (ends lk' s) (shm lk') \<and> tegra_ivc_can_write (ends lk' s) (shm lk'))"
    by (rule ivc_reset_recovers [OF bpmp_init _ _ _ _ _ lk [folded bpmp_link_eq]]) simp_all
  with lk show ?thesis by blast
qed


section \<open>One end against any peer\<close>

text \<open>
  The states that one end can get into when nothing is assumed of the shared memory: before every call it may hold
  anything, in both channels, headers included.
\<close>

inductive ivc_uses :: "u64 \<Rightarrow> u64 \<Rightarrow> u32 \<Rightarrow> u32 \<Rightarrow> ivc \<Rightarrow> bool" for a b n fs where
  opens: "tegra_ivc_init i a b n fs = (0, e) \<Longrightarrow> ivc_uses a b n fs e"
| reads: "ivc_uses a b n fs e \<Longrightarrow> tegra_ivc_read e m sh = Some (r, buf, e', sh') \<Longrightarrow> ivc_uses a b n fs e'"
| writes: "ivc_uses a b n fs e \<Longrightarrow> tegra_ivc_write e buf sz sh = Some (r, e', sh') \<Longrightarrow> ivc_uses a b n fs e'"
| skips: "ivc_uses a b n fs e \<Longrightarrow> tegra_ivc_read_advance e sh = (r, e', sh') \<Longrightarrow> ivc_uses a b n fs e'"
| posts: "ivc_uses a b n fs e \<Longrightarrow> tegra_ivc_write_advance e sh = (r, e', sh') \<Longrightarrow> ivc_uses a b n fs e'"
| resets: "ivc_uses a b n fs e \<Longrightarrow> tegra_ivc_channel_reset e sh = (e', sh') \<Longrightarrow> ivc_uses a b n fs e'"
| notices: "ivc_uses a b n fs e \<Longrightarrow> tegra_ivc_channel_notified e sh = (r, e', sh') \<Longrightarrow> ivc_uses a b n fs e'"
| syncs: "ivc_uses a b n fs e \<Longrightarrow> tegra_ivc_channel_sync (Some e) sh = (r, Some e') \<Longrightarrow> ivc_uses a b n fs e'"

definition ivc_typed :: "u64 \<Rightarrow> u64 \<Rightarrow> u32 \<Rightarrow> u32 \<Rightarrow> ivc \<Rightarrow> bool" where
  "ivc_typed a b n fs e \<longleftrightarrow> rx_channel e = a \<and> tx_channel e = b \<and> nframes e = n \<and> frame_size e = fs \<and>
     unat (w_pos e) < unat n \<and> unat (r_pos e) < unat n"

lemma ivc_typed_notify [simp]: "ivc_typed a b n fs (ivc_notify c e) = ivc_typed a b n fs e"
  by (simp add: ivc_typed_def)

lemma ivc_init_typed:
  assumes "tegra_ivc_init i a b n fs = (0, e)" "0 < unat n"
  shows "ivc_typed a b n fs e"
proof -
  have "w_pos e = 0 \<and> r_pos e = 0" using assms(1) by (auto simp: tegra_ivc_init_def Let_def split: if_splits dest!: sym [of 0])
  then show ?thesis using ivc_init_ok [OF assms(1)] assms(2) by (simp add: ivc_typed_def)
qed

lemma succ_bound:
  fixes p n :: u32
  assumes "unat p < unat n"
  shows "unat (if p = n - 1 then 0 else p + 1) < unat n"
  using succ_mod [OF assms] assms by simp

lemma rx_done_typed: "ivc_typed a b n fs e \<Longrightarrow> rx_done e sh = (e', sh') \<Longrightarrow> ivc_typed a b n fs e'"
  using succ_bound [of "r_pos e" n] by (auto simp: rx_done_def ivc_advance_rx_def ivc_typed_def)

lemma tx_done_typed: "ivc_typed a b n fs e \<Longrightarrow> tx_done e sh = (e', sh') \<Longrightarrow> ivc_typed a b n fs e'"
  using succ_bound [of "w_pos e" n] by (auto simp: tx_done_def ivc_advance_tx_def ivc_typed_def)

lemma notified_typed: "ivc_typed a b n fs e \<Longrightarrow> tegra_ivc_channel_notified e sh = (r, e', sh') \<Longrightarrow> ivc_typed a b n fs e'"
  by (auto simp: tegra_ivc_channel_notified_def clear_counters_def ivc_typed_def Let_def split: if_splits)

lemma sync_typed: "ivc_typed a b n fs e \<Longrightarrow> tegra_ivc_channel_sync (Some e) sh = (r, Some e') \<Longrightarrow> ivc_typed a b n fs e'"
  by (auto simp: tegra_ivc_channel_sync_def ivc_typed_def unat_mod split: if_splits)

lemma ivc_uses_typed:
  assumes "ivc_uses a b n fs e" "0 < unat n"
  shows "ivc_typed a b n fs e"
  using assms
proof induction
  case (reads e m sh r buf e' sh')
  then show ?case by (auto simp: tegra_ivc_read_def Let_def split: if_splits option.splits prod.splits intro: rx_done_typed)
next
  case (writes e buf sz sh r e' sh')
  then show ?case by (auto simp: tegra_ivc_write_def Let_def split: if_splits option.splits prod.splits intro: tx_done_typed)
next
  case (skips e sh r e' sh')
  then show ?case by (auto simp: tegra_ivc_read_advance_def Let_def split: if_splits intro: rx_done_typed)
next
  case (posts e sh r e' sh')
  then show ?case by (auto simp: tegra_ivc_write_advance_def Let_def split: if_splits intro: tx_done_typed)
next
  case (resets e sh e' sh')
  then show ?case by (auto simp: tegra_ivc_channel_reset_def)
qed (auto intro: ivc_init_typed notified_typed sync_typed)

lemma ivc_uses_fits: "ivc_uses a b n fs e \<Longrightarrow> unat n * unat fs < 2 ^ 32"
  by (induction rule: ivc_uses.induct) (auto dest: ivc_init_ok(1))

context ivc_ring
begin

lemma typed_pointer:
  assumes "ivc_typed a b n fs e" "unat p < unat n"
  shows "ivc_frame_pointer e p + unat fs \<le> unat n * unat fs"
proof -
  have "unat p * unat fs \<le> unat n * unat fs" using assms(2) by (intro mult_le_mono1) simp
  from le_less_trans [OF this fits] have "unat fs * unat p < 2 ^ 32" by (simp only: mult.commute)
  then have "ivc_frame_pointer e p = unat p * unat fs"
    using assms(1) by (simp add: ivc_frame_pointer_def ivc_typed_def unat_word_ariths mult.commute)
  then show ?thesis using frame_fits [OF assms(2)] by simp
qed

lemma typed_read:
  assumes "ivc_typed a b n fs e" "length (area (sh a)) = unat n * unat fs"
  shows "tegra_ivc_read e m sh \<noteq> None"
proof (cases "ucast fs < m")
  case False
  then have "unat m \<le> unat fs" by (simp add: word_less_nat_alt unat_ucast_fs)
  then show ?thesis using False typed_pointer [OF assms(1), of "r_pos e"] assms
    by (auto simp: tegra_ivc_read_def area_load_def ivc_typed_def Let_def split: prod.splits)
qed (use assms in \<open>simp add: tegra_ivc_read_def ivc_typed_def\<close>)

lemma typed_write:
  assumes "ivc_typed a b n fs e" "length (area (sh b)) = unat n * unat fs" "unat sz \<le> length buf"
  shows "tegra_ivc_write e buf sz sh \<noteq> None"
proof (cases "ucast fs < sz")
  case False
  then have "unat sz \<le> unat fs" "unat (ucast fs - sz :: u64) = unat fs - unat sz"
    by (simp_all add: word_less_nat_alt unat_ucast_fs unat_sub not_less word_le_nat_alt)
  then show ?thesis using False typed_pointer [OF assms(1), of "w_pos e"] assms
    by (auto simp: tegra_ivc_write_def area_store_def ivc_typed_def Let_def length_patch_at split: prod.splits)
qed (use assms in \<open>simp add: tegra_ivc_write_def ivc_typed_def\<close>)

lemma window_fits:
  fixes off count :: u64
  assumes "\<not> (off > ucast fs \<or> off + count > ucast fs)" "unat off + unat count < 2 ^ 64"
  shows "unat off + unat count \<le> unat fs"
  using assms by (simp add: word_less_nat_alt unat_ucast_fs unat_plus_if_size word_size)

lemma typed_peek:
  assumes "ivc_typed a b n fs e" "length (area (sh a)) = unat n * unat fs" "unat off + unat count < 2 ^ 64"
  shows "tegra_ivc_read_peek e off count sh \<noteq> None"
proof (cases "off > ucast fs \<or> off + count > ucast fs")
  case False
  from window_fits [OF this assms(3)] show ?thesis using False typed_pointer [OF assms(1), of "r_pos e"] assms
    by (auto simp: tegra_ivc_read_peek_def area_load_def ivc_typed_def Let_def)
qed (use assms in \<open>auto simp: tegra_ivc_read_peek_def ivc_typed_def\<close>)

lemma typed_poke:
  assumes "ivc_typed a b n fs e" "length (area (sh b)) = unat n * unat fs" "unat off + unat count < 2 ^ 64" "unat count \<le> length buf"
  shows "tegra_ivc_write_poke e buf off count sh \<noteq> None"
proof (cases "off > ucast fs \<or> off + count > ucast fs")
  case False
  from window_fits [OF this assms(3)] show ?thesis using False typed_pointer [OF assms(1), of "w_pos e"] assms
    by (auto simp: tegra_ivc_write_poke_def area_store_def ivc_typed_def Let_def)
qed (use assms in \<open>auto simp: tegra_ivc_write_poke_def ivc_typed_def\<close>)

end

text \<open>
  (C11) One end stays well typed whatever its peer does. After any sequence of calls, each of them on shared memory with
  arbitrary contents, counters and states included, both positions name a frame of the channel and the geometry is the
  one it was opened with; hence every further read, write, peek and poke stays inside the frames, and so does every
  frame handed out. (For peek and poke the sum of offset and length must not wrap around in 64 bits, which the code does
  not check.)
\<close>
theorem ivc_type_safe:
  assumes "ivc_uses a b n fs e" "0 < unat n"
    and "length (area (sh a)) = unat n * unat fs" "length (area (sh b)) = unat n * unat fs"
    and "unat sz \<le> length buf" "unat off + unat sz < 2 ^ 64"
  shows "nframes e = n \<and> frame_size e = fs \<and> unat (w_pos e) < unat n \<and> unat (r_pos e) < unat n \<and>
    tegra_ivc_read e m sh \<noteq> None \<and> tegra_ivc_write e buf sz sh \<noteq> None \<and>
    tegra_ivc_read_peek e off sz sh \<noteq> None \<and> tegra_ivc_write_poke e buf off sz sh \<noteq> None \<and>
    pred_option (\<lambda>p. p + unat fs \<le> unat n * unat fs) (tegra_ivc_read_get_next_frame e sh) \<and>
    pred_option (\<lambda>p. p + unat fs \<le> unat n * unat fs) (tegra_ivc_write_get_next_frame e sh)"
proof -
  have r: "ivc_ring n fs" using ivc_uses_fits [OF assms(1)] assms(2) by unfold_locales
  have t: "ivc_typed a b n fs e" by (rule ivc_uses_typed [OF assms(1,2)])
  note ok = ivc_ring.typed_read [where sh = sh, OF r t assms(3)] ivc_ring.typed_write [where sh = sh, OF r t assms(4,5)]
    ivc_ring.typed_peek [where sh = sh, OF r t assms(3,6)] ivc_ring.typed_poke [where sh = sh, OF r t assms(4,6,5)]
  show ?thesis using ok t ivc_ring.typed_pointer [OF r t]
    by (simp add: ivc_typed_def tegra_ivc_read_get_next_frame_def tegra_ivc_write_get_next_frame_def)
qed

theorem ivc_type_safe_witness:
  "(\<exists>e. tegra_ivc_write (bpmp_end 0x4004f000 0x4004e000) [1] 1
      (\<lambda>_. \<lparr>w_count = 9, ch_state = 0, r_count = 9, area = replicate 256 0\<rparr>) = Some (1, e) \<and>
    tegra_ivc_read (fst e) 256 (\<lambda>_. \<lparr>w_count = 0, ch_state = 0, r_count = 0xFFFFFFFF, area = replicate 256 0\<rparr>) \<noteq> None)"
proof -
  let ?i = "bpmp_end 0x4004f000 0x4004e000"
  let ?m = "\<lambda>_. \<lparr>w_count = 9, ch_state = 0, r_count = 9, area = replicate 256 0\<rparr> :: ivc_channel_header"
  let ?h = "\<lambda>_. \<lparr>w_count = 0, ch_state = 0, r_count = 0xFFFFFFFF, area = replicate 256 0\<rparr> :: ivc_channel_header"
  have u: "ivc_uses 0x4004f000 0x4004e000 1 256 ?i" by (rule ivc_uses.opens [OF bpmp_init(1)])
  obtain e sh where w: "tegra_ivc_write ?i [1] 1 ?m = Some (1, e, sh)"
    by (simp add: bpmp_end_def tegra_ivc_align_def tegra_ivc_init_def check_ivc_params_def blank_ivc_def tegra_ivc_write_def ivc_check_write_def
      ivc_channel_full_def ivc_frame_pointer_def area_store_def tx_done_def ivc_advance_tx_def ivc_notify_def int_of_size_def Let_def length_patch_at)
  have "tegra_ivc_read e 256 ?h \<noteq> None"
    using ivc_type_safe [OF ivc_uses.writes [OF u w], of ?h "0 :: u64" "[]" 0 256] by simp
  with w show ?thesis by (metis fst_conv)
qed

end
