(* ===== verification/Cboot_Bpmp.thy ===== *)
theory Cboot_Bpmp
  imports Cboot_Ivclink Cboot_Error
begin

text \<open>
  Requests to the boot and power management processor, \<^verbatim>\<open>common/lib/ipc/tegrabl_bpmp_fw_interface.c\<close>: a client of the
  channels that sends one frame and polls for the answer. The firmware at the other end is a parameter.
\<close>


section \<open>Requests to the power management processor\<close>

text \<open>
  The client of the channel, \<^verbatim>\<open>tegrabl_bpmp_fw_interface.c\<close>. The processor at the other end is a parameter: what it has
  done to its end and to the shared memory when a delay of the waiting loop is over.
\<close>

abbreviation (input) FLAG_DO_ACK :: u32 where "FLAG_DO_ACK \<equiv> 1"
abbreviation (input) TIMEOUT_RESPONSE_FROM_BPMP :: nat where "TIMEOUT_RESPONSE_FROM_BPMP \<equiv> 1000000"
abbreviation (input) ERR_TIMEOUT :: u32 where "ERR_TIMEOUT \<equiv> 0x06"
abbreviation (input) ERR_INVALID_STATE :: u32 where "ERR_INVALID_STATE \<equiv> 0x15"

record bpmp_ipc =
  ipc_channel :: ivc
  ib :: "nat option"
  ob :: "nat option"
  ipc_mem :: ivc_mem
  ipc_peer :: ivc

type_synonym bpmp = "nat \<Rightarrow> ivc \<times> ivc_mem \<Rightarrow> ivc \<times> ivc_mem"

definition tegrabl_ccplex_bpmp_getnext_outframe :: "bpmp_ipc \<Rightarrow> nat option \<times> bpmp_ipc" where
  "tegrabl_ccplex_bpmp_getnext_outframe c =
     (let p = tegra_ivc_write_get_next_frame (ipc_channel c) (ipc_mem c) in (p, c\<lparr>ob := p\<rparr>))"

definition tegrabl_ccpelx_bpmp_signal_slave :: "bpmp_ipc \<Rightarrow> bpmp_ipc" where
  "tegrabl_ccpelx_bpmp_signal_slave c =
     (case tegra_ivc_write_advance (ipc_channel c) (ipc_mem c) of (_, i, sh) \<Rightarrow> c\<lparr>ipc_channel := i, ipc_mem := sh\<rparr>)"

definition tegrabl_ccplex_bpmp_free_master :: "bpmp_ipc \<Rightarrow> u32 \<times> bpmp_ipc" where
  "tegrabl_ccplex_bpmp_free_master c =
     (case tegra_ivc_read_advance (ipc_channel c) (ipc_mem c) of (e, i, sh) \<Rightarrow>
        (if e \<noteq> 0 then ERR_INVALID_STATE else TEGRABL_NO_ERROR, c\<lparr>ipc_channel := i, ipc_mem := sh\<rparr>))"

definition tegrabl_ccplex_bpmp_slave_acked :: "bpmp_ipc \<Rightarrow> u32 \<times> bpmp_ipc" where
  "tegrabl_ccplex_bpmp_slave_acked c =
     (let p = tegra_ivc_read_get_next_frame (ipc_channel c) (ipc_mem c)
      in (if p = None then ERR_INVALID_STATE else TEGRABL_NO_ERROR, c\<lparr>ib := p\<rparr>))"

fun wait_loop :: "bpmp \<Rightarrow> nat \<Rightarrow> nat \<Rightarrow> bpmp_ipc \<Rightarrow> u32 \<times> bpmp_ipc" where
  "wait_loop bpmp t 0 c = (ERR_TIMEOUT, c)"
| "wait_loop bpmp t (Suc timeout) c =
     (case tegrabl_ccplex_bpmp_slave_acked c of (e, c1) \<Rightarrow>
        if e = TEGRABL_NO_ERROR then (TEGRABL_NO_ERROR, c1)
        else case bpmp t (ipc_peer c1, ipc_mem c1) of (j, sh) \<Rightarrow> wait_loop bpmp (t + 1) timeout (c1\<lparr>ipc_peer := j, ipc_mem := sh\<rparr>))"

definition tegrabl_ccplex_bpmp_wait_for_slave_ack :: "bpmp \<Rightarrow> bpmp_ipc \<Rightarrow> u32 \<times> bpmp_ipc" where
  "tegrabl_ccplex_bpmp_wait_for_slave_ack bpmp c = wait_loop bpmp 0 TIMEOUT_RESPONSE_FROM_BPMP c"

text \<open>The three assignments to the frame: the request number, the flags and the data.\<close>

definition fill_frame :: "nat \<Rightarrow> u32 \<Rightarrow> bytes \<Rightarrow> ivc_channel_header \<Rightarrow> ivc_channel_header option" where
  "fill_frame p mrq data ch =
     (case area_store p (le_bytes 4 mrq) ch of None \<Rightarrow> None
      | Some ch1 \<Rightarrow> (case area_store (p + 4) (le_bytes 4 FLAG_DO_ACK) ch1 of None \<Rightarrow> None
                     | Some ch2 \<Rightarrow> area_store (p + 8) data ch2))"

definition tegrabl_ccplex_bpmp_xfer ::
  "bpmp \<Rightarrow> bytes option \<Rightarrow> bool \<Rightarrow> u32 \<Rightarrow> u32 \<Rightarrow> u32 \<Rightarrow> bpmp_ipc \<Rightarrow> (u32 \<times> bytes \<times> bpmp_ipc) option" where
  "tegrabl_ccplex_bpmp_xfer bpmp p_out p_in size_out size_in mrq c =
     (case p_out of None \<Rightarrow> Some (- 1, [], c)
      | Some out \<Rightarrow>
          (case tegrabl_ccplex_bpmp_getnext_outframe c of
             (None, c1) \<Rightarrow> Some (ERR_INVALID, [], c1)
           | (Some p, c1) \<Rightarrow>
               if length out < unat size_out then None
               else (case fill_frame p mrq (take (unat size_out) out) (ipc_mem c1 (tx_channel (ipc_channel c1))) of
                       None \<Rightarrow> None
                     | Some ch \<Rightarrow>
                         let c2 = tegrabl_ccpelx_bpmp_signal_slave (c1\<lparr>ipc_mem := (ipc_mem c1)(tx_channel (ipc_channel c1) := ch)\<rparr>)
                         in case tegrabl_ccplex_bpmp_wait_for_slave_ack bpmp c2 of (e, c3) \<Rightarrow>
                              if e \<noteq> TEGRABL_NO_ERROR then Some (ERR_INVALID, [], c3)
                              else case ib c3 of
                                     None \<Rightarrow> Some (ERR_INVALID, [], c3)
                                   | Some r \<Rightarrow>
                                       (case (if size_in \<noteq> 0 \<and> p_in
                                              then area_load (ipc_mem c3 (rx_channel (ipc_channel c3))) (r + 8) (unat size_in) else Some []) of
                                          None \<Rightarrow> None
                                        | Some buf \<Rightarrow>
                                            (case tegrabl_ccplex_bpmp_free_master c3 of (e, c4) \<Rightarrow>
                                               if e \<noteq> TEGRABL_NO_ERROR then Some (ERR_INVALID, buf, c4)
                                               else Some (TEGRABL_NO_ERROR, buf, c4))))))"


text \<open>What the firmware at the other end does with a request: it takes the frame and answers it with one of its own.\<close>

definition serve :: "(bytes \<Rightarrow> bytes) \<Rightarrow> ivc \<times> ivc_mem \<Rightarrow> ivc \<times> ivc_mem" where
  "serve f = (\<lambda>(j, sh).
     case tegra_ivc_read j (ucast (frame_size j)) sh of None \<Rightarrow> (j, sh)
     | Some (r, req, j1, sh1) \<Rightarrow>
         if r < 0 then (j1, sh1)
         else case tegra_ivc_write j1 (f req) (ucast (frame_size j1)) sh1 of None \<Rightarrow> (j1, sh1) | Some (_, j2, sh2) \<Rightarrow> (j2, sh2))"

definition answers :: "(bytes \<Rightarrow> bytes) \<Rightarrow> nat \<Rightarrow> bpmp \<Rightarrow> bool" where
  "answers f k bpmp \<longleftrightarrow> (\<forall>t < k. \<forall>s. bpmp t s = s) \<and> bpmp k = serve f"

definition both_ends :: "u32 \<Rightarrow> u32 \<Rightarrow> bpmp_ipc \<Rightarrow> bytes list \<Rightarrow> bytes list \<Rightarrow> bool" where
  "both_ends n fs c out inp \<longleftrightarrow> shaped n fs (ipc_channel c) (ipc_mem c) \<and> shaped n fs (ipc_peer c) (ipc_mem c) \<and>
     rx_channel (ipc_peer c) = tx_channel (ipc_channel c) \<and> rx_channel (ipc_channel c) = tx_channel (ipc_peer c) \<and>
     ch_state (ipc_mem c (tx_channel (ipc_channel c))) = ivc_state_established \<and> ch_state (ipc_mem c (tx_channel (ipc_peer c))) = ivc_state_established \<and>
     holds (unat n) (unat fs) (ipc_mem c (tx_channel (ipc_channel c))) (w_pos (ipc_channel c)) (r_pos (ipc_peer c)) out \<and>
     holds (unat n) (unat fs) (ipc_mem c (tx_channel (ipc_peer c))) (w_pos (ipc_peer c)) (r_pos (ipc_channel c)) inp"

lemma patch_at_pad:
  assumes "p + k \<le> length a" "length d \<le> k"
  shows "patch_at p d a = patch_at p (d @ take (k - length d) (drop (p + length d) a)) a"
proof -
  have "drop (p + length d) a = take (k - length d) (drop (p + length d) a) @ drop (k - length d) (drop (p + length d) a)" by (rule append_take_drop_id [symmetric])
  also have "drop (k - length d) (drop (p + length d) a) = drop (p + k) a" using assms(2) by (simp add: ac_simps)
  finally show ?thesis using assms by (simp add: patch_at_def)
qed

lemma fill_frame_stores:
  assumes "p + 8 + length data \<le> length (area ch)"
  shows "fill_frame p mrq data ch = Some (ch\<lparr>area := patch_at p (le_bytes 4 mrq @ le_bytes 4 FLAG_DO_ACK @ data) (area ch)\<rparr>)"
proof -
  let ?m = "le_bytes 4 mrq" and ?f = "le_bytes 4 FLAG_DO_ACK"
  have "patch_at (p + 4) ?f (patch_at p ?m (area ch)) = patch_at p (?m @ ?f) (area ch)"
    using patch_at_append [of p ?m ?f "area ch"] assms by simp
  moreover have "patch_at (p + 8) data (patch_at p (?m @ ?f) (area ch)) = patch_at p ((?m @ ?f) @ data) (area ch)"
    using patch_at_append [of p "?m @ ?f" data "area ch"] assms by simp
  ultimately show ?thesis using assms by (simp add: fill_frame_def area_store_def length_patch_at)
qed

context ivc_frames
begin

text \<open>The frame that a request fills and sends.\<close>

lemma request_sent:
  assumes b: "both_ends n fs c [] inp" and d: "8 + length data \<le> unat fs"
  shows "\<exists>c1 p ch rest. tegrabl_ccplex_bpmp_getnext_outframe c = (Some p, c1) \<and>
     fill_frame p mrq data (ipc_mem c1 (tx_channel (ipc_channel c1))) = Some ch \<and>
     both_ends n fs (tegrabl_ccpelx_bpmp_signal_slave (c1\<lparr>ipc_mem := (ipc_mem c1)(tx_channel (ipc_channel c1) := ch)\<rparr>))
       [le_bytes 4 mrq @ le_bytes 4 FLAG_DO_ACK @ data @ rest] inp \<and> length rest = unat fs - 8 - length data"
proof -
  let ?i = "ipc_channel c" and ?sh = "ipc_mem c" and ?hd = "le_bytes 4 mrq @ le_bytes 4 FLAG_DO_ACK @ data"
  have sh: "shaped n fs ?i ?sh" and h: "holds (unat n) (unat fs) (?sh (tx_channel ?i)) (w_pos ?i) (r_pos (ipc_peer c)) []"
    and e: "ch_state (?sh (tx_channel ?i)) = ivc_state_established" and r: "rx_channel (ipc_peer c) = tx_channel ?i" "rx_channel ?i = tx_channel (ipc_peer c)"
    using b by (auto simp: both_ends_def)
  have g: "nframes ?i = n" "frame_size ?i = fs" "length (area (?sh (tx_channel ?i))) = unat n * unat fs" "rx_channel ?i \<noteq> tx_channel ?i" using sh by (auto simp: shaped_def)
  define p where "p = unat (w_pos ?i) * unat fs"
  have wp: "unat (w_pos ?i) < unat n" by (rule wp_bound [OF h])
  have pf: "ivc_frame_pointer ?i (w_pos ?i) = p" unfolding p_def by (rule pointer [OF sh wp])
  have room: "p + unat fs \<le> length (area (?sh (tx_channel ?i)))" using frame_fits [OF wp] g(3) by (simp add: p_def)
  have nf: "\<not> ivc_channel_full ?i (?sh (tx_channel ?i))" using full_iff [OF sh h] n_pos by simp
  then have cw: "ivc_check_write ?i ?sh = 0" using e by (simp add: ivc_check_write_def)
  define rest where "rest = take (unat fs - length ?hd) (drop (p + length ?hd) (area (?sh (tx_channel ?i))))"
  have lr: "length rest = unat fs - 8 - length data" using room by (simp add: rest_def)
  define ch where "ch = (?sh (tx_channel ?i))\<lparr>area := patch_at p (?hd @ rest) (area (?sh (tx_channel ?i)))\<rparr>"
  have ff: "fill_frame p mrq data (?sh (tx_channel ?i)) = Some ch"
    using fill_frame_stores [of p data "?sh (tx_channel ?i)" mrq] patch_at_pad [of p "unat fs" "area (?sh (tx_channel ?i))" ?hd] room d
    by (simp add: ch_def rest_def)
  have lf: "length (?hd @ rest) = unat fs" using lr d by simp
  have put: "holds (unat n) (unat fs) (ch\<lparr>w_count := w_count ch + 1\<rparr>) (if w_pos ?i = n - 1 then 0 else w_pos ?i + 1) (r_pos (ipc_peer c)) ([] @ [?hd @ rest])"
    by (rule holds_put [OF h g(3) _ lf]) (use n_pos in \<open>simp_all add: ch_def p_def\<close>)
  have la: "length (area ch) = unat n * unat fs" using room lf g(3) by (simp add: ch_def length_patch_at)
  have "ivc_check_write ?i (?sh(tx_channel ?i := ch)) = 0" using nf e by (simp add: ivc_check_write_def ch_def ivc_channel_full_def)
  then have "both_ends n fs (tegrabl_ccpelx_bpmp_signal_slave (c\<lparr>ob := Some p, ipc_mem := ?sh(tx_channel ?i := ch)\<rparr>)) [?hd @ rest] inp"
    using b put la r g unfolding both_ends_def
    by (auto simp: tegrabl_ccpelx_bpmp_signal_slave_def tegra_ivc_write_advance_def tx_done_def ivc_advance_tx_def shaped_def ch_def)
  then show ?thesis using cw pf ff lr
    by (intro exI [of _ "c\<lparr>ob := Some p\<rparr>"] exI [of _ p] exI [of _ ch] exI [of _ rest])
      (simp add: tegrabl_ccplex_bpmp_getnext_outframe_def tegra_ivc_write_get_next_frame_def Let_def)
qed

end


context ivc_frames
begin

lemma acked_iff:
  assumes "both_ends n fs c out inp"
  shows "tegrabl_ccplex_bpmp_slave_acked c =
    (if inp = [] then (ERR_INVALID_STATE, c\<lparr>ib := None\<rparr>) else (TEGRABL_NO_ERROR, c\<lparr>ib := Some (unat (r_pos (ipc_channel c)) * unat fs)\<rparr>))"
proof -
  let ?i = "ipc_channel c" and ?sh = "ipc_mem c"
  have sh: "shaped n fs ?i ?sh" and h: "holds (unat n) (unat fs) (?sh (rx_channel ?i)) (w_pos (ipc_peer c)) (r_pos ?i) inp"
    and e: "ch_state (?sh (tx_channel ?i)) = ivc_state_established" using assms by (auto simp: both_ends_def)
  have "ivc_frame_pointer ?i (r_pos ?i) = unat (r_pos ?i) * unat fs" by (rule pointer [OF sh]) (use h in \<open>simp add: holds_def\<close>)
  then show ?thesis using empty_iff [OF sh h] e
    by (simp add: tegrabl_ccplex_bpmp_slave_acked_def tegra_ivc_read_get_next_frame_def ivc_check_read_def Let_def)
qed

lemma both_ends_ib: "both_ends n fs (c\<lparr>ib := x\<rparr>) out inp = both_ends n fs c out inp"
  by (simp add: both_ends_def)

lemma served:
  assumes b: "both_ends n fs c [req] []" and f: "length (f req) = unat fs" "length req = unat fs" and s: "serve f (ipc_peer c, ipc_mem c) = (j, sh)"
  shows "both_ends n fs (c\<lparr>ipc_peer := j, ipc_mem := sh\<rparr>) [] [f req]"
proof -
  let ?i = "ipc_channel c" and ?j = "ipc_peer c" and ?sh = "ipc_mem c"
  have sj: "shaped n fs ?j ?sh" and hj: "holds (unat n) (unat fs) (?sh (rx_channel ?j)) (w_pos ?i) (r_pos ?j) [req]"
    and ej: "ch_state (?sh (tx_channel ?j)) = ivc_state_established" and r: "rx_channel ?j = tx_channel ?i" "rx_channel ?i = tx_channel ?j" "tx_channel ?j \<noteq> tx_channel ?i"
    and hi: "holds (unat n) (unat fs) (?sh (tx_channel ?j)) (w_pos ?j) (r_pos ?i) []"
    using b by (auto simp: both_ends_def shaped_def)
  define ch where "ch = (?sh (rx_channel ?j))\<lparr>r_count := r_count (?sh (rx_channel ?j)) + 1\<rparr>"
  obtain x where rd: "tegra_ivc_read ?j (ucast fs) ?sh = Some (int_of_size (ucast fs), take (unat fs) req,
      ivc_notify x (?j\<lparr>r_pos := if r_pos ?j = n - 1 then 0 else r_pos ?j + 1\<rparr>), ?sh(rx_channel ?j := ch))"
    using read_gets [OF sj hj ej, of "ucast fs"] by (auto simp: unat_ucast_fs ch_def)
  define j1 where "j1 = ivc_notify x (?j\<lparr>r_pos := if r_pos ?j = n - 1 then 0 else r_pos ?j + 1\<rparr>)"
  have j1: "w_pos j1 = w_pos ?j" "tx_channel j1 = tx_channel ?j" "rx_channel j1 = rx_channel ?j" "frame_size j1 = frame_size ?j" by (simp_all add: j1_def)
  have g1: "holds (unat n) (unat fs) ch (w_pos ?i) (r_pos j1) []" unfolding j1_def using holds_get [OF hj ch_def] by simp
  have s1: "shaped n fs j1 (?sh(rx_channel ?j := ch))" using sj by (auto simp: shaped_def j1_def ch_def)
  have h1: "holds (unat n) (unat fs) ((?sh(rx_channel ?j := ch)) (tx_channel j1)) (w_pos j1) (r_pos ?i) []" using hi r by (simp add: j1_def)
  have e1: "ch_state ((?sh(rx_channel ?j := ch)) (tx_channel j1)) = ivc_state_established" using ej r by (simp add: j1_def)
  have "unat (ucast fs :: u64) \<le> length (f req)" using f by (simp add: unat_ucast_fs)
  note wr = write_puts [OF s1 h1 e1 order_refl this]
  have pad: "padded fs (f req) (ucast fs) = f req" using f by (simp add: padded_def unat_ucast_fs)
  define ch2 where "ch2 = (?sh (tx_channel ?j))\<lparr>area := patch_at (unat (w_pos ?j) * unat fs) (f req) (area (?sh (tx_channel ?j))), w_count := w_count (?sh (tx_channel ?j)) + 1\<rparr>"
  obtain y where w: "tegra_ivc_write j1 (f req) (ucast fs) (?sh(rx_channel ?j := ch)) = Some (int_of_size (ucast fs),
      ivc_notify y (j1\<lparr>w_pos := if w_pos ?j = n - 1 then 0 else w_pos ?j + 1\<rparr>), ?sh(rx_channel ?j := ch, tx_channel ?j := ch2))"
    using wr [unfolded j1] n_pos pad r by (auto simp: ch2_def)
  have put: "holds (unat n) (unat fs) ch2 (if w_pos ?j = n - 1 then 0 else w_pos ?j + 1) (r_pos ?i) ([] @ [f req])"
    by (rule holds_put [OF hi _ _ f(1)]) (use sj n_pos in \<open>auto simp: shaped_def ch2_def\<close>)
  have la: "length (area ch2) = unat n * unat fs"
    using frame_fits [OF wp_bound [OF hi]] sj f(1) by (simp add: ch2_def shaped_def length_patch_at)
  have "0 \<le> int_of_size (ucast fs)" using int_of_size_val [of "ucast fs"] small by (simp add: unat_ucast_fs)
  then have "(j, sh) = (ivc_notify y (j1\<lparr>w_pos := if w_pos ?j = n - 1 then 0 else w_pos ?j + 1\<rparr>), ?sh(rx_channel ?j := ch, tx_channel ?j := ch2))"
    using s rd [folded j1_def] w f(2) sj j1 by (simp add: serve_def shaped_def)
  then show ?thesis using b g1 put la r unfolding both_ends_def by (auto simp: shaped_def ch_def ch2_def j1_def)
qed

end


context ivc_frames
begin

lemma wait_answered:
  assumes "both_ends n fs c [req] []" "length (f req) = unat fs" "length req = unat fs"
    and "\<forall>u. t \<le> u \<and> u < t + d \<longrightarrow> (\<forall>s. bpmp u s = s)" "bpmp (t + d) = serve f" "d + 2 \<le> timeout"
  shows "\<exists>c'. wait_loop bpmp t timeout c = (TEGRABL_NO_ERROR, c') \<and> both_ends n fs c' [] [f req] \<and> ib c' = Some (unat (r_pos (ipc_channel c')) * unat fs)"
  using assms
proof (induction d arbitrary: t timeout c)
  case 0
  then obtain k where k: "timeout = Suc (Suc k)" by (metis add_2_eq_Suc add_0 le_Suc_ex)
  obtain j sh where s: "serve f (ipc_peer c, ipc_mem c) = (j, sh)" by fastforce
  define c1 where "c1 = c\<lparr>ib := None, ipc_peer := j, ipc_mem := sh\<rparr>"
  have "c1 = c\<lparr>ipc_peer := j, ipc_mem := sh\<rparr>\<lparr>ib := None\<rparr>" by (simp add: c1_def)
  then have b1: "both_ends n fs c1 [] [f req]" using served [OF 0(1-3) s] by (simp add: both_ends_ib)
  show ?case using acked_iff [OF 0(1)] acked_iff [OF b1] 0(5) s b1 both_ends_ib
    by (simp add: k c1_def [symmetric])
next
  case (Suc d)
  then obtain k where k: "timeout = Suc k" "d + 2 \<le> k" by (cases timeout) auto
  have n: "bpmp t s = s" for s using Suc.prems(4) by (cases s) simp
  have b1: "both_ends n fs (c\<lparr>ib := None\<rparr>) [req] []" using Suc.prems(1) by (simp add: both_ends_ib)
  have "\<forall>u. t + 1 \<le> u \<and> u < t + 1 + d \<longrightarrow> (\<forall>s. bpmp u s = s)" "bpmp (t + 1 + d) = serve f" using Suc.prems(4,5) by auto
  from Suc.IH [OF b1 Suc.prems(2,3) this k(2)] show ?case using acked_iff [OF Suc.prems(1)] n k(1) by simp
qed

lemma response_taken:
  assumes b: "both_ends n fs c [] [g]" and i: "ib c = Some (unat (r_pos (ipc_channel c)) * unat fs)" and s: "8 + unat size_in \<le> unat fs" "length g = unat fs"
  shows "\<exists>c'. area_load (ipc_mem c (rx_channel (ipc_channel c))) (unat (r_pos (ipc_channel c)) * unat fs + 8) (unat size_in) = Some (take (unat size_in) (drop 8 g)) \<and>
    tegrabl_ccplex_bpmp_free_master c = (TEGRABL_NO_ERROR, c') \<and> both_ends n fs c' [] []"
proof -
  let ?i = "ipc_channel c" and ?sh = "ipc_mem c" and ?p = "unat (r_pos (ipc_channel c)) * unat fs"
  have sh: "shaped n fs ?i ?sh" and h: "holds (unat n) (unat fs) (?sh (rx_channel ?i)) (w_pos (ipc_peer c)) (r_pos ?i) [g]"
    and e: "ch_state (?sh (tx_channel ?i)) = ivc_state_established" and r: "rx_channel (ipc_peer c) = tx_channel ?i" "rx_channel ?i = tx_channel (ipc_peer c)"
    using b by (auto simp: both_ends_def)
  have g: "nframes ?i = n" "length (area (?sh (rx_channel ?i))) = unat n * unat fs" "rx_channel ?i \<noteq> tx_channel ?i" using sh by (auto simp: shaped_def)
  have rp: "unat (r_pos ?i) < unat n" and fr: "take (unat fs) (drop ?p (area (?sh (rx_channel ?i)))) = g"
    using h by (auto simp: holds_def frame_of_def)
  have "take (unat size_in) (drop (?p + 8) (area (?sh (rx_channel ?i)))) = take (unat size_in) (drop 8 g)"
    using s by (simp add: drop_take min_absorb1 add.commute flip: fr)
  then have "area_load (?sh (rx_channel ?i)) (?p + 8) (unat size_in) = Some (take (unat size_in) (drop 8 g))"
    using frame_fits [OF rp] g(2) s by (simp add: area_load_def)
  moreover have "\<not> ivc_channel_empty ?i (?sh (rx_channel ?i))" using empty_iff [OF sh h] by simp
  then have "ivc_check_read ?i ?sh = 0" using e by (simp add: ivc_check_read_def)
  moreover have "holds (unat n) (unat fs) ((?sh (rx_channel ?i))\<lparr>r_count := r_count (?sh (rx_channel ?i)) + 1\<rparr>) (w_pos (ipc_peer c))
      (if r_pos ?i = n - 1 then 0 else r_pos ?i + 1) []" by (rule holds_get [OF h refl])
  ultimately show ?thesis using b r g unfolding both_ends_def
    by (auto simp: tegrabl_ccplex_bpmp_free_master_def tegra_ivc_read_advance_def rx_done_def ivc_advance_rx_def shaped_def)
qed

lemma xfer_answered:
  assumes b: "both_ends n fs c [] []" and a: "answers f k bpmp" "k + 2 \<le> TIMEOUT_RESPONSE_FROM_BPMP" "\<And>x. length x = unat fs \<Longrightarrow> length (f x) = unat fs"
    and s: "8 + unat size_out \<le> unat fs" "8 + unat size_in \<le> unat fs" "unat size_out \<le> length out"
  shows "\<exists>c' rest. tegrabl_ccplex_bpmp_xfer bpmp (Some out) True size_out size_in mrq c =
      Some (TEGRABL_NO_ERROR, take (unat size_in) (drop 8 (f (le_bytes 4 mrq @ le_bytes 4 FLAG_DO_ACK @ take (unat size_out) out @ rest))), c') \<and>
    8 + unat size_out + length rest = unat fs \<and> both_ends n fs c' [] []"
proof -
  let ?d = "take (unat size_out) out"
  have ld: "8 + length ?d \<le> unat fs" "length ?d = unat size_out" using s by auto
  obtain c1 p ch rest where r: "tegrabl_ccplex_bpmp_getnext_outframe c = (Some p, c1)" "fill_frame p mrq ?d (ipc_mem c1 (tx_channel (ipc_channel c1))) = Some ch"
     "both_ends n fs (tegrabl_ccpelx_bpmp_signal_slave (c1\<lparr>ipc_mem := (ipc_mem c1)(tx_channel (ipc_channel c1) := ch)\<rparr>))
       [le_bytes 4 mrq @ le_bytes 4 FLAG_DO_ACK @ ?d @ rest] []" "length rest = unat fs - 8 - length ?d"
    using request_sent [OF b ld(1)] by blast
  define req where "req = le_bytes 4 mrq @ le_bytes 4 FLAG_DO_ACK @ ?d @ rest"
  have lq: "length req = unat fs" using r(4) ld by (simp add: req_def)
  obtain c3 where c3: "tegrabl_ccplex_bpmp_wait_for_slave_ack bpmp (tegrabl_ccpelx_bpmp_signal_slave (c1\<lparr>ipc_mem := (ipc_mem c1)(tx_channel (ipc_channel c1) := ch)\<rparr>)) = (TEGRABL_NO_ERROR, c3)"
      "both_ends n fs c3 [] [f req]" "ib c3 = Some (unat (r_pos (ipc_channel c3)) * unat fs)"
    using wait_answered [where f = f, OF r(3) [folded req_def] a(3) [OF lq] lq, of 0 k bpmp TIMEOUT_RESPONSE_FROM_BPMP] a(1,2) by (auto simp: answers_def tegrabl_ccplex_bpmp_wait_for_slave_ack_def)
  obtain c4 where c4: "area_load (ipc_mem c3 (rx_channel (ipc_channel c3))) (unat (r_pos (ipc_channel c3)) * unat fs + 8) (unat size_in) = Some (take (unat size_in) (drop 8 (f req)))"
      "tegrabl_ccplex_bpmp_free_master c3 = (TEGRABL_NO_ERROR, c4)" "both_ends n fs c4 [] []"
    using response_taken [OF c3(2,3) s(2) a(3) [OF lq]] by blast
  have "tegrabl_ccplex_bpmp_xfer bpmp (Some out) True size_out size_in mrq c = Some (TEGRABL_NO_ERROR, take (unat size_in) (drop 8 (f req)), c4)"
    using r(1,2) c3 c4 s(3) by (cases "size_in = 0") (simp_all add: tegrabl_ccplex_bpmp_xfer_def Let_def)
  then show ?thesis using c4(3) r(4) ld unfolding req_def by (intro exI [of _ c4] exI [of _ rest]) simp
qed

end


definition ipc_of :: "ivc_link \<Rightarrow> bpmp_ipc" where
  "ipc_of lk = \<lparr>ipc_channel = ends lk True, ib = None, ob = None, ipc_mem = shm lk, ipc_peer = ends lk False\<rparr>"

lemma link_runs_determ: "link_runs cs lk l1 \<Longrightarrow> link_runs cs lk l2 \<Longrightarrow> l1 = l2"
proof (induction cs lk l1 rule: link_runs.induct)
  case (step c s lk lk1 cs lk2)
  then show ?case by (auto simp: link_runs_Cons)
qed simp

context ivc_opened
begin

lemma idle_ends:
  assumes w: "wired n fs lk" and p: "\<And>s. own_state lk s = ivc_state_established \<and> pristine lk s"
  shows "both_ends n fs (ipc_of lk) [] []"
proof -
  note e = wired_ends [OF w, of True]
  have "shaped n fs (ends lk s) (shm lk)" for s using w by (simp add: wired_def)
  then show ?thesis using p [of True] p [of False] e n_pos
    by (simp add: both_ends_def ipc_of_def own_state_def pristine_def holds_def)
qed

lemma recovered_idle:
  assumes "link_runs ([(True, Reset), (False, Reset)] @ cs @ [(t, Reset)] @ rounds [s1, s2, s3]) lk0 lk"
  shows "both_ends n fs (ipc_of lk) [] []"
proof -
  obtain m where m: "link_runs ([(True, Reset), (False, Reset)] @ cs @ [(t, Reset)]) lk0 m" "link_runs (rounds [s1, s2, s3]) m lk"
    using assms unfolding append_assoc [symmetric] link_runs_append by blast
  obtain l where l: "link_runs ([(True, Reset), (False, Reset)] @ cs) lk0 l" "link_call t Reset l = Some m"
    using m(1) by (auto simp: link_runs_append link_runs_Cons simp flip: append_assoc)
  then have "link_inv n fs m" "own_state m t = ivc_state_sync" using reset_inv [OF reachable_inv [OF l(1)], of t] by auto
  from three_rounds [OF this] obtain lk' where lk': "link_runs (rounds [s1, s2, s3]) m lk'" "wired n fs lk'"
      "\<And>s. own_state lk' s = ivc_state_established \<and> pristine lk' s" by blast
  have "lk' = lk" by (rule link_runs_determ [OF lk'(1) m(2)])
  then show ?thesis using idle_ends [OF lk'(2,3)] by simp
qed

end




section \<open>Connecting\<close>

text \<open>
  The registers of the doorbells: the value read at each poll of the register that the firmware sets when it is ready is
  a parameter; the register that lets the firmware ring back is part of the state.
\<close>

abbreviation (input) ERR_NO_ACCESS :: u32 where "ERR_NO_ACCESS \<equiv> 0x0c"
abbreviation (input) ERR_BUSY :: u32 where "ERR_BUSY \<equiv> 0x0e"
abbreviation (input) MSG_SZ :: u64 where "MSG_SZ \<equiv> 256"
abbreviation (input) NO_OF_CHANNELS :: u32 where "NO_OF_CHANNELS \<equiv> 1"
abbreviation (input) IPC_CPU_MASTER_PHYS_BASE :: u32 where "IPC_CPU_MASTER_PHYS_BASE \<equiv> 0x4004e000"
abbreviation (input) IPC_CPU_SLAVE_PHYS_BASE :: u32 where "IPC_CPU_SLAVE_PHYS_BASE \<equiv> 0x4004f000"
abbreviation (input) IPC_CPU_MASTER_SIZE :: u64 where "IPC_CPU_MASTER_SIZE \<equiv> 4096"

definition tegrabl_enable_bpmp_to_ring_ccplex_db :: "u32 \<Rightarrow> u32" where
  "tegrabl_enable_bpmp_to_ring_ccplex_db reg = reg OR push_bit 19 1"

definition tegrabl_can_ccplex_ring_bpmpdb :: "u32 \<Rightarrow> bool" where
  "tegrabl_can_ccplex_ring_bpmpdb reg \<longleftrightarrow> reg AND push_bit 17 1 \<noteq> 0"

text \<open>The inner loop gives the number of polls so far and what is left of the time, which is unsigned.\<close>

partial_function (option) ready_loop :: "(nat \<Rightarrow> u32) \<Rightarrow> u64 \<Rightarrow> nat \<Rightarrow> u64 \<Rightarrow> (nat \<times> u64) option" where
  "ready_loop db delay_us t timeout =
     (if tegrabl_can_ccplex_ring_bpmpdb (db t) then Some (t + 1, timeout)
      else if timeout - delay_us > 0 then ready_loop db delay_us (t + 1) (timeout - delay_us)
      else Some (t + 1, timeout - delay_us))"

partial_function (option) wait_ready :: "(nat \<Rightarrow> u32) \<Rightarrow> u64 \<Rightarrow> nat \<Rightarrow> nat option" where
  "wait_ready db delay_us t =
     (case ready_loop db delay_us t 1000000 of None \<Rightarrow> None
      | Some (t1, timeout) \<Rightarrow> if timeout = 0 then wait_ready db delay_us t1 else Some t1)"

partial_function (option) notified_loop :: "bpmp \<Rightarrow> nat \<Rightarrow> bpmp_ipc \<Rightarrow> bpmp_ipc option" where
  "notified_loop bpmp t c =
     (case tegra_ivc_channel_notified (ipc_channel c) (ipc_mem c) of (r, i, sh) \<Rightarrow>
        if r = 0 then Some (c\<lparr>ipc_channel := i, ipc_mem := sh\<rparr>)
        else case bpmp t (ipc_peer c, sh) of (j, sh1) \<Rightarrow> notified_loop bpmp (t + 1) (c\<lparr>ipc_channel := i, ipc_peer := j, ipc_mem := sh1\<rparr>))"

text \<open>There is one channel, so the body of the loop over the channels runs once, with index 0.\<close>

definition connect_channel :: "bpmp \<Rightarrow> u32 \<Rightarrow> u32 \<Rightarrow> u32 \<Rightarrow> bpmp_ipc \<Rightarrow> (u32 \<times> bpmp_ipc) option" where
  "connect_channel bpmp msg_size fsize i c =
     (let rx_base = IPC_CPU_SLAVE_PHYS_BASE + fsize * i; tx_base = IPC_CPU_MASTER_PHYS_BASE + fsize * i
      in case tegra_ivc_init (ipc_channel c) (ucast rx_base) (ucast tx_base) 1 msg_size of (error, ch) \<Rightarrow>
           if error \<noteq> 0 then Some (ERR_BUSY, c\<lparr>ipc_channel := ch\<rparr>)
           else case tegra_ivc_channel_reset ch (ipc_mem c) of (ch1, sh) \<Rightarrow>
                  map_option (Pair TEGRABL_NO_ERROR) (notified_loop bpmp 0 (c\<lparr>ipc_channel := ch1, ipc_mem := sh\<rparr>)))"

definition tegrabl_connect_bpmp :: "bool \<Rightarrow> (nat \<Rightarrow> u32) \<Rightarrow> bpmp \<Rightarrow> u32 \<Rightarrow> bpmp_ipc \<Rightarrow> (u32 \<times> u32 \<times> bpmp_ipc) option" where
  "tegrabl_connect_bpmp vdk db bpmp reg c =
     (let delay_us = (if vdk then 3 else 1); reg1 = tegrabl_enable_bpmp_to_ring_ccplex_db reg
      in case wait_ready db delay_us 0 of None \<Rightarrow> None
         | Some _ \<Rightarrow>
             let msg_size = ucast (tegra_ivc_align MSG_SZ); fsize = tegra_ivc_total_queue_size msg_size
             in if ucast (fsize * NO_OF_CHANNELS) > IPC_CPU_MASTER_SIZE then Some (ERR_NO_ACCESS, reg1, c)
                else map_option (\<lambda>(e, c1). (e, reg1, c1)) (connect_channel bpmp msg_size fsize 0 c))"

definition tegrabl_ipc_init :: "bool \<Rightarrow> (nat \<Rightarrow> u32) \<Rightarrow> bpmp \<Rightarrow> u32 \<Rightarrow> bpmp_ipc \<Rightarrow> (u32 \<times> u32 \<times> bpmp_ipc) option" where
  "tegrabl_ipc_init vdk db bpmp reg c = tegrabl_connect_bpmp vdk db bpmp reg c"

declare ready_loop.simps [code] wait_ready.simps [code] notified_loop.simps [code]

lemma ready_loop_waits:
  assumes "\<forall>u. t \<le> u \<and> u < t + d \<longrightarrow> \<not> tegrabl_can_ccplex_ring_bpmpdb (db u)" "tegrabl_can_ccplex_ring_bpmpdb (db (t + d))" "0 < timeout"
  shows "ready_loop db 1 t timeout = Some (if d < unat timeout then (t + d + 1, timeout - of_nat d) else (t + unat timeout, 0))"
  using assms
proof (induction d arbitrary: t timeout)
  case 0
  then show ?case by (subst ready_loop.simps) (simp add: unat_gt_0)
next
  case (Suc d)
  have n: "\<not> tegrabl_can_ccplex_ring_bpmpdb (db t)" using Suc.prems(1) by simp
  have u: "unat (timeout - 1) = unat timeout - 1" using Suc.prems(3) by (simp add: unat_minus_one word_gt_0)
  show ?case
  proof (cases "timeout - 1 > 0")
    case True
    have "ready_loop db 1 (t + 1) (timeout - 1) = Some (if d < unat (timeout - 1) then (t + 1 + d + 1, timeout - 1 - of_nat d) else (t + 1 + unat (timeout - 1), 0))"
      by (rule Suc.IH) (use Suc.prems True in auto)
    moreover have "0 < unat timeout" using Suc.prems(3) by (simp add: word_less_nat_alt)
    ultimately show ?thesis using n True u by (subst ready_loop.simps) (auto simp: algebra_simps)
  next
    case False
    then have "timeout = 1" by (simp add: word_gt_0)
    then show ?thesis using n by (subst ready_loop.simps) simp
  qed
qed

lemma wait_ready_ends:
  assumes "tegrabl_can_ccplex_ring_bpmpdb (db k)" "t \<le> k"
  shows "\<exists>t1. wait_ready db 1 t = Some t1"
  using assms
proof (induction "k - t" arbitrary: t rule: less_induct)
  case less
  define d where "d = (LEAST d. tegrabl_can_ccplex_ring_bpmpdb (db (t + d)))"
  have ex: "tegrabl_can_ccplex_ring_bpmpdb (db (t + (k - t)))" using less.prems by simp
  have d: "tegrabl_can_ccplex_ring_bpmpdb (db (t + d))" "d \<le> k - t" 
    unfolding d_def using LeastI [of "\<lambda>d. tegrabl_can_ccplex_ring_bpmpdb (db (t + d))", OF ex] Least_le [of "\<lambda>d. tegrabl_can_ccplex_ring_bpmpdb (db (t + d))", OF ex] by auto
  have "\<not> tegrabl_can_ccplex_ring_bpmpdb (db (t + v))" if "v < d" for v using that not_less_Least unfolding d_def by blast
  then have "\<forall>u. t \<le> u \<and> u < t + d \<longrightarrow> \<not> tegrabl_can_ccplex_ring_bpmpdb (db u)" by (metis le_Suc_ex nat_add_left_cancel_less)
  from ready_loop_waits [OF this d(1), of 1000000]
  have l: "ready_loop db 1 t 1000000 = Some (if d < 1000000 then (t + d + 1, 1000000 - of_nat d) else (t + 1000000, 0))" by simp
  show ?case
  proof (cases "d < 1000000")
    case True
    then have "unat (of_nat d :: u64) \<noteq> unat (1000000 :: u64)" by (simp add: unat_of_nat)
    then have "(of_nat d :: u64) \<noteq> 1000000" by metis
    then have "(1000000 :: u64) - of_nat d \<noteq> 0" by (auto simp: right_minus_eq)
    then show ?thesis using l True by (subst wait_ready.simps) simp
  next
    case False
    then have "\<exists>t1. wait_ready db 1 (t + 1000000) = Some t1" using d(2) by (intro less.hyps) (use less.prems in auto)
    then show ?thesis using l False by (subst wait_ready.simps) simp
  qed
qed


text \<open>Both ends of the channel as a link, and firmware that handles a notification.\<close>

definition link_of :: "bpmp_ipc \<Rightarrow> ivc_link" where
  "link_of c = \<lparr>ends = case_bool (ipc_channel c) (ipc_peer c), shm = ipc_mem c, sent = \<lambda>_. [], rcvd = \<lambda>_. []\<rparr>"

definition handle_notification :: "ivc \<times> ivc_mem \<Rightarrow> ivc \<times> ivc_mem" where
  "handle_notification = (\<lambda>(j, sh). snd (tegra_ivc_channel_notified j sh))"

definition handles :: "nat \<Rightarrow> bpmp \<Rightarrow> bool" where
  "handles k bpmp \<longleftrightarrow> (\<forall>t < k. \<forall>s. bpmp t s = s) \<and> bpmp k = handle_notification"

lemma ends_link_of [simp]: "ends (link_of c) True = ipc_channel c" "ends (link_of c) False = ipc_peer c" "shm (link_of c) = ipc_mem c"
  by (simp_all add: link_of_def)

lemma both_ends_link: "both_ends n fs (ipc_of (link_of c)) out inp = both_ends n fs c out inp"
  by (simp add: both_ends_def ipc_of_def)

lemma link_of_notified:
  assumes "tegra_ivc_channel_notified (ends (link_of c) s) (ipc_mem c) = (r, i, sh)"
  shows "link_call s Notified (link_of c) = Some (link_of (if s then c\<lparr>ipc_channel := i, ipc_mem := sh\<rparr> else c\<lparr>ipc_peer := i, ipc_mem := sh\<rparr>))"
proof -
  have "(case_bool a b)(True := x) = case_bool x b" "(case_bool a b)(False := x) = case_bool a x" for a b x :: ivc
    by (auto simp: fun_eq_iff split: bool.splits)
  then show ?thesis using assms by (cases s) (simp_all add: link_of_def fun_upd_idem)
qed

context ivc_opened
begin

lemma step_notified:
  assumes w: "wired n fs (link_of c)" and e: "tegra_ivc_channel_notified (ends (link_of c) s) (ipc_mem c) = (r, i, m)"
    and c': "c' = (if s then c\<lparr>ipc_channel := i, ipc_mem := m\<rparr> else c\<lparr>ipc_peer := i, ipc_mem := m\<rparr>)"
  shows "wired n fs (link_of c')" "own_state (link_of c') s = next_state (own_state (link_of c) s) (own_state (link_of c) (\<not> s))"
    "own_state (link_of c') (\<not> s) = own_state (link_of c) (\<not> s)" "pristine (link_of c') (\<not> s) = pristine (link_of c) (\<not> s)"
    "clears (own_state (link_of c) s) (own_state (link_of c) (\<not> s)) \<or> pristine (link_of c) s \<Longrightarrow> pristine (link_of c') s"
    "r = (if own_state (link_of c') s = ivc_state_established then 0 else - EAGAIN)"
proof -
  have l: "link_call s Notified (link_of c) = Some (link_of c')" unfolding c' by (rule link_of_notified [OF e])
  from notified_effect [OF w, of s] show "wired n fs (link_of c')" "own_state (link_of c') s = next_state (own_state (link_of c) s) (own_state (link_of c) (\<not> s))"
    "own_state (link_of c') (\<not> s) = own_state (link_of c) (\<not> s)" "pristine (link_of c') (\<not> s) = pristine (link_of c) (\<not> s)"
    "clears (own_state (link_of c) s) (own_state (link_of c) (\<not> s)) \<or> pristine (link_of c) s \<Longrightarrow> pristine (link_of c') s"
    unfolding l by (auto split: if_splits)
  have "ends (link_of c') s = i" "shm (link_of c') = m" by (cases s; simp add: c')+
  then show "r = (if own_state (link_of c') s = ivc_state_established then 0 else - EAGAIN)"
    using e by (auto simp: own_state_def tegra_ivc_channel_notified_def Let_def split: prod.splits if_splits)
qed

text \<open>The first end keeps acknowledging until the firmware has seen it, and is established at the next look.\<close>

lemma own_turn:
  assumes w: "wired n fs (link_of c)" and o: "own_state (link_of c) False = ivc_state_sync"
  obtains i m where "tegra_ivc_channel_notified (ipc_channel c) (ipc_mem c) = (- EAGAIN, i, m)"
    "wired n fs (link_of (c\<lparr>ipc_channel := i, ipc_mem := m\<rparr>))" "own_state (link_of (c\<lparr>ipc_channel := i, ipc_mem := m\<rparr>)) True = ivc_state_ack"
    "own_state (link_of (c\<lparr>ipc_channel := i, ipc_mem := m\<rparr>)) False = ivc_state_sync" "pristine (link_of (c\<lparr>ipc_channel := i, ipc_mem := m\<rparr>)) True"
proof -
  obtain r i m where e: "tegra_ivc_channel_notified (ends (link_of c) True) (ipc_mem c) = (r, i, m)" by (metis prod_cases3)
  from step_notified [OF w this refl] show ?thesis using that [of i m] e o by (simp add: next_state_def clears_def)
qed

lemma peer_turn:
  assumes w: "wired n fs (link_of c)" and o: "own_state (link_of c) True = ivc_state_ack" "own_state (link_of c) False = ivc_state_sync" "pristine (link_of c) True"
  obtains j m where "handle_notification (ipc_peer c, ipc_mem c) = (j, m)"
    "wired n fs (link_of (c\<lparr>ipc_peer := j, ipc_mem := m\<rparr>))" "own_state (link_of (c\<lparr>ipc_peer := j, ipc_mem := m\<rparr>)) True = ivc_state_ack"
    "own_state (link_of (c\<lparr>ipc_peer := j, ipc_mem := m\<rparr>)) False = ivc_state_established" "\<And>s. pristine (link_of (c\<lparr>ipc_peer := j, ipc_mem := m\<rparr>)) s"
proof -
  obtain r i m where e: "tegra_ivc_channel_notified (ends (link_of c) False) (ipc_mem c) = (r, i, m)" by (metis prod_cases3)
  have p: "pristine (link_of (c\<lparr>ipc_peer := i, ipc_mem := m\<rparr>)) s" for s
    using step_notified [OF w e refl] o by (cases s) (simp_all add: clears_def)
  from step_notified [OF w e refl] show ?thesis using that [of i m] e o p by (simp add: next_state_def handle_notification_def)
qed

lemma last_turn:
  assumes w: "wired n fs (link_of c)" and o: "own_state (link_of c) True = ivc_state_ack" "own_state (link_of c) False = ivc_state_established" "\<And>s. pristine (link_of c) s"
  obtains i m where "tegra_ivc_channel_notified (ipc_channel c) (ipc_mem c) = (0, i, m)" "both_ends n fs (c\<lparr>ipc_channel := i, ipc_mem := m\<rparr>) [] []"
proof -
  obtain r i m where e: "tegra_ivc_channel_notified (ends (link_of c) True) (ipc_mem c) = (r, i, m)" by (metis prod_cases3)
  let ?c = "c\<lparr>ipc_channel := i, ipc_mem := m\<rparr>"
  note st = step_notified [OF w e refl, simplified]
  have "own_state (link_of ?c) s = ivc_state_established \<and> pristine (link_of ?c) s" for s
    using st o by (cases s) (simp_all add: next_state_def)
  from idle_ends [OF st(1) this] show ?thesis using that [of i m] e st o by (simp add: both_ends_link next_state_def)
qed

lemma handshake:
  assumes "wired n fs (link_of c)" "own_state (link_of c) False = ivc_state_sync"
    and "\<forall>u. t \<le> u \<and> u < t + d \<longrightarrow> (\<forall>s. bpmp u s = s)" "bpmp (t + d) = handle_notification"
  shows "\<exists>c'. notified_loop bpmp t c = Some c' \<and> both_ends n fs c' [] []"
  using assms
proof (induction d arbitrary: t c)
  case 0
  obtain i m where a: "tegra_ivc_channel_notified (ipc_channel c) (ipc_mem c) = (- EAGAIN, i, m)"
    "wired n fs (link_of (c\<lparr>ipc_channel := i, ipc_mem := m\<rparr>))" "own_state (link_of (c\<lparr>ipc_channel := i, ipc_mem := m\<rparr>)) True = ivc_state_ack"
    "own_state (link_of (c\<lparr>ipc_channel := i, ipc_mem := m\<rparr>)) False = ivc_state_sync" "pristine (link_of (c\<lparr>ipc_channel := i, ipc_mem := m\<rparr>)) True"
    using own_turn [OF 0(1,2)] by blast
  define c1 where "c1 = c\<lparr>ipc_channel := i, ipc_mem := m\<rparr>"
  obtain j m' where b: "handle_notification (ipc_peer c1, ipc_mem c1) = (j, m')"
    "wired n fs (link_of (c1\<lparr>ipc_peer := j, ipc_mem := m'\<rparr>))" "own_state (link_of (c1\<lparr>ipc_peer := j, ipc_mem := m'\<rparr>)) True = ivc_state_ack"
    "own_state (link_of (c1\<lparr>ipc_peer := j, ipc_mem := m'\<rparr>)) False = ivc_state_established" "\<And>s. pristine (link_of (c1\<lparr>ipc_peer := j, ipc_mem := m'\<rparr>)) s"
    using peer_turn [OF a(2-5) [folded c1_def]] by blast
  define c2 where "c2 = c1\<lparr>ipc_peer := j, ipc_mem := m'\<rparr>"
  obtain i2 m2 where l: "tegra_ivc_channel_notified (ipc_channel c2) (ipc_mem c2) = (0, i2, m2)" "both_ends n fs (c2\<lparr>ipc_channel := i2, ipc_mem := m2\<rparr>) [] []"
    using last_turn [OF b(2-5) [folded c2_def]] by blast
  have "notified_loop bpmp (t + 1) c2 = Some (c2\<lparr>ipc_channel := i2, ipc_mem := m2\<rparr>)" using l(1) by (subst notified_loop.simps) simp
  moreover have "notified_loop bpmp t c = notified_loop bpmp (t + 1) c2"
    using a(1) b(1) 0(4) by (subst notified_loop.simps) (simp add: c1_def c2_def)
  ultimately show ?case using l(2) by auto
next
  case (Suc d)
  obtain i m where a: "tegra_ivc_channel_notified (ipc_channel c) (ipc_mem c) = (- EAGAIN, i, m)"
    "wired n fs (link_of (c\<lparr>ipc_channel := i, ipc_mem := m\<rparr>))" "own_state (link_of (c\<lparr>ipc_channel := i, ipc_mem := m\<rparr>)) False = ivc_state_sync"
    using own_turn [OF Suc.prems(1,2)] by blast
  have n: "bpmp t s = s" for s using Suc.prems(3) by (cases s) simp
  have "notified_loop bpmp t c = notified_loop bpmp (t + 1) (c\<lparr>ipc_channel := i, ipc_mem := m\<rparr>)"
    using a(1) n by (subst notified_loop.simps) simp
  moreover have "\<forall>u. t + 1 \<le> u \<and> u < t + 1 + d \<longrightarrow> (\<forall>s. bpmp u s = s)" "bpmp (t + 1 + d) = handle_notification" using Suc.prems(3,4) by auto
  ultimately show ?case using Suc.IH [OF a(2,3)] by simp
qed

end


lemma bpmp_channel_opens:
  "tegra_ivc_init i 0x4004f000 0x4004e000 1 256 = (0, i\<lparr>rx_channel := 0x4004f000, tx_channel := 0x4004e000, frame_size := 256, nframes := 1, w_pos := 0, r_pos := 0\<rparr>)"
  by (simp add: tegra_ivc_init_def check_ivc_params_def)

lemma connect_channel_ready:
  assumes p: "tegra_ivc_init j 0x4004e000 0x4004f000 1 256 = (0, ipc_peer c)" "ch_state (ipc_mem c 0x4004f000) = ivc_state_sync"
    and a: "length (area (ipc_mem c 0x4004e000)) = 256" "length (area (ipc_mem c 0x4004f000)) = 256" and h: "handles k bpmp"
  shows "\<exists>c'. connect_channel bpmp 256 384 0 c = Some (TEGRABL_NO_ERROR, c') \<and> both_ends 1 256 c' [] []"
proof -
  let ?i = "(ipc_channel c)\<lparr>rx_channel := 0x4004f000, tx_channel := 0x4004e000, frame_size := 256, nframes := 1, w_pos := 0, r_pos := 0\<rparr>"
  let ?c = "c\<lparr>ipc_channel := ivc_notify True ?i, ipc_mem := set_tx_state ivc_state_sync ?i (ipc_mem c)\<rparr>"
  note j = ivc_init_ok [OF p(1)]
  have "wired 1 256 (link_of ?c)"
    using j a unfolding wired_def all_bool_eq by (simp add: shaped_def set_tx_state_def)
  moreover have "own_state (link_of ?c) False = ivc_state_sync" using j p(2) by (simp add: own_state_def set_tx_state_def)
  ultimately obtain c' where "notified_loop bpmp 0 ?c = Some c'" "both_ends 1 256 c' [] []"
    using bpmp.handshake [of ?c 0 k bpmp] h by (auto simp: handles_def)
  then show ?thesis by (simp add: connect_channel_def bpmp_channel_opens tegra_ivc_channel_reset_def Let_def)
qed

lemma ipc_init_connects:
  assumes "tegra_ivc_init j 0x4004e000 0x4004f000 1 256 = (0, ipc_peer c)" "ch_state (ipc_mem c 0x4004f000) = ivc_state_sync"
    and "length (area (ipc_mem c 0x4004e000)) = 256" "length (area (ipc_mem c 0x4004f000)) = 256"
    and "tegrabl_can_ccplex_ring_bpmpdb (db u)" "handles k bpmp"
  shows "\<exists>c'. tegrabl_ipc_init False db bpmp reg c = Some (TEGRABL_NO_ERROR, reg OR push_bit 19 1, c') \<and> both_ends 1 256 c' [] []"
proof -
  obtain t where "wait_ready db 1 0 = Some t" using wait_ready_ends [of db u 0] assms(5) by blast
  moreover obtain c' where "connect_channel bpmp 256 384 0 c = Some (TEGRABL_NO_ERROR, c')" "both_ends 1 256 c' [] []"
    using connect_channel_ready [OF assms(1-4,6)] by blast
  ultimately show ?thesis
    by (simp add: tegrabl_ipc_init_def tegrabl_connect_bpmp_def tegra_ivc_align_def tegra_ivc_total_queue_size_def tegrabl_enable_bpmp_to_ring_ccplex_db_def Let_def)
qed


definition power_on :: bpmp_ipc where
  "power_on = \<lparr>ipc_channel = blank_ivc, ib = None, ob = None,
     ipc_mem = \<lambda>_. \<lparr>w_count = 0xFFFFFFFF, ch_state = 1, r_count = 3, area = replicate 256 0xAA\<rparr>, ipc_peer = bpmp_end 0x4004e000 0x4004f000\<rparr>"


end
