(* ===== verification/Spec2Isabelle.thy ===== *)
theory Spec2Isabelle
  imports Cboot_Utils Cboot_Memops Cboot_Strtoul Cboot_Smd Cboot_Heapsafe Cboot_Bpmp
begin

text \<open>
  Verification of the portable core of the Tegra CBoot bootloader.
\<close>

end
